(* ===== verification/Ombrac_Prelude.thy ===== *)
theory Ombrac_Prelude
  imports Main "HOL-Library.Word" "HOL-Library.Multiset"
begin

text \<open>
  Shared vocabulary of the development: the machine types of the sources, the parts of Rust's
  standard library that several components use (\<open>io::Error\<close> and \<open>io::ErrorKind\<close>, \<open>slice::chunks\<close>,
  \<open>u16::to_be_bytes\<close> and \<open>from_be_bytes\<close>, the socket address types), and the generic lemmas on lists
  and words that the component theories rest on.

  A Rust \<open>Result<T, io::Error>\<close> is a value of type \<open>'a io_result\<close>: \<open>Inl e\<close> is \<open>Err(e)\<close> and
  \<open>Inr x\<close> is \<open>Ok(x)\<close>. A function of the sources that can panic returns an \<open>option\<close> of its result,
  where \<open>None\<close> is the panic. Durations are natural numbers of nanoseconds.
\<close>

unbundle bit_operations_syntax

named_theorems wire_simps
named_theorems option_or_simps

type_synonym u8 = "8 word"
type_synonym u16 = "16 word"
type_synonym u32 = "32 word"
type_synonym u64 = "64 word"
type_synonym bytes = "u8 list"
type_synonym duration = nat

section \<open>Errors as values\<close>

text \<open>The members of \<open>std::io::ErrorKind\<close> that the sources name.\<close>

datatype error_kind =
    KNotFound
  | KPermissionDenied
  | KConnectionRefused
  | KConnectionReset
  | KHostUnreachable
  | KNetworkUnreachable
  | KConnectionAborted
  | KNotConnected
  | KNetworkDown
  | KBrokenPipe
  | KWouldBlock
  | KInvalidInput
  | KInvalidData
  | KTimedOut
  | KInterrupted
  | KUnsupported
  | KUnexpectedEof
  | KOther

record io_error =
  err_kind :: error_kind
  err_msg :: string

type_synonym 'a io_result = "io_error + 'a"

definition io_err :: "error_kind \<Rightarrow> string \<Rightarrow> io_error" where
  "io_err k m = \<lparr>err_kind = k, err_msg = m\<rparr>"

lemma err_kind_io_err [simp]: "err_kind (io_err k m) = k"
  by (simp add: io_err_def)

lemma err_msg_io_err [simp]: "err_msg (io_err k m) = m"
  by (simp add: io_err_def)

text \<open>\<open>Option::or\<close>: the receiver if it is present, else the argument.\<close>

fun option_or :: "'a option \<Rightarrow> 'a option \<Rightarrow> 'a option" where
  "option_or (Some x) _ = Some x"
| "option_or None y = y"

lemma option_or_assoc [option_or_simps]: "option_or (option_or a b) c = option_or a (option_or b c)"
  by (cases a) auto

lemma option_or_None_right [simp]: "option_or a None = a"
  by (cases a) auto

lemma option_or_idem [simp]: "option_or a (option_or a b) = option_or a b"
  by (cases a) auto

text \<open>\<open>Option::unwrap_or\<close>.\<close>

fun unwrap_or :: "'a option \<Rightarrow> 'a \<Rightarrow> 'a" where
  "unwrap_or (Some x) _ = x"
| "unwrap_or None d = d"

lemma unwrap_or_option_or [option_or_simps]:
  "unwrap_or (option_or a b) d = unwrap_or a (unwrap_or b d)"
  by (cases a) auto

lemma map_le_SomeD: "m \<subseteq>\<^sub>m m' \<Longrightarrow> m k = Some v \<Longrightarrow> m' k = Some v"
  unfolding map_le_def by force

section \<open>Big-endian 16-bit integers\<close>

definition to_be16 :: "u16 \<Rightarrow> bytes" where
  "to_be16 w = [ucast (drop_bit 8 w), ucast w]"

definition from_be16 :: "u8 \<Rightarrow> u8 \<Rightarrow> u16" where
  "from_be16 a b = (push_bit 8 (ucast a) OR ucast b)"

lemma length_to_be16 [simp]: "length (to_be16 w) = 2"
  by (simp add: to_be16_def)

lemma from_to_be16 [simp]: "from_be16 (ucast (drop_bit 8 w)) (ucast w) = w"
proof (rule bit_word_eqI)
  fix n assume "n < LENGTH(16)"
  then show "bit (from_be16 (ucast (drop_bit 8 w)) (ucast w)) n \<longleftrightarrow> bit w n"
    by (auto simp: from_be16_def bit_simps)
qed

lemma to_from_be16 [simp]: "to_be16 (from_be16 a b) = [a, b]"
proof -
  have 1: "ucast (drop_bit 8 (from_be16 a b)) = a"
    by (rule bit_word_eqI) (auto simp: from_be16_def bit_simps dest: bit_imp_le_length)
  have 2: "ucast (from_be16 a b) = b"
    by (rule bit_word_eqI) (auto simp: from_be16_def bit_simps)
  show ?thesis by (simp add: to_be16_def 1 2)
qed

section \<open>Socket addresses of \<open>std::net\<close>\<close>

datatype ipv4_addr = Ipv4 u8 u8 u8 u8

datatype ipv6_addr = Ipv6 u16 u16 u16 u16 u16 u16 u16 u16

datatype ip_addr = IpV4 ipv4_addr | IpV6 ipv6_addr

record socket_addr_v4 =
  v4_ip :: ipv4_addr
  v4_port :: u16

record socket_addr_v6 =
  v6_ip :: ipv6_addr
  v6_port :: u16
  v6_flowinfo :: u32
  v6_scope_id :: u32

datatype socket_addr = SAV4 socket_addr_v4 | SAV6 socket_addr_v6

fun v4_octets :: "ipv4_addr \<Rightarrow> bytes" where
  "v4_octets (Ipv4 a b c d) = [a, b, c, d]"

fun v6_segments :: "ipv6_addr \<Rightarrow> u16 list" where
  "v6_segments (Ipv6 a b c d e f g h) = [a, b, c, d, e, f, g, h]"

definition v6_octets :: "ipv6_addr \<Rightarrow> bytes" where
  "v6_octets ip = concat (map to_be16 (v6_segments ip))"

text \<open>\<open>Ipv4Addr::from([u8; 4])\<close> and \<open>Ipv6Addr::from([u8; 16])\<close> on the list of octets; the other
  lengths cannot be written in Rust.\<close>

fun v4_from_octets :: "bytes \<Rightarrow> ipv4_addr" where
  "v4_from_octets [a, b, c, d] = Ipv4 a b c d"
| "v4_from_octets _ = Ipv4 0 0 0 0"

fun v6_from_octets :: "bytes \<Rightarrow> ipv6_addr" where
  "v6_from_octets [a0, a1, b0, b1, c0, c1, d0, d1, e0, e1, f0, f1, g0, g1, h0, h1] =
     Ipv6 (from_be16 a0 a1) (from_be16 b0 b1) (from_be16 c0 c1) (from_be16 d0 d1)
          (from_be16 e0 e1) (from_be16 f0 f1) (from_be16 g0 g1) (from_be16 h0 h1)"
| "v6_from_octets _ = Ipv6 0 0 0 0 0 0 0 0"

text \<open>\<open>u32::from(Ipv4Addr)\<close> and \<open>Ipv4Addr::from(u32)\<close>.\<close>

fun u32_from_v4 :: "ipv4_addr \<Rightarrow> u32" where
  "u32_from_v4 (Ipv4 a b c d) =
     push_bit 24 (ucast a) OR push_bit 16 (ucast b) OR push_bit 8 (ucast c) OR ucast d"

definition v4_from_u32 :: "u32 \<Rightarrow> ipv4_addr" where
  "v4_from_u32 w = Ipv4 (ucast (drop_bit 24 w)) (ucast (drop_bit 16 w)) (ucast (drop_bit 8 w)) (ucast w)"

lemma length_v4_octets [simp]: "length (v4_octets ip) = 4"
  by (cases ip) simp

lemma length_v6_octets [simp]: "length (v6_octets ip) = 16"
  by (cases ip) (simp add: v6_octets_def)

lemma v4_from_octets_octets [simp]: "v4_from_octets (v4_octets ip) = ip"
  by (cases ip) simp

lemma v6_from_octets_octets [simp]: "v6_from_octets (v6_octets ip) = ip"
  by (cases ip) (simp add: v6_octets_def to_be16_def)

lemma length_4_conv: "length xs = 4 \<Longrightarrow> \<exists>a b c d. xs = [a, b, c, d]"
  by (auto simp: numeral_eq_Suc length_Suc_conv)

lemma v4_octets_from_octets: "length xs = 4 \<Longrightarrow> v4_octets (v4_from_octets xs) = xs"
  by (auto dest!: length_4_conv)

lemma v6_octets_from_octets: "length xs = 16 \<Longrightarrow> v6_octets (v6_from_octets xs) = xs"
  by (auto simp: numeral_eq_Suc length_Suc_conv v6_octets_def)

lemma v4_from_u32_inverse [simp]: "u32_from_v4 (v4_from_u32 w) = w"
proof (rule bit_word_eqI)
  fix n assume "n < LENGTH(32)"
  then consider "n < 8" | "8 \<le> n" "n < 16" | "16 \<le> n" "n < 24" | "24 \<le> n" "n < 32"
    by fastforce
  then show "bit (u32_from_v4 (v4_from_u32 w)) n \<longleftrightarrow> bit w n"
    by cases (auto simp: v4_from_u32_def bit_simps)
qed

lemma v4_from_u32_inj: "v4_from_u32 v = v4_from_u32 w \<longleftrightarrow> v = w"
  by (metis v4_from_u32_inverse)

text \<open>\<open>SocketAddr::new\<close>, \<open>SocketAddr::ip\<close> and \<open>SocketAddr::port\<close>.\<close>

fun socket_addr_new :: "ip_addr \<Rightarrow> u16 \<Rightarrow> socket_addr" where
  "socket_addr_new (IpV4 ip) p = SAV4 \<lparr>v4_ip = ip, v4_port = p\<rparr>"
| "socket_addr_new (IpV6 ip) p = SAV6 \<lparr>v6_ip = ip, v6_port = p, v6_flowinfo = 0, v6_scope_id = 0\<rparr>"

fun sa_ip :: "socket_addr \<Rightarrow> ip_addr" where
  "sa_ip (SAV4 a) = IpV4 (v4_ip a)"
| "sa_ip (SAV6 a) = IpV6 (v6_ip a)"

fun sa_port :: "socket_addr \<Rightarrow> u16" where
  "sa_port (SAV4 a) = v4_port a"
| "sa_port (SAV6 a) = v6_port a"

lemma sa_port_new [simp]: "sa_port (socket_addr_new ip p) = p"
  by (cases ip) auto

lemma sa_ip_new [simp]: "sa_ip (socket_addr_new ip p) = ip"
  by (cases ip) auto

section \<open>Splitting a slice\<close>

text \<open>
  \<open>slice::chunks(n)\<close>: consecutive pieces of length \<open>n\<close>, the last one possibly shorter. Rust panics
  for \<open>n = 0\<close>; the callers in this development check that case, so the recursion stops there.
\<close>

function chunks :: "nat \<Rightarrow> 'a list \<Rightarrow> 'a list list" where
  "chunks n xs = (if n = 0 \<or> xs = [] then [] else take n xs # chunks n (drop n xs))"
  by pat_completeness auto
termination
  by (relation "measure (\<lambda>(n, xs). length xs)") auto

declare chunks.simps [simp del]

lemma chunks_Nil [simp]: "chunks n [] = []"
  by (subst chunks.simps) simp

lemma chunks_eq_Nil [simp]: "0 < n \<Longrightarrow> chunks n xs = [] \<longleftrightarrow> xs = []"
  by (subst chunks.simps) simp

lemma concat_chunks: "0 < n \<Longrightarrow> concat (chunks n xs) = xs"
proof (induction n xs rule: chunks.induct)
  case (1 n xs)
  then show ?case by (cases "xs = []") (simp_all add: chunks.simps [of n xs])
qed

lemma chunks_sizes: "c \<in> set (chunks n xs) \<Longrightarrow> 0 < length c \<and> length c \<le> n"
proof (induction n xs rule: chunks.induct)
  case (1 n xs)
  show ?case
  proof (cases "n = 0 \<or> xs = []")
    case True
    with 1 show ?thesis by (auto simp: chunks.simps [of n xs])
  next
    case False
    with 1 show ?thesis by (auto simp: chunks.simps [of n xs])
  qed
qed

lemma nat_div_add_self: "0 < n \<Longrightarrow> (m + n) div n = Suc (m div n)" for m n :: nat
  by (simp add: div_add_self2)

lemma length_chunks: "0 < n \<Longrightarrow> length (chunks n xs) = (length xs + n - 1) div n"
proof (induction n xs rule: chunks.induct)
  case (1 n xs)
  show ?case
  proof (cases "xs = []")
    case True
    with 1 show ?thesis by (simp add: chunks.simps)
  next
    case False
    with 1 have IH: "length (chunks n (drop n xs)) = (length (drop n xs) + n - 1) div n" by simp
    have "Suc ((length (drop n xs) + n - 1) div n) = (length xs + n - 1) div n"
    proof (cases "n \<le> length xs")
      case True
      with \<open>0 < n\<close> have "length xs + n - 1 = (length (drop n xs) + n - 1) + n" by simp
      then have "(length xs + n - 1) div n = ((length (drop n xs) + n - 1) + n) div n"
        by (rule arg_cong)
      also have "\<dots> = Suc ((length (drop n xs) + n - 1) div n)"
        using \<open>0 < n\<close> by (rule nat_div_add_self)
      finally show ?thesis by (rule sym)
    next
      case F: False
      from False have "0 < length xs" by simp
      then have "length xs + n - 1 = (length xs - 1) + n" by linarith
      then have "(length xs + n - 1) div n = ((length xs - 1) + n) div n"
        by (rule arg_cong)
      also have "\<dots> = Suc ((length xs - 1) div n)"
        using \<open>0 < n\<close> by (rule nat_div_add_self)
      finally show ?thesis using F \<open>0 < n\<close> by simp
    qed
    with IH False \<open>0 < n\<close> show ?thesis by (simp add: chunks.simps [of n xs])
  qed
qed

end
