(* ===== verification/Protocol.thy ===== *)
theory Protocol
  imports Ombrac_Prelude
begin

text \<open>
  The protocol crate: \<open>crates/ombrac/src/protocol.rs\<close> and the message types of
  \<open>crates/ombrac/src/codec.rs\<close>. The theory holds the wire data types with the constructors of the
  sources, the fragmentation of a UDP payload (\<open>UdpPacket::split_packet\<close>), and the mapping of I/O
  errors to the protocol's error kinds. The serialisation itself is done by the \<open>bincode\<close> package,
  which is not part of the sources: where a component needs it, \<open>encode\<close> and \<open>decode\<close> are arguments.
\<close>

section \<open>Addresses and messages\<close>

datatype address =
    SocketV4 socket_addr_v4
  | SocketV6 socket_addr_v6
  | Domain bytes u16

fun address_from_socket_addr :: "socket_addr \<Rightarrow> address" where
  "address_from_socket_addr (SAV4 addr) = SocketV4 addr"
| "address_from_socket_addr (SAV6 addr) = SocketV6 addr"

definition PROTOCOL_VERSION :: u8 where
  "PROTOCOL_VERSION = 1"

definition MAX_DOMAIN_LENGTH :: nat where
  "MAX_DOMAIN_LENGTH = 255"

text \<open>\<open>type Secret = [u8; 32]\<close>\<close>

type_synonym secret = bytes

record client_hello =
  hello_version :: u8
  hello_secret :: secret
  hello_options :: bytes

record client_connect =
  connect_address :: address

datatype server_auth_response = AuthOk | AuthErr

datatype udp_packet =
    Unfragmented u64 address bytes
  | Fragmented u64 u32 u16 u16 "address option" bytes

datatype connect_error_kind =
    CEConnectionRefused
  | CENetworkUnreachable
  | CEHostUnreachable
  | CETimedOut
  | CEOther

datatype server_connect_response =
    ConnectOk
  | ConnectErr connect_error_kind string

datatype client_message =
    Hello client_hello
  | Connect client_connect

datatype server_message =
    ConnectResponse server_connect_response

text \<open>\<open>ConnectErrorKind::from_io_error\<close>\<close>

definition from_io_error :: "io_error \<Rightarrow> connect_error_kind" where
  "from_io_error e =
     (case err_kind e of
        KConnectionRefused \<Rightarrow> CEConnectionRefused
      | KNetworkUnreachable \<Rightarrow> CENetworkUnreachable
      | KHostUnreachable \<Rightarrow> CEHostUnreachable
      | KTimedOut \<Rightarrow> CETimedOut
      | _ \<Rightarrow> CEOther)"

section \<open>Fragmentation\<close>

definition fragmented_overhead :: nat where
  "fragmented_overhead =
     (let fixed = 1 + 8 + 4 + 2 + 2;
          max_address = 1 + 2 + MAX_DOMAIN_LENGTH + 2
      in fixed + max_address)"

text \<open>
  \<open>UdpPacket::split_packet\<close>. \<open>chunks(0)\<close> panics and so does the assertion on the fragment count; both
  are \<open>None\<close>. The count and the indices are \<open>as u16\<close> casts, which keep the low 16 bits.
\<close>

definition mk_fragment :: "u64 \<Rightarrow> address \<Rightarrow> u32 \<Rightarrow> u16 \<Rightarrow> nat \<Rightarrow> bytes \<Rightarrow> udp_packet" where
  "mk_fragment sid addr fid fragment_count i chunk =
     (let fragment_index = word_of_nat i
      in Fragmented sid fid fragment_index fragment_count
           (if fragment_index = 0 then Some addr else None) chunk)"

definition split_packet :: "u64 \<Rightarrow> address \<Rightarrow> bytes \<Rightarrow> nat \<Rightarrow> u32 \<Rightarrow> udp_packet list option" where
  "split_packet sid addr data max_payload_size fid =
     (if max_payload_size = 0 then None
      else
        let data_chunks = chunks max_payload_size data;
            fragment_count = (word_of_nat (length data_chunks) :: u16)
        in if \<not> (0 < fragment_count) then None
           else Some (map (\<lambda>(i, chunk). mk_fragment sid addr fid fragment_count i chunk)
                        (enumerate 0 data_chunks)))"

text \<open>The fields of a fragment, as the receiving side reads them.\<close>

fun packet_data :: "udp_packet \<Rightarrow> bytes" where
  "packet_data (Unfragmented _ _ d) = d"
| "packet_data (Fragmented _ _ _ _ _ d) = d"

fun frag_key :: "udp_packet \<Rightarrow> (u64 \<times> u32) option" where
  "frag_key (Unfragmented _ _ _) = None"
| "frag_key (Fragmented sid fid _ _ _ _) = Some (sid, fid)"

fun frag_index :: "udp_packet \<Rightarrow> u16" where
  "frag_index (Unfragmented _ _ _) = 0"
| "frag_index (Fragmented _ _ i _ _ _) = i"

section \<open>Properties of fragmentation\<close>

lemma unat_word_of_nat_u16: "n < 65536 \<Longrightarrow> unat (word_of_nat n :: u16) = n"
  by (simp add: unat_of_nat take_bit_nat_eq_self)

lemma word_of_nat_u16_inj:
  "i < 65536 \<Longrightarrow> j < 65536 \<Longrightarrow> (word_of_nat i :: u16) = word_of_nat j \<longleftrightarrow> i = j"
  by (metis unat_word_of_nat_u16)

lemma word_of_nat_u16_eq_0: "i < 65536 \<Longrightarrow> (word_of_nat i :: u16) = 0 \<longleftrightarrow> i = 0"
  using word_of_nat_u16_inj [of i 0] by simp

lemma split_packet_SomeI:
  assumes "0 < m" and "data \<noteq> []" and "length (chunks m data) < 65536"
  shows "split_packet sid addr data m fid =
           Some (map (\<lambda>(i, chunk). mk_fragment sid addr fid (word_of_nat (length (chunks m data))) i chunk)
                   (enumerate 0 (chunks m data)))"
proof -
  have "0 < length (chunks m data)" using assms by simp
  then have "(word_of_nat (length (chunks m data)) :: u16) \<noteq> 0"
    using assms(3) by (simp add: word_of_nat_u16_eq_0)
  then show ?thesis using assms by (simp add: split_packet_def Let_def word_neq_0_conv)
qed

lemma packet_data_mk_fragment [simp]: "packet_data (mk_fragment sid addr fid n i c) = c"
  by (simp add: mk_fragment_def Let_def)

lemma frag_key_mk_fragment [simp]: "frag_key (mk_fragment sid addr fid n i c) = Some (sid, fid)"
  by (simp add: mk_fragment_def Let_def)

lemma map_packet_data_split:
  "map packet_data (map (\<lambda>(i, chunk). mk_fragment sid addr fid n i chunk) (enumerate k cs)) = cs"
  by (induction cs arbitrary: k) auto

lemma split_packet_nth:
  assumes "split_packet sid addr data m fid = Some ps" and "i < length ps"
  shows "ps ! i = mk_fragment sid addr fid (word_of_nat (length (chunks m data))) i (chunks m data ! i)"
  using assms by (auto simp: split_packet_def Let_def nth_enumerate_eq split: if_splits)

lemma length_split_packet:
  "split_packet sid addr data m fid = Some ps \<Longrightarrow> length ps = length (chunks m data)"
  by (auto simp: split_packet_def Let_def split: if_splits)

end
