(* ===== verification/Reassembly.thy ===== *)
theory Reassembly
  imports Protocol
begin

text \<open>
  UDP reassembly: \<open>crates/ombrac/src/reassembly.rs\<close>. A \<open>ReassemblyBuffer\<close> collects the fragments of
  one packet, and \<open>UdpReassembler\<close> keeps the buffers in a \<open>moka\<close> cache keyed by session and fragment
  identifier, each behind an \<open>Arc<Mutex<_>>\<close>. The cache is a parameter of the model (a record of its
  operations); the buffers live in an explicit heap and the cache holds references to them, as the
  \<open>Arc\<close>s do, so an entry that the cache drops leaves its buffer untouched but unreachable.
\<close>

section \<open>The reassembly buffer\<close>

definition MAX_FRAGMENT_COUNT :: u16 where
  "MAX_FRAGMENT_COUNT = 256"

record reassembly_buffer =
  fragments :: "bytes option list"
  received_count :: u16
  total_count :: u16
  buf_address :: "address option"
  buf_session_id :: u64

definition reassembly_buffer_new :: "u64 \<Rightarrow> u16 \<Rightarrow> address option \<Rightarrow> reassembly_buffer" where
  "reassembly_buffer_new session_id fragment_count addr =
     \<lparr>fragments = replicate (unat fragment_count) None, received_count = 0,
      total_count = fragment_count, buf_address = addr, buf_session_id = session_id\<rparr>"

text \<open>The \<open>fragment_index == 0\<close> block of \<open>add_fragment\<close>: \<open>None\<close> is its \<open>return false\<close>.\<close>

definition check_address ::
    "reassembly_buffer \<Rightarrow> u16 \<Rightarrow> address option \<Rightarrow> reassembly_buffer option" where
  "check_address b fragment_index addr =
     (if fragment_index = 0 then
        (case buf_address b of
           None \<Rightarrow> Some (b\<lparr>buf_address := addr\<rparr>)
         | Some existing \<Rightarrow>
             (case addr of
                Some new_addr \<Rightarrow> if existing \<noteq> new_addr then None else Some b
              | None \<Rightarrow> None))
      else Some b)"

definition store_fragment :: "reassembly_buffer \<Rightarrow> u16 \<Rightarrow> bytes \<Rightarrow> bool \<times> reassembly_buffer" where
  "store_fragment b fragment_index data =
     (let index = unat fragment_index
      in if index < length (fragments b) \<and> fragments b ! index = None
         then (True, b\<lparr>fragments := (fragments b)[index := Some data],
                       received_count := received_count b + 1\<rparr>)
         else (False, b))"

fun add_fragment :: "reassembly_buffer \<Rightarrow> udp_packet \<Rightarrow> bool \<times> reassembly_buffer" where
  "add_fragment b (Unfragmented _ _ _) = (False, b)"
| "add_fragment b (Fragmented _ _ fragment_index fragment_count addr data) =
     (if fragment_count = 0 \<or> MAX_FRAGMENT_COUNT < fragment_count then (False, b)
      else if total_count b \<noteq> 0 \<and> total_count b \<noteq> fragment_count then (False, b)
      else
        let b1 = (if total_count b = 0
                  then b\<lparr>total_count := fragment_count,
                         fragments := replicate (unat fragment_count) None\<rparr>
                  else b)
        in case check_address b1 fragment_index addr of
             None \<Rightarrow> (False, b1)
           | Some b2 \<Rightarrow> store_fragment b2 fragment_index data)"

definition is_complete :: "reassembly_buffer \<Rightarrow> bool" where
  "is_complete b \<longleftrightarrow>
     0 < total_count b \<and> received_count b = total_count b \<and> buf_address b \<noteq> None"

text \<open>The \<open>for\<close> loop of \<open>assemble_and_take\<close>: each slot is taken; a missing one ends it.\<close>

fun take_fragments :: "bytes option list \<Rightarrow> bytes option \<times> bytes option list" where
  "take_fragments [] = (Some [], [])"
| "take_fragments (Some data # fs) =
     (let (r, fs') = take_fragments fs in (map_option (\<lambda>x. data @ x) r, None # fs'))"
| "take_fragments (None # fs) = (None, None # fs)"

definition assemble_and_take ::
    "reassembly_buffer \<Rightarrow> (u64 \<times> address \<times> bytes) option \<times> reassembly_buffer" where
  "assemble_and_take b =
     (if \<not> is_complete b then (None, b)
      else case take_fragments (fragments b) of
        (None, fs) \<Rightarrow> (None, b\<lparr>fragments := fs\<rparr>)
      | (Some combined, fs) \<Rightarrow>
          (map_option (\<lambda>addr. (buf_session_id b, addr, combined)) (buf_address b),
           b\<lparr>fragments := fs\<rparr>))"

section \<open>The reassembler over a cache\<close>

text \<open>The operations of \<open>moka::future::Cache\<close> that the sources call.\<close>

record ('c, 'k, 'v) cache_ops =
  cache_get :: "'c \<Rightarrow> 'k \<Rightarrow> 'v option"
  cache_get_with :: "'c \<Rightarrow> 'k \<Rightarrow> 'v \<Rightarrow> 'v \<times> 'c"
  cache_insert :: "'c \<Rightarrow> 'k \<Rightarrow> 'v \<Rightarrow> 'c"
  cache_invalidate :: "'c \<Rightarrow> 'k \<Rightarrow> 'c"

type_synonym cache_key = "u64 \<times> u32"

record 'c reassembler =
  rs_cache :: 'c
  rs_heap :: "nat \<Rightarrow> reassembly_buffer"
  rs_next :: nat

definition reassembler_new :: "'c \<Rightarrow> 'c reassembler" where
  "reassembler_new cache =
     \<lparr>rs_cache = cache, rs_heap = (\<lambda>_. reassembly_buffer_new 0 0 None), rs_next = 0\<rparr>"

text \<open>
  The first part of \<open>process\<close> on a fragment: \<open>get_with\<close> returns the reference stored for the key, or
  stores and returns a fresh one, whose buffer the \<open>async\<close> initialiser then creates.
\<close>

definition acquire_buffer ::
    "('c, cache_key, nat) cache_ops \<Rightarrow> 'c reassembler \<Rightarrow> cache_key \<Rightarrow> nat \<times> 'c reassembler" where
  "acquire_buffer ops rs key =
     (let (r, cache1) = cache_get_with ops (rs_cache rs) key (rs_next rs)
      in (r, if r = rs_next rs
             then rs\<lparr>rs_cache := cache1,
                     rs_heap := (rs_heap rs)(r := reassembly_buffer_new (fst key) 0 None),
                     rs_next := Suc (rs_next rs)\<rparr>
             else rs\<lparr>rs_cache := cache1\<rparr>))"

fun process ::
    "('c, cache_key, nat) cache_ops \<Rightarrow> 'c reassembler \<Rightarrow> udp_packet \<Rightarrow>
     (u64 \<times> address \<times> bytes) option io_result \<times> 'c reassembler" where
  "process ops rs (Unfragmented session_id addr data) = (Inr (Some (session_id, addr, data)), rs)"
| "process ops rs (Fragmented session_id fragment_id idx cnt addr data) =
     (let packet = Fragmented session_id fragment_id idx cnt addr data;
          cache_key = (session_id, fragment_id);
          (r, rs1) = acquire_buffer ops rs cache_key;
          (added, buffer) = add_fragment (rs_heap rs1 r) packet
      in if \<not> added then (Inr None, rs1\<lparr>rs_heap := (rs_heap rs1)(r := buffer)\<rparr>)
         else if is_complete buffer then
           (let (assembled_data, buffer1) = assemble_and_take buffer
            in (Inr assembled_data,
                rs1\<lparr>rs_cache := cache_invalidate ops (rs_cache rs1) cache_key,
                    rs_heap := (rs_heap rs1)(r := buffer1)\<rparr>))
         else (Inr None, rs1\<lparr>rs_heap := (rs_heap rs1)(r := buffer)\<rparr>))"

text \<open>A sequence of packets processed one after the other, with the results in order.\<close>

fun process_all ::
    "('c, cache_key, nat) cache_ops \<Rightarrow> 'c reassembler \<Rightarrow> udp_packet list \<Rightarrow>
     (u64 \<times> address \<times> bytes) option io_result list \<times> 'c reassembler" where
  "process_all ops rs [] = ([], rs)"
| "process_all ops rs (p # ps) =
     (let (r, rs1) = process ops rs p; (results, rs2) = process_all ops rs1 ps
      in (r # results, rs2))"

text \<open>
  What the code relies on of the cache. \<open>view\<close> gives the entries that are present. An evicting
  cache returns the present value or inserts the initial one, and may drop entries at any
  call (capacity and time to live). A lossless cache drops nothing but what is invalidated.
\<close>

definition evicting_cache :: "('c, 'k, 'v) cache_ops \<Rightarrow> ('c \<Rightarrow> 'k \<Rightarrow> 'v option) \<Rightarrow> bool" where
  "evicting_cache ops view \<longleftrightarrow>
     (\<forall>c k v. fst (cache_get_with ops c k v) = unwrap_or (view c k) v \<and>
        view (snd (cache_get_with ops c k v)) \<subseteq>\<^sub>m (view c)(k \<mapsto> unwrap_or (view c k) v)) \<and>
     (\<forall>c k. view (cache_invalidate ops c k) \<subseteq>\<^sub>m (view c)(k := None))"

definition lossless_cache :: "('c, 'k, 'v) cache_ops \<Rightarrow> ('c \<Rightarrow> 'k \<Rightarrow> 'v option) \<Rightarrow> bool" where
  "lossless_cache ops view \<longleftrightarrow>
     (\<forall>c k v. fst (cache_get_with ops c k v) = unwrap_or (view c k) v \<and>
        view (snd (cache_get_with ops c k v)) = (view c)(k \<mapsto> unwrap_or (view c k) v)) \<and>
     (\<forall>c k. view (cache_invalidate ops c k) = (view c)(k := None))"

text \<open>A cache that keeps every entry, as a plain map; and one that may hold a single entry.\<close>

definition map_cache :: "('k \<Rightarrow> 'v option, 'k, 'v) cache_ops" where
  "map_cache =
     \<lparr>cache_get = (\<lambda>c. c),
      cache_get_with = (\<lambda>c k v. (unwrap_or (c k) v, c(k \<mapsto> unwrap_or (c k) v))),
      cache_insert = (\<lambda>c k v. c(k \<mapsto> v)),
      cache_invalidate = (\<lambda>c k. c(k := None))\<rparr>"

lemma lossless_map_cache: "lossless_cache map_cache (\<lambda>c. c)"
  by (simp add: lossless_cache_def map_cache_def)

lemma lossless_imp_evicting: "lossless_cache ops view \<Longrightarrow> evicting_cache ops view"
  by (simp add: lossless_cache_def evicting_cache_def)

lemma evicting_get_with:
  assumes "evicting_cache ops view" and "cache_get_with ops c k v = (r, c')"
  shows "r = unwrap_or (view c k) v" and "view c' \<subseteq>\<^sub>m (view c)(k \<mapsto> r)"
  using assms by (auto simp: evicting_cache_def dest!: spec [of _ c] spec [of _ k] spec [of _ v])

lemma evicting_invalidate:
  "evicting_cache ops view \<Longrightarrow> view (cache_invalidate ops c k) \<subseteq>\<^sub>m (view c)(k := None)"
  by (simp add: evicting_cache_def)

lemma lossless_get_with:
  assumes "lossless_cache ops view" and "cache_get_with ops c k v = (r, c')"
  shows "r = unwrap_or (view c k) v" and "view c' = (view c)(k \<mapsto> r)"
  using assms by (auto simp: lossless_cache_def dest!: spec [of _ c] spec [of _ k] spec [of _ v])

lemma lossless_invalidate:
  "lossless_cache ops view \<Longrightarrow> view (cache_invalidate ops c k) = (view c)(k := None)"
  by (simp add: lossless_cache_def)

section \<open>What a buffer holds\<close>

definition n_received :: "bytes option list \<Rightarrow> nat" where
  "n_received fs = length (filter (\<lambda>f. f \<noteq> None) fs)"

text \<open>
  The well-formedness of a buffer, relative to the set \<open>h\<close> of packets seen so far: every stored
  fragment and the stored address come from a packet of this key with the buffer's fragment count.
\<close>

definition buffer_ok :: "udp_packet set \<Rightarrow> u64 \<Rightarrow> u32 \<Rightarrow> reassembly_buffer \<Rightarrow> bool" where
  "buffer_ok h sid fid b \<longleftrightarrow>
     length (fragments b) = unat (total_count b) \<and> total_count b \<le> MAX_FRAGMENT_COUNT \<and>
     unat (received_count b) = n_received (fragments b) \<and> buf_session_id b = sid \<and>
     (total_count b = 0 \<longrightarrow> buf_address b = None) \<and>
     (\<forall>i < length (fragments b). \<forall>d. fragments b ! i = Some d \<longrightarrow>
        (\<exists>ao. Fragmented sid fid (word_of_nat i) (total_count b) ao d \<in> h)) \<and>
     (\<forall>a. buf_address b = Some a \<longrightarrow>
        (\<exists>d. Fragmented sid fid 0 (total_count b) (Some a) d \<in> h))"

definition delivered_from ::
    "udp_packet set \<Rightarrow> u64 \<Rightarrow> u32 \<Rightarrow> address \<Rightarrow> bytes \<Rightarrow> bool" where
  "delivered_from h sid fid a data \<longleftrightarrow>
     (\<exists>n ds. 0 < n \<and> n \<le> 256 \<and> length ds = n \<and> data = concat ds \<and>
        (\<forall>i < n. \<exists>ao. Fragmented sid fid (word_of_nat i) (word_of_nat n) ao (ds ! i) \<in> h) \<and>
        (\<exists>d. Fragmented sid fid 0 (word_of_nat n) (Some a) d \<in> h))"

lemma n_received_update:
  "i < length fs \<Longrightarrow> fs ! i = None \<Longrightarrow> n_received (fs[i := Some d]) = Suc (n_received fs)"
proof (induction fs arbitrary: i)
  case Nil
  then show ?case by simp
next
  case (Cons f fs)
  then show ?case by (cases i) (auto simp: n_received_def)
qed

lemma n_received_replicate [simp]: "n_received (replicate n None) = 0"
  by (simp add: n_received_def)

lemma n_received_lt: "i < length fs \<Longrightarrow> fs ! i = None \<Longrightarrow> n_received fs < length fs"
  unfolding n_received_def by (rule length_filter_less [of None]) (simp_all, metis nth_mem)

lemma buffer_ok_new: "buffer_ok h sid fid (reassembly_buffer_new sid 0 None)"
  by (simp add: buffer_ok_def reassembly_buffer_new_def MAX_FRAGMENT_COUNT_def n_received_def)

lemma buffer_ok_mono: "buffer_ok h sid fid b \<Longrightarrow> h \<subseteq> h' \<Longrightarrow> buffer_ok h' sid fid b"
  unfolding buffer_ok_def by blast

lemma buffer_ok_init_total:
  assumes "buffer_ok h sid fid b" and "total_count b = 0" and "cnt \<le> MAX_FRAGMENT_COUNT"
  shows "buffer_ok h sid fid
           (b\<lparr>total_count := cnt, fragments := replicate (unat cnt) None\<rparr>)"
  using assms by (auto simp: buffer_ok_def n_received_def)

lemma buffer_ok_check_address:
  assumes "buffer_ok h sid fid b" and "Fragmented sid fid idx (total_count b) addr d \<in> h"
    and "check_address b idx addr = Some b'" and "0 < total_count b"
  shows "buffer_ok h sid fid b' \<and> total_count b' = total_count b \<and> fragments b' = fragments b"
  using assms by (auto simp: buffer_ok_def check_address_def split: if_splits option.splits)

lemma buffer_ok_length_le: "buffer_ok h sid fid b \<Longrightarrow> length (fragments b) \<le> 256"
  by (simp add: buffer_ok_def MAX_FRAGMENT_COUNT_def word_le_nat_alt)

lemma buffer_ok_store:
  assumes ok: "buffer_ok h sid fid b" and p: "Fragmented sid fid idx (total_count b) addr d \<in> h"
    and st: "store_fragment b idx d = (r, b')"
  shows "buffer_ok h sid fid b'"
proof (cases "unat idx < length (fragments b) \<and> fragments b ! unat idx = None")
  case False
  with st ok show ?thesis by (auto simp: store_fragment_def Let_def)
next
  case True
  from ok have le: "length (fragments b) \<le> 256" by (rule buffer_ok_length_le)
  from True have lt: "n_received (fragments b) < length (fragments b)"
    by (blast intro: n_received_lt)
  with le ok have "unat (received_count b) < 256" by (simp add: buffer_ok_def)
  then have inc: "unat (received_count b + 1) = Suc (unat (received_count b))"
    by (simp add: unat_word_ariths)
  from True st have b': "b' = b\<lparr>fragments := (fragments b)[unat idx := Some d],
      received_count := received_count b + 1\<rparr>"
    by (simp add: store_fragment_def Let_def)
  have idx: "word_of_nat (unat idx) = idx" by simp
  show ?thesis using ok True inc p unfolding b' buffer_ok_def
    by (auto simp: n_received_update nth_list_update idx)
qed

lemma buffer_ok_add_fragment:
  assumes ok: "buffer_ok h sid fid b" and p: "Fragmented sid fid idx cnt addr d \<in> h"
    and add: "add_fragment b (Fragmented sid fid idx cnt addr d) = (r, b')"
  shows "buffer_ok h sid fid b'"
proof -
  let ?b1 = "if total_count b = 0
     then b\<lparr>total_count := cnt, fragments := replicate (unat cnt) None\<rparr> else b"
  show ?thesis
  proof (cases "cnt = 0 \<or> MAX_FRAGMENT_COUNT < cnt \<or> (total_count b \<noteq> 0 \<and> total_count b \<noteq> cnt)")
    case True
    with add ok show ?thesis by (auto split: if_splits)
  next
    case False
    then have ok1: "buffer_ok h sid fid ?b1" and t1: "total_count ?b1 = cnt" and pos: "0 < cnt"
      using ok by (auto simp: buffer_ok_init_total not_less word_neq_0_conv)
    have eq: "add_fragment b (Fragmented sid fid idx cnt addr d) =
        (case check_address ?b1 idx addr of None \<Rightarrow> (False, ?b1) | Some b2 \<Rightarrow> store_fragment b2 idx d)"
      using False by (auto simp: Let_def)
    show ?thesis
    proof (cases "check_address ?b1 idx addr")
      case None
      with add eq have "b' = ?b1" by simp
      with ok1 show ?thesis by simp
    next
      case (Some b2)
      have p1: "Fragmented sid fid idx (total_count ?b1) addr d \<in> h" using p t1 by simp
      have pos1: "0 < total_count ?b1" using t1 pos by simp
      from buffer_ok_check_address [OF ok1 p1 Some pos1]
      have ok2: "buffer_ok h sid fid b2" and t2: "total_count b2 = cnt" using t1 by auto
      from add eq Some have st: "store_fragment b2 idx d = (r, b')" by simp
      have p2: "Fragmented sid fid idx (total_count b2) addr d \<in> h" using p t2 by simp
      show ?thesis by (rule buffer_ok_store [OF ok2 p2 st])
    qed
  qed
qed

lemma take_fragments_all:
  "(\<forall>f \<in> set fs. f \<noteq> None) \<Longrightarrow> take_fragments fs = (Some (concat (map the fs)), map (\<lambda>_. None) fs)"
  by (induction fs rule: take_fragments.induct) auto

lemma n_received_full: "n_received fs = length fs \<Longrightarrow> \<forall>f \<in> set fs. f \<noteq> None"
  unfolding n_received_def by (metis (mono_tags, lifting) length_filter_less nat_neq_iff)

lemma is_complete_full:
  assumes "buffer_ok h sid fid b" and "is_complete b"
  shows "\<forall>f \<in> set (fragments b). f \<noteq> None"
  using assms by (intro n_received_full) (simp add: buffer_ok_def is_complete_def)

lemma assemble_complete:
  assumes ok: "buffer_ok h sid fid b" and c: "is_complete b"
  shows "\<exists>a. fst (assemble_and_take b) = Some (sid, a, concat (map the (fragments b))) \<and>
             buf_address b = Some a \<and> delivered_from h sid fid a (concat (map the (fragments b)))"
proof -
  from c obtain a where a: "buf_address b = Some a" by (auto simp: is_complete_def)
  have full: "\<forall>f \<in> set (fragments b). f \<noteq> None" using is_complete_full [OF ok c] .
  let ?n = "length (fragments b)"
  have eq: "?n = unat (total_count b)" using ok by (simp add: buffer_ok_def)
  have n: "word_of_nat ?n = total_count b" "0 < ?n" "?n \<le> 256"
    using c buffer_ok_length_le [OF ok] eq by (simp_all add: is_complete_def unat_gt_0 word_neq_0_conv)
  have "\<forall>i < ?n. \<exists>ao. Fragmented sid fid (word_of_nat i) (word_of_nat ?n) ao (map the (fragments b) ! i) \<in> h"
  proof (intro allI impI)
    fix i assume i: "i < ?n"
    with full obtain d where "fragments b ! i = Some d" by (metis nth_mem option.exhaust)
    with ok i n(1) show "\<exists>ao. Fragmented sid fid (word_of_nat i) (word_of_nat ?n) ao (map the (fragments b) ! i) \<in> h"
      by (auto simp: buffer_ok_def)
  qed
  moreover have "\<exists>d. Fragmented sid fid 0 (word_of_nat ?n) (Some a) d \<in> h"
    using ok a n(1) by (auto simp: buffer_ok_def)
  ultimately have "delivered_from h sid fid a (concat (map the (fragments b)))"
    unfolding delivered_from_def using n by (intro exI [of _ ?n] exI [of _ "map the (fragments b)"]) auto
  with full c a ok show ?thesis
    by (simp add: assemble_and_take_def take_fragments_all buffer_ok_def)
qed

section \<open>Safety: what is delivered was sent\<close>

text \<open>The invariant of the reassembler, relative to the packets seen so far.\<close>

definition reassembler_ok ::
    "('c \<Rightarrow> cache_key \<Rightarrow> nat option) \<Rightarrow> udp_packet set \<Rightarrow> 'c reassembler \<Rightarrow> bool" where
  "reassembler_ok view h rs \<longleftrightarrow>
     (\<forall>k r. view (rs_cache rs) k = Some r \<longrightarrow>
        r < rs_next rs \<and> buffer_ok h (fst k) (snd k) (rs_heap rs r)) \<and>
     (\<forall>k k' r. view (rs_cache rs) k = Some r \<longrightarrow> view (rs_cache rs) k' = Some r \<longrightarrow> k = k')"

lemma reassembler_okD:
  assumes "reassembler_ok view h rs" and "view (rs_cache rs) k = Some r"
  shows "r < rs_next rs" and "buffer_ok h (fst k) (snd k) (rs_heap rs r)"
    and "view (rs_cache rs) k' = Some r \<Longrightarrow> k' = k"
  using assms unfolding reassembler_ok_def by blast+

lemma reassembler_okI:
  assumes "\<And>k r. view (rs_cache rs) k = Some r \<Longrightarrow> r < rs_next rs"
    and "\<And>k r. view (rs_cache rs) k = Some r \<Longrightarrow> buffer_ok h (fst k) (snd k) (rs_heap rs r)"
    and "\<And>k k' r. view (rs_cache rs) k = Some r \<Longrightarrow> view (rs_cache rs) k' = Some r \<Longrightarrow> k = k'"
  shows "reassembler_ok view h rs"
  using assms unfolding reassembler_ok_def by blast

lemma reassembler_ok_new: "view c = Map.empty \<Longrightarrow> reassembler_ok view h (reassembler_new c)"
  by (simp add: reassembler_ok_def reassembler_new_def)

lemma reassembler_ok_mono: "reassembler_ok view h rs \<Longrightarrow> h \<subseteq> h' \<Longrightarrow> reassembler_ok view h' rs"
  unfolding reassembler_ok_def by (meson buffer_ok_mono)

lemma process_acquire:
  "process ops rs (Fragmented sid fid idx cnt addr data) =
     (let (r, rs1) = acquire_buffer ops rs (sid, fid);
          (added, b) = add_fragment (rs_heap rs1 r) (Fragmented sid fid idx cnt addr data)
      in if added \<and> is_complete b
         then (Inr (fst (assemble_and_take b)),
               rs1\<lparr>rs_cache := cache_invalidate ops (rs_cache rs1) (sid, fid),
                   rs_heap := (rs_heap rs1)(r := snd (assemble_and_take b))\<rparr>)
         else (Inr None, rs1\<lparr>rs_heap := (rs_heap rs1)(r := b)\<rparr>))"
  by (auto simp: Let_def split: prod.splits)

lemma acquire_buffer_ok:
  assumes ops: "evicting_cache ops view" and ok: "reassembler_ok view h rs"
    and acq: "acquire_buffer ops rs key = (r, rs1)"
  shows "reassembler_ok view h rs1 \<and> r < rs_next rs1 \<and>
         buffer_ok h (fst key) (snd key) (rs_heap rs1 r) \<and>
         (\<forall>k. view (rs_cache rs1) k = Some r \<longrightarrow> k = key)"
proof -
  obtain cache1 where gw: "cache_get_with ops (rs_cache rs) key (rs_next rs) = (r, cache1)"
    using acq by (auto simp: acquire_buffer_def split: prod.splits)
  note r = evicting_get_with(1) [OF ops gw] and le = evicting_get_with(2) [OF ops gw]
  have sub: "view cache1 k = Some q \<Longrightarrow> (k = key \<and> q = r) \<or> (k \<noteq> key \<and> view (rs_cache rs) k = Some q)" for k q
    using map_le_SomeD [OF le, of k q] by (auto split: if_splits)
  show ?thesis
  proof (cases "view (rs_cache rs) key")
    case None
    with r have "r = rs_next rs" by simp
    with acq gw have rs1: "rs1 = rs\<lparr>rs_cache := cache1,
        rs_heap := (rs_heap rs)(r := reassembly_buffer_new (fst key) 0 None), rs_next := Suc (rs_next rs)\<rparr>"
      by (simp add: acquire_buffer_def)
    show ?thesis using ok \<open>r = rs_next rs\<close> unfolding rs1 reassembler_ok_def
      by (auto simp: buffer_ok_new less_Suc_eq dest!: sub)
  next
    case (Some q)
    with r have "r = q" by simp
    note lt = reassembler_okD(1) [OF ok Some, folded \<open>r = q\<close>]
      and b = reassembler_okD(2) [OF ok Some, folded \<open>r = q\<close>]
    with acq gw have rs1: "rs1 = rs\<lparr>rs_cache := cache1\<rparr>"
      by (simp add: acquire_buffer_def)
    have v: "view (rs_cache rs1) k = Some x \<Longrightarrow> view (rs_cache rs) k = Some x" for k x
      using sub [of k x] Some \<open>r = q\<close> rs1 by auto
    have "reassembler_ok view h rs1"
      using ok rs1 v unfolding reassembler_ok_def by (simp del: split_paired_All) blast
    moreover have "\<forall>k. view (rs_cache rs1) k = Some r \<longrightarrow> k = key"
      using v reassembler_okD(3) [OF ok Some] \<open>r = q\<close> by blast
    ultimately show ?thesis using lt b rs1 by simp
  qed
qed

lemma reassembler_ok_set_buffer:
  assumes "reassembler_ok view h rs" and "buffer_ok h (fst key) (snd key) b"
    and "\<forall>k. view (rs_cache rs) k = Some r \<longrightarrow> k = key"
  shows "reassembler_ok view h (rs\<lparr>rs_heap := (rs_heap rs)(r := b)\<rparr>)"
  using assms by (auto simp: reassembler_ok_def)

lemma reassembler_ok_retire:
  assumes "evicting_cache ops view" and "reassembler_ok view h rs"
    and own: "\<forall>k. view (rs_cache rs) k = Some r \<longrightarrow> k = key"
  shows "reassembler_ok view h
           (rs\<lparr>rs_cache := cache_invalidate ops (rs_cache rs) key, rs_heap := (rs_heap rs)(r := b)\<rparr>)"
proof -
  have old: "view (cache_invalidate ops (rs_cache rs) key) k = Some q \<Longrightarrow> k \<noteq> key \<and> view (rs_cache rs) k = Some q" for k q
    using map_le_SomeD [OF evicting_invalidate [OF assms(1), of "rs_cache rs" key], of k q]
    by (auto split: if_splits)
  show ?thesis
  proof (rule reassembler_okI, goal_cases)
    case (1 k q)
    then show ?case using old reassembler_okD(1) [OF assms(2), of k q] by simp
  next
    case (2 k q)
    then have "k \<noteq> key" and k: "view (rs_cache rs) k = Some q" using old by simp_all
    with own have "q \<noteq> r" by blast
    with reassembler_okD(2) [OF assms(2) k] show ?case by simp
  next
    case (3 k k' q)
    then show ?case using old reassembler_okD(3) [OF assms(2), of k' q k] by simp
  qed
qed

lemma process_Fragmented_ok:
  assumes ops: "evicting_cache ops view" and ok: "reassembler_ok view h rs"
    and p: "p = Fragmented sid fid idx cnt addr data" "p \<in> h" and pr: "process ops rs p = (res, rs')"
  shows "reassembler_ok view h rs' \<and>
         (res = Inr None \<or> (\<exists>a d. res = Inr (Some (sid, a, d)) \<and> delivered_from h sid fid a d))"
proof -
  obtain r rs1 where acq: "acquire_buffer ops rs (sid, fid) = (r, rs1)" by fastforce
  obtain added b where add: "add_fragment (rs_heap rs1 r) p = (added, b)" by fastforce
  from acquire_buffer_ok [OF ops ok acq]
  have ok1: "reassembler_ok view h rs1" and b0: "buffer_ok h sid fid (rs_heap rs1 r)"
    and own: "\<forall>k. view (rs_cache rs1) k = Some r \<longrightarrow> k = (sid, fid)" by auto
  have b: "buffer_ok h sid fid b"
    using buffer_ok_add_fragment [OF b0] p add by blast
  show ?thesis
  proof (cases "added \<and> is_complete b")
    case True
    with assemble_complete [OF b] obtain a where
      a: "fst (assemble_and_take b) = Some (sid, a, concat (map the (fragments b)))"
         "delivered_from h sid fid a (concat (map the (fragments b)))" by auto
    with pr True acq add p(1) reassembler_ok_retire [OF ops ok1 own] show ?thesis
      by (auto simp: process_acquire Let_def simp del: process.simps)
  next
    case False
    with pr acq add p(1) reassembler_ok_set_buffer [OF ok1, of "(sid, fid)", OF _ own] b show ?thesis
      by (auto simp: process_acquire Let_def simp del: process.simps)
  qed
qed

lemma process_ok:
  assumes ops: "evicting_cache ops view" and ok: "reassembler_ok view h rs"
    and p: "p \<in> h" and pr: "process ops rs p = (res, rs')"
  shows "reassembler_ok view h rs' \<and> (\<exists>out. res = Inr out) \<and>
         (\<forall>sid a d. res = Inr (Some (sid, a, d)) \<longrightarrow>
            p = Unfragmented sid a d \<or>
            (\<exists>fid. frag_key p = Some (sid, fid) \<and> delivered_from h sid fid a d))"
proof (cases p)
  case (Unfragmented sid a d)
  with pr ok show ?thesis by auto
next
  case (Fragmented sid fid idx cnt addr data)
  from process_Fragmented_ok [OF ops ok this p pr] Fragmented show ?thesis by auto
qed

lemma process_all_ok:
  assumes "evicting_cache ops view" and "reassembler_ok view h rs"
    and "process_all ops rs ps = (results, rs')" and "i < length ps"
    and "results ! i = Inr (Some (sid, a, d))"
  shows "ps ! i = Unfragmented sid a d \<or>
         (\<exists>fid. frag_key (ps ! i) = Some (sid, fid) \<and>
                delivered_from (h \<union> set (take (Suc i) ps)) sid fid a d)"
  using assms(2-)
proof (induction ps arbitrary: rs results rs' h i)
  case Nil
  then show ?case by simp
next
  case (Cons p ps)
  obtain res rs1 where pr: "process ops rs p = (res, rs1)" by fastforce
  obtain results1 where all: "process_all ops rs1 ps = (results1, rs')" and res: "results = res # results1"
    using Cons.prems(2) pr by (auto split: prod.splits)
  have ok: "reassembler_ok view (insert p h) rs"
    using Cons.prems(1) by (rule reassembler_ok_mono) auto
  note step = process_ok [OF assms(1) ok insertI1 pr]
  show ?case
  proof (cases i)
    case 0
    with step Cons.prems res show ?thesis by auto
  next
    case (Suc j)
    with Cons.IH [of "insert p h" rs1 results1 rs' j] step all Cons.prems res show ?thesis by auto
  qed
qed

lemma process_all_wf:
  assumes "evicting_cache ops view" and "reassembler_ok view UNIV rs" and "process_all ops rs ps = (results, rs')"
  shows "length results = length ps \<and> (\<forall>r \<in> set results. \<exists>out. r = Inr out) \<and> reassembler_ok view UNIV rs'"
  using assms(2-)
proof (induction ps arbitrary: rs results rs')
  case (Cons p ps)
  obtain res rs1 where pr: "process ops rs p = (res, rs1)" by fastforce
  obtain results1 where all: "process_all ops rs1 ps = (results1, rs')" and res: "results = res # results1"
    using Cons.prems(2) pr by (auto split: prod.splits)
  from process_ok [OF assms(1) Cons.prems(1) UNIV_I pr] Cons.IH [OF _ all] res show ?case by auto
qed simp

text \<open>
  C1. No packet is ever invented: with any cache that may drop entries at any time, whatever a
  sequence of packets (from any peer, in any order, with duplicates and forgeries) makes the
  reassembler deliver is either a complete packet that just arrived, or the concatenation, in
  index order, of fragments received under one session and fragment identifier that agree on the
  fragment count (between 1 and 256), with the address of a first fragment of that group.
\<close>

theorem delivered_was_received:
  assumes "evicting_cache ops view" and "view c = Map.empty"
    and "process_all ops (reassembler_new c) ps = (results, rs')"
    and "i < length ps" and "results ! i = Inr (Some (sid, a, data))"
  shows "ps ! i = Unfragmented sid a data \<or>
         (\<exists>fid. frag_key (ps ! i) = Some (sid, fid) \<and>
                delivered_from (set (take (Suc i) ps)) sid fid a data)"
  using process_all_ok [OF assms(1) reassembler_ok_new [of view c "{}", OF assms(2)] assms(3-5)]
  by simp

theorem delivered_was_received_witness:
  "delivered_from
     {Fragmented 7 1 0 2 (Some (Domain [97] 53)) [1], Fragmented 7 1 1 2 None [2]} 7 1 (Domain [97] 53) [1, 2]"
proof -
  let ?ps = "[Fragmented 7 1 1 2 None [2], Fragmented 7 1 0 2 (Some (Domain [97] 53)) [1]]"
  have "fst (process_all map_cache (reassembler_new Map.empty) ?ps) =
      [Inr None, Inr (Some (7, Domain [97] 53, [1, 2]))]"
    by code_simp
  then have run: "process_all map_cache (reassembler_new Map.empty) ?ps =
      ([Inr None, Inr (Some (7, Domain [97] 53, [1, 2]))],
       snd (process_all map_cache (reassembler_new Map.empty) ?ps))"
    by (metis prod.collapse)
  have "?ps ! 1 = Unfragmented 7 (Domain [97] 53) [1, 2] \<or>
      (\<exists>fid. frag_key (?ps ! 1) = Some (7, fid) \<and>
         delivered_from (set (take (Suc 1) ?ps)) 7 fid (Domain [97] 53) [1, 2])"
    by (rule delivered_was_received [OF lossless_imp_evicting [OF lossless_map_cache] refl run]) simp_all
  then show ?thesis by (simp add: insert_commute)
qed

text \<open>
  C31. Every buffer is well-formed at every moment, with any cache and for any packets: it has a slot for each
  announced fragment and at most 256, counts the slots that are filled, belongs to one key only, and nothing is ever out of
  range, so that every packet is processed without a failure.
\<close>

theorem reassembler_well_formed:
  assumes "evicting_cache ops view" and "view c = Map.empty"
    and "process_all ops (reassembler_new c) ps = (results, rs')"
  shows "length results = length ps \<and> (\<forall>r \<in> set results. \<exists>out. r = Inr out) \<and>
    (\<forall>key r b. view (rs_cache rs') key = Some r \<and> rs_heap rs' r = b \<longrightarrow>
       length (fragments b) = unat (total_count b) \<and> unat (total_count b) \<le> 256 \<and>
       unat (received_count b) = n_received (fragments b) \<and> buf_session_id b = fst key \<and>
       (\<forall>key'. view (rs_cache rs') key' = Some r \<longrightarrow> key' = key))"
proof -
  note wf = process_all_wf [OF assms(1) reassembler_ok_new [of view c UNIV, OF assms(2)] assms(3)]
  have "unat n \<le> 256" if "n \<le> MAX_FRAGMENT_COUNT" for n
    using that by (simp add: MAX_FRAGMENT_COUNT_def word_le_nat_alt)
  with wf show ?thesis unfolding reassembler_ok_def buffer_ok_def by metis
qed

theorem reassembler_well_formed_witness:
  "\<exists>results rs'. process_all map_cache (reassembler_new Map.empty) [Fragmented 7 1 1 2 None [2]] = (results, rs') \<and>
     length results = 1 \<and> (\<forall>r \<in> set results. \<exists>out. r = Inr out)"
proof -
  obtain results rs' where run: "process_all map_cache (reassembler_new Map.empty) [Fragmented 7 1 1 2 None [2]] = (results, rs')"
    by fastforce
  with reassembler_well_formed [OF lossless_imp_evicting [OF lossless_map_cache] refl run] show ?thesis by simp
qed

end
