(* ===== verification/Reassembly_Roundtrip.thy ===== *)
theory Reassembly_Roundtrip
  imports Reassembly
begin

text \<open>
  The reassembler as its clients see it. The detailed model (a cache of references into a heap of
  buffers) refines a map from keys to buffers when the cache loses nothing, and on that map the
  fragments of \<open>UdpPacket::split_packet\<close>, in any order and among any other traffic, are put together
  to the packet that was split.
\<close>

section \<open>The abstract reassembler\<close>

text \<open>One key's slot, and the map of all slots.\<close>

definition slot_step ::
    "u64 \<Rightarrow> reassembly_buffer option \<Rightarrow> udp_packet \<Rightarrow>
     (u64 \<times> address \<times> bytes) option \<times> reassembly_buffer option" where
  "slot_step sid s p =
     (let (added, b) = add_fragment (unwrap_or s (reassembly_buffer_new sid 0 None)) p
      in if added \<and> is_complete b then (fst (assemble_and_take b), None) else (None, Some b))"

definition abs_process ::
    "(cache_key \<Rightarrow> reassembly_buffer option) \<Rightarrow> udp_packet \<Rightarrow>
     (u64 \<times> address \<times> bytes) option \<times> (cache_key \<Rightarrow> reassembly_buffer option)" where
  "abs_process m p =
     (case p of
        Unfragmented sid a d \<Rightarrow> (Some (sid, a, d), m)
      | Fragmented sid fid _ _ _ _ \<Rightarrow>
          (let (out, s) = slot_step sid (m (sid, fid)) p in (out, m((sid, fid) := s))))"

definition buffer_map ::
    "('c \<Rightarrow> cache_key \<Rightarrow> nat option) \<Rightarrow> 'c reassembler \<Rightarrow> cache_key \<Rightarrow> reassembly_buffer option" where
  "buffer_map view rs = (\<lambda>k. map_option (rs_heap rs) (view (rs_cache rs) k))"

lemma acquire_buffer_map:
  assumes ops: "lossless_cache ops view" and ok: "reassembler_ok view h rs"
    and acq: "acquire_buffer ops rs key = (r, rs1)"
  shows "view (rs_cache rs1) key = Some r" and
    "rs_heap rs1 r = unwrap_or (buffer_map view rs key) (reassembly_buffer_new (fst key) 0 None)" and
    "k \<noteq> key \<Longrightarrow> buffer_map view rs1 k = buffer_map view rs k" and
    "k \<noteq> key \<Longrightarrow> view (rs_cache rs1) k \<noteq> Some r"
proof -
  obtain cache1 where gw: "cache_get_with ops (rs_cache rs) key (rs_next rs) = (r, cache1)"
    using acq by (auto simp: acquire_buffer_def split: prod.splits)
  note r = lossless_get_with(1) [OF ops gw] and v = lossless_get_with(2) [OF ops gw]
  from acq gw have rs1: "rs_cache rs1 = cache1" by (auto simp: acquire_buffer_def split: if_splits)
  show "view (rs_cache rs1) key = Some r" using v rs1 by simp
  have old: "view (rs_cache rs) k = Some q \<Longrightarrow> q < rs_next rs" for k q
    by (rule reassembler_okD(1) [OF ok])
  show "rs_heap rs1 r = unwrap_or (buffer_map view rs key) (reassembly_buffer_new (fst key) 0 None)"
    using acq gw r old [of key] by (cases "view (rs_cache rs) key") (auto simp: acquire_buffer_def buffer_map_def)
  show "k \<noteq> key \<Longrightarrow> view (rs_cache rs1) k \<noteq> Some r"
    using acquire_buffer_ok [OF lossless_imp_evicting [OF ops] ok acq] by blast
  have heap: "view (rs_cache rs) k = Some q \<Longrightarrow> rs_heap rs1 q = rs_heap rs q" for k q
    using acq gw old [of k q] by (auto simp: acquire_buffer_def split: if_splits)
  show "k \<noteq> key \<Longrightarrow> buffer_map view rs1 k = buffer_map view rs k"
    using rs1 v heap [of k] by (cases "view (rs_cache rs) k") (simp_all add: buffer_map_def)
qed

lemma process_refines:
  assumes ops: "lossless_cache ops view" and ok: "reassembler_ok view h rs"
    and pr: "process ops rs p = (res, rs')"
  shows "res = Inr (fst (abs_process (buffer_map view rs) p)) \<and>
         buffer_map view rs' = snd (abs_process (buffer_map view rs) p)"
proof (cases p)
  case (Unfragmented sid a d)
  with pr show ?thesis by (auto simp: abs_process_def)
next
  case (Fragmented sid fid idx cnt addr data)
  obtain r rs1 where acq: "acquire_buffer ops rs (sid, fid) = (r, rs1)" by fastforce
  note a = acquire_buffer_map [OF ops ok acq]
  obtain added b where add: "add_fragment (rs_heap rs1 r) p = (added, b)" by fastforce
  have pr': "(if added \<and> is_complete b
      then (Inr (fst (assemble_and_take b)),
            rs1\<lparr>rs_cache := cache_invalidate ops (rs_cache rs1) (sid, fid),
                rs_heap := (rs_heap rs1)(r := snd (assemble_and_take b))\<rparr>)
      else (Inr None, rs1\<lparr>rs_heap := (rs_heap rs1)(r := b)\<rparr>)) = (res, rs')"
    using pr add acq Fragmented by (simp add: process_acquire Let_def del: process.simps)
  have slot: "slot_step sid (buffer_map view rs (sid, fid)) p =
      (if added \<and> is_complete b then (fst (assemble_and_take b), None) else (None, Some b))"
    using add a(2) by (simp add: slot_step_def)
  have other: "k \<noteq> (sid, fid) \<Longrightarrow>
      map_option ((rs_heap rs1)(r := x)) (view (rs_cache rs1) k) = buffer_map view rs k" for k x
    using a(3) [of k] a(4) [of k] by (cases "view (rs_cache rs1) k") (auto simp: buffer_map_def)
  show ?thesis
  proof (cases "added \<and> is_complete b")
    case True
    with pr' have res: "res = Inr (fst (assemble_and_take b))" and
      rs': "rs' = rs1\<lparr>rs_cache := cache_invalidate ops (rs_cache rs1) (sid, fid),
                      rs_heap := (rs_heap rs1)(r := snd (assemble_and_take b))\<rparr>" by auto
    have "buffer_map view rs' = (buffer_map view rs)((sid, fid) := None)"
      by (rule ext) (simp add: rs' buffer_map_def lossless_invalidate [OF ops] other [unfolded buffer_map_def])
    with res slot True Fragmented show ?thesis by (simp add: abs_process_def)
  next
    case False
    with pr' have res: "res = Inr None" and rs': "rs' = rs1\<lparr>rs_heap := (rs_heap rs1)(r := b)\<rparr>"
      by (auto split: if_splits)
    have "buffer_map view rs' = (buffer_map view rs)((sid, fid) := Some b)"
      by (rule ext) (simp add: rs' buffer_map_def other [unfolded buffer_map_def] a(1))
    with res slot False Fragmented show ?thesis by (simp add: abs_process_def)
  qed
qed

fun abs_run ::
    "(cache_key \<Rightarrow> reassembly_buffer option) \<Rightarrow> udp_packet list \<Rightarrow>
     (u64 \<times> address \<times> bytes) option list" where
  "abs_run m [] = []"
| "abs_run m (p # ps) = fst (abs_process m p) # abs_run (snd (abs_process m p)) ps"

lemma process_all_refines:
  assumes ops: "lossless_cache ops view" and "reassembler_ok view UNIV rs"
    and "process_all ops rs ps = (results, rs')"
  shows "results = map Inr (abs_run (buffer_map view rs) ps)"
  using assms(2-)
proof (induction ps arbitrary: rs results rs')
  case Nil
  then show ?case by simp
next
  case (Cons p ps)
  obtain res rs1 where pr: "process ops rs p = (res, rs1)" by fastforce
  obtain results1 where all: "process_all ops rs1 ps = (results1, rs')" and res: "results = res # results1"
    using Cons.prems(2) pr by (auto split: prod.splits)
  have "reassembler_ok view UNIV rs1"
    using process_ok [OF lossless_imp_evicting [OF ops] Cons.prems(1) UNIV_I pr] by simp
  from Cons.IH [OF this all] process_refines [OF ops Cons.prems(1) pr] res show ?case by simp
qed

section \<open>One key among others\<close>

fun slot_run ::
    "u64 \<Rightarrow> reassembly_buffer option \<Rightarrow> udp_packet list \<Rightarrow> (u64 \<times> address \<times> bytes) option list" where
  "slot_run sid s [] = []"
| "slot_run sid s (p # ps) = fst (slot_step sid s p) # slot_run sid (snd (slot_step sid s p)) ps"

abbreviation of_key :: "cache_key \<Rightarrow> udp_packet \<Rightarrow> bool" where
  "of_key k p \<equiv> frag_key p = Some k"

lemma abs_process_other: "\<not> of_key k p \<Longrightarrow> snd (abs_process m p) k = m k"
  by (cases p) (auto simp: abs_process_def split: prod.splits)

lemma abs_process_same:
  "of_key k p \<Longrightarrow> fst (abs_process m p) = fst (slot_step (fst k) (m k) p) \<and>
     snd (abs_process m p) k = snd (slot_step (fst k) (m k) p)"
  by (cases p) (auto simp: abs_process_def split: prod.splits)

lemma abs_run_slot_run:
  "map snd (filter (\<lambda>(p, _). of_key k p) (zip ps (abs_run m ps))) =
     slot_run (fst k) (m k) (filter (of_key k) ps)"
  by (induction ps arbitrary: m) (auto simp: abs_process_other abs_process_same)

section \<open>Filling a buffer with the fragments of one packet\<close>

text \<open>The state of the slot when the fragments with indices in \<open>S\<close> have arrived.\<close>

definition filled :: "u64 \<Rightarrow> address \<Rightarrow> bytes list \<Rightarrow> nat set \<Rightarrow> reassembly_buffer option \<Rightarrow> bool" where
  "filled sid addr cs S s \<longleftrightarrow>
     (if S = {} then s = None
      else \<exists>b. s = Some b \<and> total_count b = word_of_nat (length cs) \<and>
             fragments b = map (\<lambda>i. if i \<in> S then Some (cs ! i) else None) [0..<length cs] \<and>
             received_count b = word_of_nat (card S) \<and>
             buf_address b = (if 0 \<in> S then Some addr else None) \<and> buf_session_id b = sid)"

lemma word_of_nat_u16_less: "i < 65536 \<Longrightarrow> unat (word_of_nat i :: u16) = i"
  by (rule unat_word_of_nat_u16)

definition filled_buffer :: "u64 \<Rightarrow> address \<Rightarrow> bytes list \<Rightarrow> nat set \<Rightarrow> reassembly_buffer" where
  "filled_buffer sid addr cs S =
     \<lparr>fragments = map (\<lambda>i. if i \<in> S then Some (cs ! i) else None) [0..<length cs],
      received_count = word_of_nat (card S), total_count = word_of_nat (length cs),
      buf_address = (if 0 \<in> S then Some addr else None), buf_session_id = sid\<rparr>"

lemma filled_alt:
  "filled sid addr cs S s \<longleftrightarrow> s = (if S = {} then None else Some (filled_buffer sid addr cs S))"
  by (auto simp: filled_def filled_buffer_def)

lemma count_guard:
  assumes "0 < n" and "n \<le> 256"
  shows "(word_of_nat n :: u16) \<noteq> 0" and "\<not> MAX_FRAGMENT_COUNT < word_of_nat n"
  using assms by (simp_all add: word_of_nat_u16_eq_0 MAX_FRAGMENT_COUNT_def word_less_nat_alt unat_word_of_nat_u16)

lemma add_fragment_accept:
  assumes "cnt \<noteq> 0" and "\<not> MAX_FRAGMENT_COUNT < cnt"
    and "total_count b \<noteq> 0 \<longrightarrow> total_count b = cnt"
    and "(if total_count b = 0 then b\<lparr>total_count := cnt, fragments := replicate (unat cnt) None\<rparr> else b) = b1"
    and "check_address b1 idx a = Some b2"
  shows "add_fragment b (Fragmented sid fid idx cnt a d) = store_fragment b2 idx d"
  using assms by (auto simp: Let_def)

lemma add_fragment_filled:
  assumes n: "n = length cs" "n \<le> 256" and i: "i < n" "i \<notin> S" and S: "S \<subseteq> {..<n}"
  shows "add_fragment (if S = {} then reassembly_buffer_new sid 0 None else filled_buffer sid addr cs S)
           (mk_fragment sid addr fid (word_of_nat n) i (cs ! i)) =
         (True, filled_buffer sid addr cs (insert i S))"
proof -
  let ?b = "if S = {} then reassembly_buffer_new sid 0 None else filled_buffer sid addr cs S"
  have pos: "0 < n" using i by simp
  note guard = count_guard [OF pos n(2)]
  have fin: "finite S" using S finite_subset by blast
  have idx: "(word_of_nat i :: u16) = 0 \<longleftrightarrow> i = 0" and ui: "unat (word_of_nat i :: u16) = i"
    using i n by (simp_all add: word_of_nat_u16_eq_0 unat_word_of_nat_u16)
  have un: "unat (word_of_nat n :: u16) = n" using n by (simp add: unat_word_of_nat_u16)
  let ?b1 = "?b\<lparr>total_count := word_of_nat n,
      fragments := map (\<lambda>i. if i \<in> S then Some (cs ! i) else None) [0..<n]\<rparr>"
  have rep: "S = {} \<Longrightarrow> replicate n None = map (\<lambda>i. if i \<in> S then Some (cs ! i) else None) [0..<n]"
    by (simp add: map_replicate_const)
  have b1: "(if total_count ?b = 0 then ?b\<lparr>total_count := word_of_nat n, fragments := replicate (unat (word_of_nat n :: u16)) None\<rparr> else ?b) = ?b1"
    using guard(1) n(1) un rep by (auto simp: reassembly_buffer_new_def filled_buffer_def)
  have chk: "check_address ?b1 (word_of_nat i) (if i = 0 then Some addr else None) =
      Some (?b1\<lparr>buf_address := (if 0 \<in> insert i S then Some addr else None)\<rparr>)"
    using i idx by (auto simp: check_address_def reassembly_buffer_new_def filled_buffer_def)
  have upd: "(map (\<lambda>j. if j \<in> S then Some (cs ! j) else None) [0..<n])[i := Some (cs ! i)] =
      map (\<lambda>j. if j \<in> insert i S then Some (cs ! j) else None) [0..<n]"
    using i by (intro nth_equalityI) (auto simp: nth_list_update)
  have total: "total_count ?b \<noteq> 0 \<longrightarrow> total_count ?b = word_of_nat n"
    using n by (auto simp: reassembly_buffer_new_def filled_buffer_def)
  have "add_fragment ?b (mk_fragment sid addr fid (word_of_nat n) i (cs ! i)) =
      store_fragment (?b1\<lparr>buf_address := (if 0 \<in> insert i S then Some addr else None)\<rparr>) (word_of_nat i) (cs ! i)"
    unfolding mk_fragment_def Let_def idx by (rule add_fragment_accept [OF guard total b1 chk])
  also have "\<dots> = (True, filled_buffer sid addr cs (insert i S))"
    using i n fin upd ui
    by (auto simp: store_fragment_def Let_def filled_buffer_def reassembly_buffer_new_def)
  finally show ?thesis .
qed

lemma is_complete_filled:
  assumes n: "n = length cs" "0 < n" "n \<le> 256" and S: "S \<subseteq> {..<n}"
  shows "is_complete (filled_buffer sid addr cs S) \<longleftrightarrow> S = {..<n}"
proof -
  have le: "card S \<le> n" using S card_mono [of "{..<n}" S] by simp
  have "(word_of_nat (card S) :: u16) = word_of_nat n \<longleftrightarrow> card S = n"
    using le n by (intro word_of_nat_u16_inj) auto
  moreover have "card S = n \<longleftrightarrow> S = {..<n}"
    using S card_subset_eq [of "{..<n}" S] by auto
  ultimately show ?thesis
    using n count_guard(1) [OF n(2,3)] by (auto simp: is_complete_def filled_buffer_def word_neq_0_conv)
qed

lemma assemble_filled:
  assumes n: "n = length cs" "0 < n" "n \<le> 256"
  shows "fst (assemble_and_take (filled_buffer sid addr cs {..<n})) = Some (sid, addr, concat cs)"
proof -
  have "map (\<lambda>i. if i \<in> {..<n} then Some (cs ! i) else None) [0..<n] = map Some cs"
    using n(1) by (intro nth_equalityI) auto
  then have "fragments (filled_buffer sid addr cs {..<n}) = map Some cs"
    using n(1) by (simp add: filled_buffer_def)
  moreover have "is_complete (filled_buffer sid addr cs {..<n})"
    using is_complete_filled [OF n] by simp
  moreover have "map (the \<circ> Some) cs = cs" by (simp add: comp_def)
  ultimately show ?thesis
    using n by (simp add: assemble_and_take_def take_fragments_all filled_buffer_def)
qed

lemma slot_step_filled:
  assumes n: "n = length cs" "n \<le> 256" and i: "i < n" "i \<notin> S" and S: "S \<subseteq> {..<n}"
    and s: "filled sid addr cs S s"
  shows "slot_step sid s (mk_fragment sid addr fid (word_of_nat n) i (cs ! i)) =
           (if insert i S = {..<n} then (Some (sid, addr, concat cs), None)
            else (None, Some (filled_buffer sid addr cs (insert i S))))"
proof -
  have pos: "0 < n" and S': "insert i S \<subseteq> {..<n}" using i S by auto
  have b: "unwrap_or s (reassembly_buffer_new sid 0 None) =
      (if S = {} then reassembly_buffer_new sid 0 None else filled_buffer sid addr cs S)"
    using s by (simp add: filled_alt)
  note add = add_fragment_filled [OF n i S, of sid addr fid]
  show ?thesis
    using add is_complete_filled [OF n(1) pos n(2) S', of sid addr] assemble_filled [OF n(1) pos n(2)]
    by (simp add: slot_step_def b)
qed

lemma slot_run_fill:
  assumes n: "n = length cs" "n \<le> 256"
  shows "filled sid addr cs S s \<Longrightarrow> S \<subseteq> {..<n} \<Longrightarrow> distinct is \<Longrightarrow> is \<noteq> [] \<Longrightarrow>
     set is = {..<n} - S \<Longrightarrow>
     slot_run sid s (map (\<lambda>i. mk_fragment sid addr fid (word_of_nat n) i (cs ! i)) is) =
       replicate (length is - 1) None @ [Some (sid, addr, concat cs)]"
proof (induction "is" arbitrary: S s)
  case Nil
  then show ?case by simp
next
  case (Cons i "is")
  then have i: "i < n" "i \<notin> S" by auto
  note step = slot_step_filled [OF n i Cons.prems(2,1)]
  have sub: "insert i S \<subseteq> {..<n}" using Cons.prems i by auto
  show ?case
  proof (cases "is = []")
    case True
    with Cons.prems have "insert i S = {..<n}" by auto
    with True step show ?thesis by simp
  next
    case False
    have rest: "set is = {..<n} - insert i S" using Cons.prems by auto
    with False have "insert i S \<noteq> {..<n}" by fastforce
    moreover have "filled sid addr cs (insert i S) (Some (filled_buffer sid addr cs (insert i S)))"
      by (simp add: filled_alt)
    moreover from False obtain m where "length is = Suc m" by (cases "is") auto
    ultimately show ?thesis
      using step Cons.IH [of "insert i S"] sub rest Cons.prems(3) False by simp
  qed
qed

lemma mset_eq_mapE:
  assumes "mset ys = mset (map f xs)"
  obtains xs' where "mset xs' = mset xs" and "ys = map f xs'"
proof -
  have "\<exists>xs'. mset xs' = mset xs \<and> ys = map f xs'"
    using assms
  proof (induction ys arbitrary: xs)
    case Nil
    then show ?case by (intro exI [of _ "[]"]) auto
  next
    case (Cons y ys)
    from Cons.prems have "y \<in> set (map f xs)" by (metis list.set_intros(1) mset_eq_setD)
    then obtain x where x: "x \<in> set xs" "y = f x" by auto
    then obtain as bs where xs: "xs = as @ x # bs" by (meson split_list)
    with Cons.prems x have "mset ys = mset (map f (as @ bs))" by simp
    with Cons.IH obtain zs where "mset zs = mset (as @ bs)" "ys = map f zs" by blast
    with x xs show ?case by (intro exI [of _ "x # zs"]) simp
  qed
  with that show thesis by blast
qed

lemma split_packet_map:
  assumes "split_packet sid addr data m fid = Some frags"
  shows "frags = map (\<lambda>i. mk_fragment sid addr fid (word_of_nat (length (chunks m data))) i (chunks m data ! i))
                   [0..<length frags]"
  using assms by (intro nth_equalityI) (simp_all add: split_packet_nth)

lemma split_packet_SomeD:
  assumes "split_packet sid addr data m fid = Some frags"
  shows "0 < m" and "data \<noteq> []"
  using assms by (auto simp: split_packet_def Let_def split: if_splits)



end
