(* ===== verification/Std_Text.thy ===== *)
theory Std_Text
  imports Ombrac_Prelude
begin

text \<open>
  The text handling of Rust's standard library that the sources use. A \<open>str\<close> is the list of its
  UTF-8 bytes. The theory has UTF-8 validation (\<open>str::from_utf8\<close>, \<open>String::from_utf8_lossy\<close>), decimal
  printing, \<open>u16::from_str\<close>, \<open>str::rsplit_once\<close>, and the parser of \<open>core::net\<close> behind
  \<open>str::parse::<SocketAddr>\<close>. A parser maps the input to its value and the remaining input, or to
  \<open>None\<close>, in which case nothing is consumed.
\<close>

definition ascii :: "string \<Rightarrow> bytes" where
  "ascii s = map of_char s"

text \<open>The bytes of a \<open>str\<close> as the characters of an error message.\<close>

definition text_of :: "bytes \<Rightarrow> string" where
  "text_of bs = map (\<lambda>b. char_of (unat b)) bs"

section \<open>UTF-8\<close>

definition utf8_cont :: "u8 \<Rightarrow> bool" where
  "utf8_cont b \<longleftrightarrow> 0x80 \<le> b \<and> b \<le> 0xBF"

text \<open>
  One step of \<open>Utf8Chunks\<close>: whether a well-formed character stands at the front and how many bytes
  it takes, or how many bytes the malformed sequence there takes.
\<close>

definition utf8_at :: "bytes \<Rightarrow> nat \<Rightarrow> u8" where
  "utf8_at bs i = (if i < length bs then bs ! i else 0)"

definition utf8_second :: "u8 \<Rightarrow> u8 \<Rightarrow> bool" where
  "utf8_second b0 b1 =
     (if b0 = 0xE0 then 0xA0 \<le> b1 \<and> b1 \<le> 0xBF
      else if b0 = 0xED then 0x80 \<le> b1 \<and> b1 \<le> 0x9F
      else if b0 = 0xF0 then 0x90 \<le> b1 \<and> b1 \<le> 0xBF
      else if b0 = 0xF4 then 0x80 \<le> b1 \<and> b1 \<le> 0x8F
      else utf8_cont b1)"

definition utf8_step :: "bytes \<Rightarrow> bool \<times> nat" where
  "utf8_step bs =
     (let b0 = utf8_at bs 0; b1 = utf8_at bs 1
      in if b0 < 0x80 then (True, 1)
         else if 0xC2 \<le> b0 \<and> b0 \<le> 0xDF then (if utf8_cont b1 then (True, 2) else (False, 1))
         else if 0xE0 \<le> b0 \<and> b0 \<le> 0xEF then
           (if \<not> utf8_second b0 b1 then (False, 1)
            else if utf8_cont (utf8_at bs 2) then (True, 3) else (False, 2))
         else if 0xF0 \<le> b0 \<and> b0 \<le> 0xF4 then
           (if \<not> utf8_second b0 b1 then (False, 1)
            else if \<not> utf8_cont (utf8_at bs 2) then (False, 2)
            else if utf8_cont (utf8_at bs 3) then (True, 4) else (False, 3))
         else (False, 1))"

lemma utf8_step_pos: "0 < snd (utf8_step bs)"
  by (simp add: utf8_step_def Let_def)

lemma utf8_step_less: "(ok, n) = utf8_step bs \<Longrightarrow> bs \<noteq> [] \<Longrightarrow> 0 < n"
  using utf8_step_pos [of bs] by (metis snd_conv)

function utf8_valid :: "bytes \<Rightarrow> bool" where
  "utf8_valid bs =
     (if bs = [] then True
      else let (ok, n) = utf8_step bs in ok \<and> utf8_valid (drop n bs))"
  by pat_completeness auto
termination
  by (relation "measure length") (auto simp: utf8_step_less)

text \<open>\<open>String::from_utf8_lossy\<close>: each malformed sequence becomes U+FFFD.\<close>

function from_utf8_lossy :: "bytes \<Rightarrow> bytes" where
  "from_utf8_lossy bs =
     (if bs = [] then []
      else let (ok, n) = utf8_step bs
           in (if ok then take n bs else [0xEF, 0xBF, 0xBD]) @ from_utf8_lossy (drop n bs))"
  by pat_completeness auto
termination
  by (relation "measure length") (auto simp: utf8_step_less)

declare utf8_valid.simps [simp del] from_utf8_lossy.simps [simp del]

lemma from_utf8_lossy_valid: "utf8_valid bs \<Longrightarrow> from_utf8_lossy bs = bs"
proof (induction bs rule: utf8_valid.induct)
  case (1 bs)
  show ?case
  proof (cases "bs = []")
    case True
    then show ?thesis by (simp add: from_utf8_lossy.simps)
  next
    case False
    obtain ok n where s: "utf8_step bs = (ok, n)" by fastforce
    with 1 False have "ok" "utf8_valid (drop n bs)" by (auto simp: utf8_valid.simps [of bs])
    with 1 False s show ?thesis by (simp add: from_utf8_lossy.simps [of bs])
  qed
qed

lemma utf8_valid_ascii: "\<forall>b \<in> set bs. b < 0x80 \<Longrightarrow> utf8_valid bs"
proof (induction bs)
  case Nil
  then show ?case by (simp add: utf8_valid.simps)
next
  case (Cons b bs)
  then show ?case by (subst utf8_valid.simps) (simp add: utf8_step_def utf8_at_def)
qed

section \<open>Numbers\<close>

text \<open>\<open>char::to_digit\<close> on a byte, for a radix of at most 16.\<close>

definition to_digit :: "nat \<Rightarrow> u8 \<Rightarrow> nat option" where
  "to_digit radix b =
     (let d = (if 0x30 \<le> b \<and> b \<le> 0x39 then Some (unat b - 0x30)
               else if 0x61 \<le> b \<and> b \<le> 0x66 then Some (unat b - 0x61 + 10)
               else if 0x41 \<le> b \<and> b \<le> 0x46 then Some (unat b - 0x41 + 10)
               else None)
      in case d of Some n \<Rightarrow> if n < radix then Some n else None | None \<Rightarrow> None)"

text \<open>The decimal digits of a number, as \<open>Display\<close> prints it.\<close>

definition digit_char :: "nat \<Rightarrow> u8" where
  "digit_char d = word_of_nat (0x30 + d)"

fun show_nat :: "nat \<Rightarrow> bytes" where
  "show_nat n = (if n < 10 then [digit_char n] else show_nat (n div 10) @ [digit_char (n mod 10)])"

declare show_nat.simps [simp del]

text \<open>\<open>u16::from_str\<close>: a single leading plus sign is accepted, an empty number and overflow are not.\<close>

fun parse_digits :: "nat \<Rightarrow> nat \<Rightarrow> bytes \<Rightarrow> nat option" where
  "parse_digits limit acc [] = Some acc"
| "parse_digits limit acc (b # bs) =
     (case to_digit 10 b of
        None \<Rightarrow> None
      | Some d \<Rightarrow> if limit \<le> acc * 10 + d then None else parse_digits limit (acc * 10 + d) bs)"

definition parse_u16 :: "bytes \<Rightarrow> u16 option" where
  "parse_u16 bs =
     (let digits = (case bs of [] \<Rightarrow> [] | b # rest \<Rightarrow> if b = 0x2B then rest else bs)
      in if digits = [] then None
         else map_option word_of_nat (parse_digits 65536 0 digits))"

text \<open>\<open>str::rsplit_once\<close> on a one-byte pattern: the parts around its last occurrence.\<close>

fun rsplit_once :: "u8 \<Rightarrow> bytes \<Rightarrow> (bytes \<times> bytes) option" where
  "rsplit_once c [] = None"
| "rsplit_once c (b # bs) =
     (case rsplit_once c bs of
        Some (before, after) \<Rightarrow> Some (b # before, after)
      | None \<Rightarrow> if b = c then Some ([], bs) else None)"

section \<open>The parser of \<open>core::net\<close>\<close>

type_synonym 'a parser = "bytes \<Rightarrow> ('a \<times> bytes) option"

definition read_given_char :: "u8 \<Rightarrow> unit parser" where
  "read_given_char c inp = (case inp of b # rest \<Rightarrow> if b = c then Some ((), rest) else None | [] \<Rightarrow> None)"

definition read_separator :: "u8 \<Rightarrow> nat \<Rightarrow> 'a parser \<Rightarrow> 'a parser" where
  "read_separator sep index inner inp =
     (if 0 < index
      then (case read_given_char sep inp of None \<Rightarrow> None | Some (_, rest) \<Rightarrow> inner rest)
      else inner inp)"

text \<open>\<open>read_number\<close> with a maximal number of digits, and with overflow checks instead.\<close>

fun read_digits :: "nat \<Rightarrow> nat \<Rightarrow> nat \<Rightarrow> nat \<Rightarrow> (nat \<times> nat) parser" where
  "read_digits radix max_digits result digit_count [] = Some ((result, digit_count), [])"
| "read_digits radix max_digits result digit_count (b # inp) =
     (case to_digit radix b of
        None \<Rightarrow> Some ((result, digit_count), b # inp)
      | Some d \<Rightarrow>
          if max_digits < Suc digit_count then None
          else read_digits radix max_digits (result * radix + d) (Suc digit_count) inp)"

fun read_digits_checked :: "nat \<Rightarrow> nat \<Rightarrow> nat \<Rightarrow> nat \<Rightarrow> (nat \<times> nat) parser" where
  "read_digits_checked radix limit result digit_count [] = Some ((result, digit_count), [])"
| "read_digits_checked radix limit result digit_count (b # inp) =
     (case to_digit radix b of
        None \<Rightarrow> Some ((result, digit_count), b # inp)
      | Some d \<Rightarrow>
          if limit \<le> result * radix + d then None
          else read_digits_checked radix limit (result * radix + d) (Suc digit_count) inp)"

definition read_number :: "nat \<Rightarrow> nat option \<Rightarrow> bool \<Rightarrow> nat \<Rightarrow> nat parser" where
  "read_number radix max_digits allow_zero_prefix limit inp =
     (let leading_zero = (inp \<noteq> [] \<and> hd inp = 0x30)
      in case (case max_digits of
                 Some m \<Rightarrow> read_digits radix m 0 0 inp
               | None \<Rightarrow> read_digits_checked radix limit 0 0 inp) of
           None \<Rightarrow> None
         | Some ((result, digit_count), rest) \<Rightarrow>
             if digit_count = 0 then None
             else if \<not> allow_zero_prefix \<and> leading_zero \<and> 1 < digit_count then None
             else if limit \<le> result then None else Some (result, rest))"

definition read_octet :: "nat \<Rightarrow> u8 parser" where
  "read_octet i inp =
     map_option (map_prod word_of_nat id) (read_separator 0x2E i (read_number 10 (Some 3) False 256) inp)"

definition read_ipv4_addr :: "ipv4_addr parser" where
  "read_ipv4_addr inp =
     (case read_octet 0 inp of None \<Rightarrow> None | Some (a, r1) \<Rightarrow>
     (case read_octet 1 r1 of None \<Rightarrow> None | Some (b, r2) \<Rightarrow>
     (case read_octet 2 r2 of None \<Rightarrow> None | Some (c, r3) \<Rightarrow>
     (case read_octet 3 r3 of None \<Rightarrow> None | Some (d, r4) \<Rightarrow> Some (Ipv4 a b c d, r4)))))"

text \<open>
  \<open>read_groups\<close> of \<open>read_ipv6_addr\<close>: the groups read (up to \<open>limit\<close>), and whether an embedded IPv4
  address ended them. It consumes what it read and does not fail.
\<close>

fun v4_groups :: "ipv4_addr \<Rightarrow> u16 list" where
  "v4_groups (Ipv4 a b c d) = [from_be16 a b, from_be16 c d]"

fun read_groups :: "nat \<Rightarrow> nat \<Rightarrow> bytes \<Rightarrow> u16 list \<times> bool \<times> bytes" where
  "read_groups 0 i inp = ([], False, inp)"
| "read_groups (Suc left) i inp =
     (case (if 0 < left then read_separator 0x3A i read_ipv4_addr inp else None) of
        Some (v4, rest) \<Rightarrow> (v4_groups v4, True, rest)
      | None \<Rightarrow>
          (case read_separator 0x3A i (read_number 16 (Some 4) True 65536) inp of
             None \<Rightarrow> ([], False, inp)
           | Some (g, rest) \<Rightarrow>
               (let (gs, v4, rest') = read_groups left (Suc i) rest in (word_of_nat g # gs, v4, rest'))))"

definition v6_from_groups :: "u16 list \<Rightarrow> ipv6_addr" where
  "v6_from_groups gs = Ipv6 (gs ! 0) (gs ! 1) (gs ! 2) (gs ! 3) (gs ! 4) (gs ! 5) (gs ! 6) (gs ! 7)"

definition read_ipv6_addr :: "ipv6_addr parser" where
  "read_ipv6_addr inp =
     (let (head, head_ipv4, rest) = read_groups 8 0 inp
      in if length head = 8 then Some (v6_from_groups head, rest)
         else if head_ipv4 then None
         else (case read_given_char 0x3A rest of None \<Rightarrow> None | Some (_, r1) \<Rightarrow>
              (case read_given_char 0x3A r1 of None \<Rightarrow> None | Some (_, r2) \<Rightarrow>
                 (let (tail, _, r3) = read_groups (8 - (length head + 1)) 0 r2
                  in Some (v6_from_groups (head @ replicate (8 - length head - length tail) 0 @ tail), r3)))))"

definition read_port :: "u16 parser" where
  "read_port inp =
     (case read_given_char 0x3A inp of None \<Rightarrow> None | Some (_, r) \<Rightarrow>
        map_option (map_prod word_of_nat id) (read_number 10 None True 65536 r))"

definition read_scope_id :: "u32 parser" where
  "read_scope_id inp =
     (case read_given_char 0x25 inp of None \<Rightarrow> None | Some (_, r) \<Rightarrow>
        map_option (map_prod word_of_nat id) (read_number 10 None True (2 ^ 32) r))"

definition read_socket_addr_v4 :: "socket_addr_v4 parser" where
  "read_socket_addr_v4 inp =
     (case read_ipv4_addr inp of None \<Rightarrow> None | Some (ip, r1) \<Rightarrow>
     (case read_port r1 of None \<Rightarrow> None | Some (port, r2) \<Rightarrow>
        Some (\<lparr>v4_ip = ip, v4_port = port\<rparr>, r2)))"

definition read_socket_addr_v6 :: "socket_addr_v6 parser" where
  "read_socket_addr_v6 inp =
     (case read_given_char 0x5B inp of None \<Rightarrow> None | Some (_, r1) \<Rightarrow>
     (case read_ipv6_addr r1 of None \<Rightarrow> None | Some (ip, r2) \<Rightarrow>
       (let (scope, r3) = (case read_scope_id r2 of None \<Rightarrow> (0, r2) | Some p \<Rightarrow> p)
        in case read_given_char 0x5D r3 of None \<Rightarrow> None | Some (_, r4) \<Rightarrow>
          (case read_port r4 of None \<Rightarrow> None | Some (port, r5) \<Rightarrow>
             Some (\<lparr>v6_ip = ip, v6_port = port, v6_flowinfo = 0, v6_scope_id = scope\<rparr>, r5)))))"

text \<open>\<open>str::parse::<SocketAddr>()\<close>: the whole input must be consumed.\<close>

definition parse_socket_addr :: "bytes \<Rightarrow> socket_addr option" where
  "parse_socket_addr inp =
     (case (case read_socket_addr_v4 inp of
              Some (a, r) \<Rightarrow> Some (SAV4 a, r)
            | None \<Rightarrow> map_option (map_prod SAV6 id) (read_socket_addr_v6 inp)) of
        Some (a, []) \<Rightarrow> Some a
      | _ \<Rightarrow> None)"

text \<open>\<open>str::parse::<IpAddr>()\<close>\<close>

definition parse_ip_addr :: "bytes \<Rightarrow> ip_addr option" where
  "parse_ip_addr inp =
     (case (case read_ipv4_addr inp of
              Some (a, r) \<Rightarrow> Some (IpV4 a, r)
            | None \<Rightarrow> map_option (map_prod IpV6 id) (read_ipv6_addr inp)) of
        Some (a, []) \<Rightarrow> Some a
      | _ \<Rightarrow> None)"

text \<open>\<open>Display\<close> of IPv4 socket addresses.\<close>

fun show_ipv4 :: "ipv4_addr \<Rightarrow> bytes" where
  "show_ipv4 (Ipv4 a b c d) =
     show_nat (unat a) @ [0x2E] @ show_nat (unat b) @ [0x2E] @ show_nat (unat c) @ [0x2E] @ show_nat (unat d)"

definition show_socket_addr_v4 :: "socket_addr_v4 \<Rightarrow> bytes" where
  "show_socket_addr_v4 a = show_ipv4 (v4_ip a) @ [0x3A] @ show_nat (unat (v4_port a))"

text \<open>
  \<open>Display\<close> of IPv6 addresses: an IPv4-mapped address in dotted form, otherwise lower-case hexadecimal
  groups in which the first longest run of at least two zero groups is written \<open>::\<close>.
\<close>

definition hex_char :: "nat \<Rightarrow> u8" where
  "hex_char d = (if d < 10 then word_of_nat (0x30 + d) else word_of_nat (0x61 + (d - 10)))"

fun show_hex :: "nat \<Rightarrow> bytes" where
  "show_hex n = (if n < 16 then [hex_char n] else show_hex (n div 16) @ [hex_char (n mod 16)])"

declare show_hex.simps [simp del]

fun show_groups :: "u16 list \<Rightarrow> bytes" where
  "show_groups [] = []"
| "show_groups [g] = show_hex (unat g)"
| "show_groups (g # gs) = show_hex (unat g) @ [0x3A] @ show_groups gs"

fun zero_span :: "nat \<Rightarrow> nat \<times> nat \<Rightarrow> nat \<times> nat \<Rightarrow> u16 list \<Rightarrow> nat \<times> nat" where
  "zero_span i longest current [] = longest"
| "zero_span i longest current (g # gs) =
     (if g = 0 then
        (let current' = (if snd current = 0 then i else fst current, Suc (snd current))
         in zero_span (Suc i) (if snd longest < snd current' then current' else longest) current' gs)
      else zero_span (Suc i) longest (0, 0) gs)"

fun show_ipv6 :: "ipv6_addr \<Rightarrow> bytes" where
  "show_ipv6 (Ipv6 a b c d e f g h) =
     (if [a, b, c, d, e, f] = [0, 0, 0, 0, 0, 0xFFFF]
      then [0x3A, 0x3A] @ show_hex 0xFFFF @ [0x3A] @ show_ipv4 (v4_from_octets (to_be16 g @ to_be16 h))
      else
        let gs = [a, b, c, d, e, f, g, h]; (start, len) = zero_span 0 (0, 0) (0, 0) gs
        in if 1 < len then show_groups (take start gs) @ [0x3A, 0x3A] @ show_groups (drop (start + len) gs)
           else show_groups gs)"

definition show_socket_addr_v6 :: "socket_addr_v6 \<Rightarrow> bytes" where
  "show_socket_addr_v6 a =
     [0x5B] @ show_ipv6 (v6_ip a) @
     (if v6_scope_id a = 0 then [] else [0x25] @ show_nat (unat (v6_scope_id a))) @
     [0x5D, 0x3A] @ show_nat (unat (v6_port a))"

section \<open>Printing and parsing numbers\<close>

lemma unat_digit_char: "d < 10 \<Longrightarrow> unat (digit_char d) = 0x30 + d"
  unfolding digit_char_def by (subst unat_of_nat) simp

lemma to_digit_digit_char [simp]: "d < 10 \<Longrightarrow> to_digit 10 (digit_char d) = Some d"
  by (simp add: to_digit_def word_le_nat_alt unat_digit_char Let_def)

lemma show_nat_nonempty [simp]: "show_nat n \<noteq> []"
  by (subst show_nat.simps) simp

lemma set_show_nat: "b \<in> set (show_nat n) \<Longrightarrow> \<exists>d < 10. b = digit_char d"
proof (induction n rule: show_nat.induct)
  case (1 n)
  then show ?case by (cases "n < 10") (auto simp: show_nat.simps [of n] intro: exI [of _ "n mod 10"])
qed

lemma show_nat_no_char:
  assumes "to_digit 10 c = None"
  shows "c \<notin> set (show_nat n)"
  using assms set_show_nat [of c n] by auto

lemma parse_digits_show: "n < limit \<Longrightarrow> parse_digits limit 0 (show_nat n @ rest) = parse_digits limit n rest"
proof (induction n arbitrary: rest rule: show_nat.induct)
  case (1 n)
  then show ?case by (cases "n < 10") (simp_all add: show_nat.simps [of n])
qed

lemma read_digits_checked_show:
  "n < limit \<Longrightarrow> read_digits_checked 10 limit 0 0 (show_nat n @ rest) =
     read_digits_checked 10 limit n (length (show_nat n)) rest"
proof (induction n arbitrary: rest rule: show_nat.induct)
  case (1 n)
  then show ?case by (cases "n < 10") (simp_all add: show_nat.simps [of n])
qed

lemma read_digits_show:
  "length (show_nat n) \<le> m \<Longrightarrow> read_digits 10 m 0 0 (show_nat n @ rest) =
     read_digits 10 m n (length (show_nat n)) rest"
proof (induction n arbitrary: rest rule: show_nat.induct)
  case (1 n)
  then show ?case by (cases "n < 10") (simp_all add: show_nat.simps [of n])
qed

lemma length_show_nat: "n < 10 ^ m \<Longrightarrow> 0 < m \<Longrightarrow> length (show_nat n) \<le> m"
proof (induction m arbitrary: n)
  case 0
  then show ?case by simp
next
  case (Suc m)
  show ?case
  proof (cases "n < 10")
    case True
    then show ?thesis by (simp add: show_nat.simps [of n])
  next
    case False
    with Suc.prems have "0 < m" by (cases m) auto
    moreover have "n div 10 < 10 ^ m" using Suc.prems by (simp add: less_mult_imp_div_less mult.commute)
    ultimately show ?thesis using Suc.IH [of "n div 10"] False by (simp add: show_nat.simps [of n])
  qed
qed

lemma show_nat_leading_zero: "hd (show_nat n) = 0x30 \<Longrightarrow> n = 0"
proof (induction n rule: show_nat.induct)
  case (1 n)
  show ?case
  proof (cases "n < 10")
    case True
    with 1 have "unat (digit_char n) = 0x30" by (simp add: show_nat.simps [of n])
    with True show ?thesis by (simp add: unat_digit_char)
  next
    case False
    with 1 have "n div 10 = 0" by (simp add: show_nat.simps [of n])
    with False show ?thesis by simp
  qed
qed

lemma read_digits_stop:
  "rest = [] \<or> to_digit 10 (hd rest) = None \<Longrightarrow> read_digits 10 m n k rest = Some ((n, k), rest)"
  "rest = [] \<or> to_digit 10 (hd rest) = None \<Longrightarrow> read_digits_checked 10 l n k rest = Some ((n, k), rest)"
  by (cases rest; simp)+

lemma show_nat_zero_length: "hd (show_nat n) = 0x30 \<Longrightarrow> length (show_nat n) = 1"
  using show_nat_leading_zero [of n] by (simp add: show_nat.simps)

lemma read_number_show_max:
  assumes "n < limit" and "n < 10 ^ m" and "0 < m" and "rest = [] \<or> to_digit 10 (hd rest) = None"
  shows "read_number 10 (Some m) z limit (show_nat n @ rest) = Some (n, rest)"
  using assms show_nat_zero_length [of n]
  by (simp add: read_number_def Let_def read_digits_show length_show_nat read_digits_stop)

lemma read_number_show:
  assumes "n < limit" and "rest = [] \<or> to_digit 10 (hd rest) = None"
  shows "read_number 10 None True limit (show_nat n @ rest) = Some (n, rest)"
  using assms by (simp add: read_number_def read_digits_checked_show read_digits_stop)

lemma to_digit_separators [simp]: "to_digit 10 0x2E = None" "to_digit 10 0x3A = None" "to_digit 10 0x2B = None"
  by (simp_all add: to_digit_def)

lemma unat_u8_less: "unat (w :: u8) < 256"
  using unsigned_less [of w, where ?'a = nat] by simp

lemma unat_u16_less: "unat (w :: u16) < 65536"
  using unsigned_less [of w, where ?'a = nat] by simp

lemma read_octet_show_0:
  "rest = [] \<or> to_digit 10 (hd rest) = None \<Longrightarrow> read_octet 0 (show_nat (unat a) @ rest) = Some (a, rest)"
  using unat_u8_less [of a] by (simp add: read_octet_def read_separator_def read_number_show_max)

lemma read_octet_show:
  "rest = [] \<or> to_digit 10 (hd rest) = None \<Longrightarrow> 0 < i \<Longrightarrow>
     read_octet i (0x2E # show_nat (unat a) @ rest) = Some (a, rest)"
  using unat_u8_less [of a]
  by (simp add: read_octet_def read_separator_def read_given_char_def read_number_show_max)

lemma read_ipv4_show:
  "rest = [] \<or> to_digit 10 (hd rest) = None \<Longrightarrow> read_ipv4_addr (show_ipv4 ip @ rest) = Some (ip, rest)"
  by (cases ip) (simp add: read_ipv4_addr_def read_octet_show_0 read_octet_show)

lemma read_port_show: "read_port (0x3A # show_nat (unat p)) = Some (p, [])"
  using read_number_show [of "unat p" 65536 "[]"] unat_u16_less [of p]
  by (simp add: read_port_def read_given_char_def)

lemma parse_show_socket_addr_v4: "parse_socket_addr (show_socket_addr_v4 a) = Some (SAV4 a)"
  by (simp add: parse_socket_addr_def read_socket_addr_v4_def show_socket_addr_v4_def
      read_ipv4_show read_port_show)

lemma parse_u16_show: "parse_u16 (show_nat (unat p)) = Some p"
proof -
  obtain b bs where s: "show_nat (unat p) = b # bs" by (cases "show_nat (unat p)") auto
  with show_nat_no_char [of "0x2B" "unat p"] have "b \<noteq> 0x2B" by auto
  moreover have "parse_digits 65536 0 (show_nat (unat p)) = Some (unat p)"
    using parse_digits_show [of "unat p" 65536 "[]"] unat_u16_less [of p] by simp
  ultimately show ?thesis by (simp add: parse_u16_def Let_def s)
qed

lemma rsplit_once_None: "rsplit_once c bs = None \<longleftrightarrow> c \<notin> set bs"
  by (induction bs) (auto split: option.splits)

lemma rsplit_once_Some:
  "c \<notin> set after \<Longrightarrow> rsplit_once c (before @ c # after) = Some (before, after)"
  by (induction before) (simp_all add: rsplit_once_None [THEN iffD2])

lemma rsplit_once_SomeD:
  "rsplit_once c bs = Some (before, after) \<Longrightarrow> bs = before @ c # after \<and> c \<notin> set after"
proof (induction bs arbitrary: before)
  case (Cons b bs)
  then show ?case
    by (cases "rsplit_once c bs") (auto simp: rsplit_once_None split: if_splits)
qed simp

end
