(* ===== verification/Address.thy ===== *)
theory Address
  imports Protocol Std_Text
begin

text \<open>
  The conversions of \<open>Address\<close> in \<open>crates/ombrac/src/protocol.rs\<close>: parsing an address from text,
  printing it, building it from a host and a port, and resolving it. The system resolver
  (\<open>tokio::net::lookup_host\<close>) is an argument that gives the result of one lookup.
\<close>

section \<open>Operations\<close>

text \<open>\<open>impl TryFrom<&str> for Address\<close>; \<open>TryFrom<String>\<close> delegates to it.\<close>

definition address_try_from :: "bytes \<Rightarrow> address io_result" where
  "address_try_from value =
     (case parse_socket_addr value of
        Some addr \<Rightarrow> Inr (address_from_socket_addr addr)
      | None \<Rightarrow>
          (let invalid = Inl (io_err KInvalidInput (''invalid address format: '' @ text_of value))
           in case rsplit_once 0x3A value of
                None \<Rightarrow> invalid
              | Some (domain, port_str) \<Rightarrow>
                  (case parse_u16 port_str of
                     None \<Rightarrow> invalid
                   | Some port \<Rightarrow>
                       if domain = [] then Inl (io_err KInvalidInput ''domain name cannot be empty'')
                       else if MAX_DOMAIN_LENGTH < length domain
                       then Inl (io_err KInvalidInput
                              (''domain name is too long: '' @ text_of (show_nat (length domain)) @
                               '' bytes (max '' @ text_of (show_nat MAX_DOMAIN_LENGTH) @ '')''))
                       else Inr (Domain domain port))))"

text \<open>\<open>impl From<(String, u16)>\<close> and \<open>From<(&str, u16)>\<close>\<close>

definition address_from_host_port :: "bytes \<times> u16 \<Rightarrow> address" where
  "address_from_host_port value = Domain (fst value) (snd value)"

text \<open>\<open>impl Display for Address\<close>\<close>

fun address_display :: "address \<Rightarrow> bytes" where
  "address_display (Domain domain port) = from_utf8_lossy domain @ [0x3A] @ show_nat (unat port)"
| "address_display (SocketV4 addr) = show_socket_addr_v4 addr"
| "address_display (SocketV6 addr) = show_socket_addr_v6 addr"

text \<open>\<open>Address::to_socket_addr\<close>\<close>

fun to_socket_addr :: "(bytes \<Rightarrow> u16 \<Rightarrow> socket_addr list io_result) \<Rightarrow> address \<Rightarrow> socket_addr io_result" where
  "to_socket_addr lookup_host (SocketV4 addr) = Inr (SAV4 addr)"
| "to_socket_addr lookup_host (SocketV6 addr) = Inr (SAV6 addr)"
| "to_socket_addr lookup_host (Domain domain port) =
     (if \<not> utf8_valid domain
      then Inl (io_err KInvalidInput ''domain name contains invalid utf-8 characters'')
      else case lookup_host domain port of
             Inl e \<Rightarrow> Inl e
           | Inr (a # _) \<Rightarrow> Inr a
           | Inr [] \<Rightarrow>
               Inl (io_err KNotFound (''domain name '' @ [CHR 0x27] @ text_of domain @ [CHR 0x27] @ '' could not be resolved'')))"

section \<open>Properties\<close>

lemma address_try_from_Domain:
  assumes "parse_socket_addr value = None" and "rsplit_once 0x3A value = Some (d, ds)"
    and "parse_u16 ds = Some p" and "d \<noteq> []" and "length d \<le> 255"
  shows "address_try_from value = Inr (Domain d p)"
  using assms by (simp add: address_try_from_def Let_def MAX_DOMAIN_LENGTH_def)

lemma rsplit_once_display: "rsplit_once 0x3A (d @ [0x3A] @ show_nat n) = Some (d, show_nat n)"
  using rsplit_once_Some [of "0x3A" "show_nat n" d] show_nat_no_char [of "0x3A" n] by simp



text \<open>
  What \<open>Address::try_from\<close> accepts as a domain: a name of 1 to 255 bytes before the last colon of the
  text, with the decimal port after it; everything else that is accepted is what the standard
  library parses as a socket address. A rejection is always \<open>InvalidInput\<close>.
\<close>

theorem address_try_from_sound:
  "case address_try_from value of
     Inl e \<Rightarrow> err_kind e = KInvalidInput \<and> parse_socket_addr value = None
   | Inr (Domain d p) \<Rightarrow>
       d \<noteq> [] \<and> length d \<le> 255 \<and> parse_socket_addr value = None \<and>
       (\<exists>ds. value = d @ 0x3A # ds \<and> 0x3A \<notin> set ds \<and> parse_u16 ds = Some p)
   | Inr a \<Rightarrow> map_option address_from_socket_addr (parse_socket_addr value) = Some a"
proof (cases "parse_socket_addr value")
  case (Some sa)
  then show ?thesis by (cases sa) (auto simp: address_try_from_def)
next
  case None
  then show ?thesis
    by (auto simp: address_try_from_def Let_def MAX_DOMAIN_LENGTH_def
        split: option.split dest: rsplit_once_SomeD)
qed

text \<open>
  Resolving an address: an IP address resolves to itself without any lookup, and a domain
  resolves to the first address the resolver returns; a name that is not UTF-8 is
  \<open>InvalidInput\<close>, an empty answer \<open>NotFound\<close>, and a resolver error is passed on.
\<close>

theorem to_socket_addr_spec:
  "to_socket_addr look (address_from_socket_addr sa) = Inr sa \<and>
   (to_socket_addr look (Domain d p) = Inr r \<longleftrightarrow> utf8_valid d \<and> (\<exists>rs. look d p = Inr (r # rs))) \<and>
   (\<forall>e. to_socket_addr look (Domain d p) = Inl e \<longrightarrow>
      (if \<not> utf8_valid d then err_kind e = KInvalidInput
       else look d p = Inl e \<or> look d p = Inr [] \<and> err_kind e = KNotFound))"
  by (cases sa) (auto split: sum.splits list.splits)

theorem to_socket_addr_spec_witness:
  "to_socket_addr (\<lambda>_ p. Inr [SAV4 \<lparr>v4_ip = Ipv4 1 2 3 4, v4_port = p\<rparr>]) (Domain [97] 80) =
     Inr (SAV4 \<lparr>v4_ip = Ipv4 1 2 3 4, v4_port = 80\<rparr>)"
proof -
  have "utf8_valid [97]" by code_simp
  then show ?thesis
    using to_socket_addr_spec [of "\<lambda>_ p. Inr [SAV4 \<lparr>v4_ip = Ipv4 1 2 3 4, v4_port = p\<rparr>]"
        "SAV4 \<lparr>v4_ip = Ipv4 1 2 3 4, v4_port = 80\<rparr>" "[97]" 80
        "SAV4 \<lparr>v4_ip = Ipv4 1 2 3 4, v4_port = 80\<rparr>"] by simp
qed

end
