(* ===== verification/Tcp_Io.thy ===== *)
theory Tcp_Io
  imports Ombrac_Prelude
begin

text \<open>
  Byte streams as the handlers of the sources use them through \<open>tokio::io\<close>. A \<open>tcp_stream\<close> holds the
  bytes the peer will have sent before its side ends and the error that reading past them gives (the
  end-of-file error of \<open>read_exact\<close>, or a reset), the bytes written so far, and how many more
  bytes can be written before writing fails. An operation maps the stream to its result and the
  new stream, and \<open>io_bind\<close> is the \<open>?\<close> of the sources.

  The theory also holds the interface of wire codecs: what a decoder of a prefix promises, and what
  follows for a sequence of messages in one buffer.
\<close>

section \<open>Streams\<close>

record tcp_stream =
  in_bytes :: bytes
  in_end :: io_error
  out_bytes :: bytes
  out_room :: "nat option"
  out_err :: io_error

type_synonym 'a tcp_io = "tcp_stream \<Rightarrow> 'a io_result \<times> tcp_stream"

definition io_return :: "'a \<Rightarrow> 'a tcp_io" where
  "io_return x s = (Inr x, s)"

definition io_fail :: "io_error \<Rightarrow> 'a tcp_io" where
  "io_fail e s = (Inl e, s)"

definition io_bind :: "'a tcp_io \<Rightarrow> ('a \<Rightarrow> 'b tcp_io) \<Rightarrow> 'b tcp_io" where
  "io_bind m f s = (case m s of (Inl e, s') \<Rightarrow> (Inl e, s') | (Inr x, s') \<Rightarrow> f x s')"

text \<open>\<open>AsyncReadExt::read_exact\<close>: either exactly \<open>n\<close> bytes, or everything is consumed and the end of the
  stream is reported.\<close>

definition read_exact :: "nat \<Rightarrow> bytes tcp_io" where
  "read_exact n s =
     (if n \<le> length (in_bytes s)
      then (Inr (take n (in_bytes s)), s\<lparr>in_bytes := drop n (in_bytes s)\<rparr>)
      else (Inl (in_end s), s\<lparr>in_bytes := []\<rparr>))"

definition read_u8 :: "u8 tcp_io" where
  "read_u8 = io_bind (read_exact 1) (\<lambda>bs. io_return (hd bs))"

text \<open>\<open>AsyncWriteExt::write_all\<close>: on failure a prefix may have been written.\<close>

definition write_all :: "bytes \<Rightarrow> unit tcp_io" where
  "write_all bs s =
     (case out_room s of
        None \<Rightarrow> (Inr (), s\<lparr>out_bytes := out_bytes s @ bs\<rparr>)
      | Some n \<Rightarrow>
          if length bs \<le> n
          then (Inr (), s\<lparr>out_bytes := out_bytes s @ bs, out_room := Some (n - length bs)\<rparr>)
          else (Inl (out_err s), s\<lparr>out_bytes := out_bytes s @ take n bs, out_room := Some 0\<rparr>))"

lemmas io_simps = io_return_def io_fail_def io_bind_def

lemma read_exact_ok:
  "in_bytes s = xs @ rest \<Longrightarrow> length xs = n \<Longrightarrow> read_exact n s = (Inr xs, s\<lparr>in_bytes := rest\<rparr>)"
  by (simp add: read_exact_def)

lemma read_u8_ok: "in_bytes s = b # rest \<Longrightarrow> read_u8 s = (Inr b, s\<lparr>in_bytes := rest\<rparr>)"
  by (simp add: read_u8_def io_simps read_exact_def)

lemma read_u8_eof: "in_bytes s = [] \<Longrightarrow> read_u8 s = (Inl (in_end s), s)"
  by (simp add: read_u8_def io_simps read_exact_def)

lemma write_all_out:
  assumes "write_all bs s = (r, s')"
  shows "\<exists>n. out_bytes s' = out_bytes s @ take n bs \<and> (r = Inr () \<longrightarrow> length bs \<le> n) \<and>
           in_bytes s' = in_bytes s \<and> in_end s' = in_end s"
  using assms
  by (cases "out_room s") (auto simp: write_all_def split: if_splits intro: exI [of _ "length bs"])

lemma write_all_unlimited:
  "out_room s = None \<Longrightarrow> write_all bs s = (Inr (), s\<lparr>out_bytes := out_bytes s @ bs\<rparr>)"
  by (simp add: write_all_def)

section \<open>Wire codecs\<close>

text \<open>
  A prefix codec: decoding reads exactly one encoded value from the front of the input and leaves
  the rest, and succeeds on nothing else. \<open>ok\<close> are the values that can be sent.
\<close>

locale prefix_codec =
  fixes enc :: "'a \<Rightarrow> bytes" and dec :: "bytes \<Rightarrow> ('a \<times> bytes) option" and ok :: "'a \<Rightarrow> bool"
  assumes dec_enc: "ok x \<Longrightarrow> dec (enc x @ rest) = Some (x, rest)"
    and dec_sound: "dec inp = Some (x, rest) \<Longrightarrow> ok x \<and> inp = enc x @ rest"
    and enc_nonempty: "enc x \<noteq> []"
begin

lemma dec_iff: "dec inp = Some (x, rest) \<longleftrightarrow> ok x \<and> inp = enc x @ rest"
  using dec_enc dec_sound by blast

lemma enc_prefix_free: "ok x \<Longrightarrow> ok y \<Longrightarrow> enc x @ r = enc y @ s \<longleftrightarrow> x = y \<and> r = s"
  using dec_enc by (metis option.inject prod.inject)

lemma enc_inj: "ok x \<Longrightarrow> ok y \<Longrightarrow> enc x = enc y \<longleftrightarrow> x = y"
  using enc_prefix_free [of x y "[]" "[]"] by simp

text \<open>A sequence of messages is split in one way only.\<close>

lemma enc_list_inj:
  "\<forall>x \<in> set xs. ok x \<Longrightarrow> \<forall>y \<in> set ys. ok y \<Longrightarrow>
     concat (map enc xs) = concat (map enc ys) \<longleftrightarrow> xs = ys"
proof (induction xs arbitrary: ys)
  case Nil
  then show ?case by (cases ys) (auto simp: enc_nonempty)
next
  case (Cons x xs)
  then show ?case by (cases ys) (auto simp: enc_nonempty enc_prefix_free)
qed

end

end
