(* ===== verification/Socks_Protocol.thy ===== *)
theory Socks_Protocol
  imports Address Tcp_Io
begin

text \<open>
  The SOCKS5 wire protocol of the client endpoint: \<open>crates/ombrac-client/src/endpoint/socks/protocol.rs\<close>.
  Addresses are read in two ways, from an asynchronous stream (\<open>Address::read\<close>) and from a buffer
  (\<open>Address::from_buf\<close>); both are shown to be the inverse of \<open>Address::encode\<close>.
\<close>

section \<open>Addresses\<close>

definition SOCKS_VERSION :: u8 where "SOCKS_VERSION = 5"
definition ATYP_IPV4 :: u8 where "ATYP_IPV4 = 1"
definition ATYP_DOMAIN :: u8 where "ATYP_DOMAIN = 3"
definition ATYP_IPV6 :: u8 where "ATYP_IPV6 = 4"
definition CMD_CONNECT :: u8 where "CMD_CONNECT = 1"
definition CMD_BIND :: u8 where "CMD_BIND = 2"
definition CMD_ASSOCIATE :: u8 where "CMD_ASSOCIATE = 3"
definition NO_AUTHENTICATION :: u8 where "NO_AUTHENTICATION = 0"
definition NO_ACCEPTABLE_METHOD :: u8 where "NO_ACCEPTABLE_METHOD = 0xFF"

lemmas socks_consts = SOCKS_VERSION_def ATYP_IPV4_def ATYP_DOMAIN_def ATYP_IPV6_def CMD_CONNECT_def
  CMD_BIND_def CMD_ASSOCIATE_def NO_AUTHENTICATION_def NO_ACCEPTABLE_METHOD_def

datatype socks_address =
    SocksV4 socket_addr_v4
  | SocksV6 socket_addr_v6
  | SocksDomain bytes u16

definition UNSPECIFIED :: socks_address where
  "UNSPECIFIED = SocksV4 \<lparr>v4_ip = Ipv4 0 0 0 0, v4_port = 0\<rparr>"

definition invalid_data :: "string \<Rightarrow> io_error" where
  "invalid_data msg = io_err KInvalidData msg"

definition invalid_atyp :: "u8 \<Rightarrow> io_error" where
  "invalid_atyp t = io_err KInvalidData (''invalid address type: '' @ text_of (show_nat (unat t)))"

text \<open>\<open>Address::read\<close>\<close>

definition socks_read_ipv4 :: "socks_address tcp_io" where
  "socks_read_ipv4 =
     io_bind (read_exact 6) (\<lambda>buf.
       io_return (SocksV4 \<lparr>v4_ip = Ipv4 (buf ! 0) (buf ! 1) (buf ! 2) (buf ! 3),
                           v4_port = from_be16 (buf ! 4) (buf ! 5)\<rparr>))"

definition socks_read_ipv6 :: "socks_address tcp_io" where
  "socks_read_ipv6 =
     io_bind (read_exact 18) (\<lambda>buf.
       io_return (SocksV6 \<lparr>v6_ip = v6_from_octets (take 16 buf),
                           v6_port = from_be16 (buf ! 16) (buf ! 17), v6_flowinfo = 0, v6_scope_id = 0\<rparr>))"

definition socks_read_domain :: "socks_address tcp_io" where
  "socks_read_domain =
     io_bind read_u8 (\<lambda>b.
       let len = unat b
       in if len = 0 then io_fail (invalid_data ''empty domain'')
          else io_bind (read_exact (len + 2)) (\<lambda>buf.
            io_return (SocksDomain (take len buf) (from_be16 (buf ! len) (buf ! (len + 1))))))"

definition socks_address_read :: "socks_address tcp_io" where
  "socks_address_read =
     io_bind read_u8 (\<lambda>atyp.
       if atyp = ATYP_IPV4 then socks_read_ipv4
       else if atyp = ATYP_IPV6 then socks_read_ipv6
       else if atyp = ATYP_DOMAIN then socks_read_domain
       else io_fail (invalid_atyp atyp))"

text \<open>\<open>Address::from_buf\<close>: the address and the buffer after it.\<close>

fun get_u16 :: "bytes \<Rightarrow> u16 \<times> bytes" where
  "get_u16 (a # b # rest) = (from_be16 a b, rest)"
| "get_u16 bs = (0, bs)"

fun socks_address_from_buf :: "bytes \<Rightarrow> (socks_address \<times> bytes) io_result" where
  "socks_address_from_buf [] = Inl (invalid_data ''insufficient data for address type'')"
| "socks_address_from_buf (atyp # buf) =
     (if atyp = ATYP_IPV4 then
        (if length buf < 6 then Inl (invalid_data ''insufficient data for IPv4 address'')
         else let ip = v4_from_octets (take 4 buf); (port, rest) = get_u16 (drop 4 buf)
              in Inr (SocksV4 \<lparr>v4_ip = ip, v4_port = port\<rparr>, rest))
      else if atyp = ATYP_IPV6 then
        (if length buf < 18 then Inl (invalid_data ''insufficient data for IPv6 address'')
         else let ip = v6_from_octets (take 16 buf); (port, rest) = get_u16 (drop 16 buf)
              in Inr (SocksV6 \<lparr>v6_ip = ip, v6_port = port, v6_flowinfo = 0, v6_scope_id = 0\<rparr>, rest))
      else if atyp = ATYP_DOMAIN then
        (case buf of
           [] \<Rightarrow> Inl (invalid_data ''insufficient data for domain length'')
         | b # buf1 \<Rightarrow>
             (let len = unat b
              in if len = 0 then Inl (invalid_data ''empty domain'')
                 else if length buf1 < len + 2 then Inl (invalid_data ''insufficient data for domain name'')
                 else let domain = take len buf1; (port, rest) = get_u16 (drop len buf1)
                      in Inr (SocksDomain domain port, rest)))
      else Inl (invalid_atyp atyp))"

text \<open>\<open>Address::encode\<close> (what it appends) and \<open>Address::encoded_len\<close>\<close>

fun socks_address_encode :: "socks_address \<Rightarrow> bytes" where
  "socks_address_encode (SocksV4 addr) = [ATYP_IPV4] @ v4_octets (v4_ip addr) @ to_be16 (v4_port addr)"
| "socks_address_encode (SocksV6 addr) = [ATYP_IPV6] @ v6_octets (v6_ip addr) @ to_be16 (v6_port addr)"
| "socks_address_encode (SocksDomain domain port) =
     [ATYP_DOMAIN, word_of_nat (length domain)] @ domain @ to_be16 port"

fun socks_encoded_len :: "socks_address \<Rightarrow> nat" where
  "socks_encoded_len (SocksV4 _) = 1 + 4 + 2"
| "socks_encoded_len (SocksV6 _) = 1 + 16 + 2"
| "socks_encoded_len (SocksDomain domain _) = 1 + 1 + length domain + 2"

text \<open>Conversions from and to the addresses of the tunnel protocol.\<close>

fun socks_address_from_socket_addr :: "socket_addr \<Rightarrow> socks_address" where
  "socks_address_from_socket_addr (SAV4 addr) = SocksV4 addr"
| "socks_address_from_socket_addr (SAV6 addr) = SocksV6 addr"

fun ombrac_from_socks :: "socks_address \<Rightarrow> address" where
  "ombrac_from_socks (SocksV4 addr) = SocketV4 addr"
| "ombrac_from_socks (SocksV6 addr) = SocketV6 addr"
| "ombrac_from_socks (SocksDomain domain port) = Domain domain port"

fun socks_try_from_ombrac :: "address \<Rightarrow> socks_address io_result" where
  "socks_try_from_ombrac (SocketV4 addr) = Inr (SocksV4 addr)"
| "socks_try_from_ombrac (SocketV6 addr) = Inr (SocksV6 addr)"
| "socks_try_from_ombrac (Domain domain port) =
     (if 255 < length domain then Inl (invalid_data ''domain exceeds maximum length'')
      else Inr (SocksDomain domain port))"

fun socks_address_display :: "socks_address \<Rightarrow> bytes" where
  "socks_address_display (SocksV4 addr) = show_socket_addr_v4 addr"
| "socks_address_display (SocksV6 addr) = show_socket_addr_v6 addr"
| "socks_address_display (SocksDomain domain port) = from_utf8_lossy domain @ [0x3A] @ show_nat (unat port)"

section \<open>Requests and replies\<close>

datatype socks_request =
    ReqConnect socks_address
  | ReqBind socks_address
  | ReqAssociate socks_address

definition socks_request_read :: "socks_request tcp_io" where
  "socks_request_read =
     io_bind (read_exact 3) (\<lambda>header.
       if header ! 0 \<noteq> SOCKS_VERSION then io_fail (invalid_data ''unsupported SOCKS version'')
       else io_bind socks_address_read (\<lambda>addr.
         if header ! 1 = CMD_CONNECT then io_return (ReqConnect addr)
         else if header ! 1 = CMD_BIND then io_return (ReqBind addr)
         else if header ! 1 = CMD_ASSOCIATE then io_return (ReqAssociate addr)
         else io_fail (io_err KInvalidData
                (''invalid request command: '' @ text_of (show_nat (unat (header ! 1)))))))"

datatype socks_reply =
    Succeeded
  | GeneralFailure
  | ConnectionNotAllowed
  | NetworkUnreachable
  | HostUnreachable
  | ConnectionRefused
  | TtlExpired
  | CommandNotSupported

fun reply_as_u8 :: "socks_reply \<Rightarrow> u8" where
  "reply_as_u8 Succeeded = 0"
| "reply_as_u8 GeneralFailure = 1"
| "reply_as_u8 ConnectionNotAllowed = 2"
| "reply_as_u8 NetworkUnreachable = 3"
| "reply_as_u8 HostUnreachable = 4"
| "reply_as_u8 ConnectionRefused = 5"
| "reply_as_u8 TtlExpired = 6"
| "reply_as_u8 CommandNotSupported = 7"

definition from_connect_error :: "io_error \<Rightarrow> socks_reply" where
  "from_connect_error err =
     (case err_kind err of
        KConnectionRefused \<Rightarrow> ConnectionRefused
      | KTimedOut \<Rightarrow> TtlExpired
      | KHostUnreachable \<Rightarrow> HostUnreachable
      | KNetworkUnreachable \<Rightarrow> NetworkUnreachable
      | KPermissionDenied \<Rightarrow> ConnectionNotAllowed
      | _ \<Rightarrow> GeneralFailure)"

definition encode_reply :: "socks_reply \<Rightarrow> socks_address \<Rightarrow> bytes" where
  "encode_reply reply addr = [SOCKS_VERSION, reply_as_u8 reply, 0] @ socks_address_encode addr"

section \<open>UDP packets\<close>

record socks_udp_packet =
  udp_frag :: u8
  udp_address :: socks_address
  udp_data :: bytes

definition socks_udp_from_buf :: "bytes \<Rightarrow> socks_udp_packet io_result" where
  "socks_udp_from_buf buf =
     (if length buf < 3 then Inl (invalid_data ''insufficient data for UDP header'')
      else let frag = buf ! 2
           in case socks_address_from_buf (drop 3 buf) of
                Inl e \<Rightarrow> Inl e
              | Inr (addr, rest) \<Rightarrow> Inr \<lparr>udp_frag = frag, udp_address = addr, udp_data = rest\<rparr>)"

definition encode_unfragmented :: "socks_address \<Rightarrow> bytes \<Rightarrow> bytes" where
  "encode_unfragmented addr data = [0, 0, 0] @ socks_address_encode addr @ data"

section \<open>Encoding and decoding are inverse\<close>

text \<open>The addresses that the wire format can carry.\<close>

fun socks_address_ok :: "socks_address \<Rightarrow> bool" where
  "socks_address_ok (SocksV4 _) = True"
| "socks_address_ok (SocksV6 a) = (v6_flowinfo a = 0 \<and> v6_scope_id a = 0)"
| "socks_address_ok (SocksDomain d _) = (d \<noteq> [] \<and> length d \<le> 255)"

definition result_ok :: "'a io_result \<Rightarrow> 'a option" where
  "result_ok r = (case r of Inl _ \<Rightarrow> None | Inr x \<Rightarrow> Some x)"

lemma result_ok_Some [simp]: "result_ok r = Some x \<longleftrightarrow> r = Inr x"
  by (cases r) (simp_all add: result_ok_def)

lemma get_u16_to_be16 [simp]: "get_u16 (to_be16 p @ rest) = (p, rest)"
  by (simp add: to_be16_def)

lemma get_u16_sound: "2 \<le> length xs \<Longrightarrow> get_u16 xs = (p, rest) \<Longrightarrow> xs = to_be16 p @ rest"
  by (cases xs rule: get_u16.cases) auto

lemma unat_u8_length: "length d \<le> 255 \<Longrightarrow> unat (word_of_nat (length d) :: u8) = length d"
  by (simp add: unat_of_nat take_bit_nat_eq_self)

lemma socks_from_buf_encode:
  "socks_address_ok a \<Longrightarrow> socks_address_from_buf (socks_address_encode a @ rest) = Inr (a, rest)"
  by (cases a) (auto simp: socks_consts unat_u8_length)

lemma socks_from_buf_sound:
  assumes "socks_address_from_buf inp = Inr (a, rest)"
  shows "socks_address_ok a \<and> inp = socks_address_encode a @ rest"
proof (cases inp)
  case Nil
  with assms show ?thesis by simp
next
  case (Cons t buf)
  consider (v4) "t = ATYP_IPV4" | (v6) "t = ATYP_IPV6" | (dom) "t = ATYP_DOMAIN"
    | (bad) "t \<noteq> ATYP_IPV4 \<and> t \<noteq> ATYP_IPV6 \<and> t \<noteq> ATYP_DOMAIN" by blast
  then show ?thesis
  proof cases
    case v4
    obtain p r where g: "get_u16 (drop 4 buf) = (p, r)" by fastforce
    with assms Cons v4 have len: "6 \<le> length buf" and
      a: "a = SocksV4 \<lparr>v4_ip = v4_from_octets (take 4 buf), v4_port = p\<rparr>" "rest = r"
      by (auto split: if_splits)
    from get_u16_sound [OF _ g] len have "drop 4 buf = to_be16 p @ r" by simp
    then have "buf = take 4 buf @ to_be16 p @ r" by (metis append_take_drop_id)
    with a len Cons v4 show ?thesis by (simp add: v4_octets_from_octets)
  next
    case v6
    obtain p r where g: "get_u16 (drop 16 buf) = (p, r)" by fastforce
    with assms Cons v6 have len: "18 \<le> length buf" and
      a: "a = SocksV6 \<lparr>v6_ip = v6_from_octets (take 16 buf), v6_port = p, v6_flowinfo = 0, v6_scope_id = 0\<rparr>"
         "rest = r"
      by (auto simp: socks_consts split: if_splits)
    from get_u16_sound [OF _ g] len have "drop 16 buf = to_be16 p @ r" by simp
    then have "buf = take 16 buf @ to_be16 p @ r" by (metis append_take_drop_id)
    with a len Cons v6 show ?thesis by (simp add: v6_octets_from_octets)
  next
    case dom
    with assms Cons obtain b buf1 where buf: "buf = b # buf1"
      by (cases buf) (auto simp: socks_consts)
    obtain p r where g: "get_u16 (drop (unat b) buf1) = (p, r)" by fastforce
    with assms Cons dom buf have len: "unat b + 2 \<le> length buf1" "unat b \<noteq> 0" and
      a: "a = SocksDomain (take (unat b) buf1) p" "rest = r"
      by (auto simp: socks_consts Let_def split: if_splits)
    from get_u16_sound [OF _ g] len have "drop (unat b) buf1 = to_be16 p @ r" by simp
    then have "buf1 = take (unat b) buf1 @ to_be16 p @ r" by (metis append_take_drop_id)
    moreover have "min (length buf1) (unat b) = unat b" "unat b \<le> 255"
      using len unat_u8_less [of b] by auto
    ultimately show ?thesis using a len Cons dom buf by auto
  next
    case bad
    with assms Cons show ?thesis by simp
  qed
qed

interpretation socks_buf: prefix_codec socks_address_encode "\<lambda>inp. result_ok (socks_address_from_buf inp)" socks_address_ok
proof
  show "socks_address_encode x \<noteq> []" for x by (cases x) auto
qed (simp_all add: socks_from_buf_encode socks_from_buf_sound)

text \<open>Reading from a stream takes the same bytes as parsing a buffer.\<close>

lemma socks_read_encode:
  assumes "socks_address_ok a" and "in_bytes s = socks_address_encode a @ rest"
  shows "socks_address_read s = (Inr a, s\<lparr>in_bytes := rest\<rparr>)"
proof (cases a)
  case (SocksV4 sa)
  obtain w x y z where "v4_ip sa = Ipv4 w x y z" by (cases "v4_ip sa")
  with assms SocksV4 show ?thesis
    by (simp add: socks_address_read_def socks_read_ipv4_def io_simps read_u8_ok socks_consts
        read_exact_def to_be16_def)
next
  case (SocksV6 sa)
  with assms show ?thesis
    by (simp add: socks_address_read_def socks_read_ipv6_def io_simps read_u8_ok socks_consts
        read_exact_def nth_append to_be16_def)
next
  case (SocksDomain d p)
  with assms show ?thesis
    by (simp add: socks_address_read_def socks_read_domain_def io_simps read_u8_ok socks_consts
        read_exact_def nth_append to_be16_def unat_u8_length Let_def)
qed

lemma socks_read_fails:
  assumes "socks_address_from_buf (in_bytes s) = Inl e"
  shows "\<exists>e' s'. socks_address_read s = (Inl e', s')"
proof (cases "in_bytes s")
  case Nil
  then show ?thesis by (simp add: socks_address_read_def io_simps read_u8_eof)
next
  case (Cons t buf)
  note read = socks_address_read_def io_simps read_u8_ok [OF Cons]
  consider (v4) "t = ATYP_IPV4" | (v6) "t = ATYP_IPV6" | (dom) "t = ATYP_DOMAIN"
    | (bad) "t \<noteq> ATYP_IPV4 \<and> t \<noteq> ATYP_IPV6 \<and> t \<noteq> ATYP_DOMAIN" by blast
  then show ?thesis
  proof cases
    case v4
    with assms Cons show ?thesis
      by (auto simp: read socks_read_ipv4_def read_exact_def split: if_splits prod.splits)
  next
    case v6
    with assms Cons show ?thesis
      by (auto simp: read socks_read_ipv6_def read_exact_def socks_consts split: if_splits prod.splits)
  next
    case dom
    show ?thesis
    proof (cases buf)
      case Nil
      with dom show ?thesis by (simp add: read socks_read_domain_def read_u8_eof socks_consts)
    next
      case (Cons b buf1)
      with dom assms \<open>in_bytes s = t # buf\<close> show ?thesis
        by (auto simp: read socks_read_domain_def read_u8_ok read_exact_def socks_consts Let_def
            split: if_splits prod.splits)
    qed
  next
    case bad
    then show ?thesis by (simp add: read)
  qed
qed

lemma socks_read_iff:
  "socks_address_read s = (Inr a, s') \<longleftrightarrow>
     (\<exists>rest. socks_address_from_buf (in_bytes s) = Inr (a, rest) \<and> s' = s\<lparr>in_bytes := rest\<rparr>)"
proof (cases "socks_address_from_buf (in_bytes s)")
  case (Inl e)
  with socks_read_fails [OF this] show ?thesis by auto
next
  case (Inr p)
  then obtain a0 rest where p: "socks_address_from_buf (in_bytes s) = Inr (a0, rest)" by (cases p) auto
  with socks_from_buf_sound [OF p] socks_read_encode [of a0 s rest] show ?thesis by auto
qed

text \<open>
  C35. The two readers of SOCKS addresses agree: reading from the stream succeeds exactly when parsing
  the buffered bytes does, gives the same address and consumes the same bytes, namely the
  encoding of an address the format can carry; on everything else both fail.
\<close>

theorem socks_read_agrees_with_from_buf:
  "((\<exists>s'. socks_address_read s = (Inr a, s') \<and> in_bytes s' = rest) \<longleftrightarrow>
      socks_address_from_buf (in_bytes s) = Inr (a, rest)) \<and>
   (socks_address_from_buf inp = Inr (a, rest) \<longleftrightarrow> socks_address_ok a \<and> inp = socks_address_encode a @ rest)"
  using socks_read_iff [of s a] socks_buf.dec_iff [of inp a rest] by auto

lemma socks_udp_from_buf_Inr:
  assumes p: "socks_udp_from_buf buf = Inr \<lparr>udp_frag = f, udp_address = a, udp_data = d\<rparr>"
  shows "socks_address_ok a \<and> (\<exists>r0 r1. buf = [r0, r1, f] @ socks_address_encode a @ d)"
proof -
  from p have len: "3 \<le> length buf" by (auto simp: socks_udp_from_buf_def split: if_splits)
  then obtain r0 r1 f' body where buf: "buf = [r0, r1, f'] @ body"
    by (cases buf rule: remdups_adj.cases; cases "tl (tl buf)") (auto simp: Suc_le_eq)
  with p show ?thesis
    by (auto simp: socks_udp_from_buf_def dest: socks_from_buf_sound split: sum.splits)
qed

lemma socks_udp_from_buf_encode:
  "socks_address_ok a \<Longrightarrow> socks_udp_from_buf ([r0, r1, f] @ socks_address_encode a @ d) =
     Inr \<lparr>udp_frag = f, udp_address = a, udp_data = d\<rparr>"
  using socks_from_buf_encode [of a d] by (simp add: socks_udp_from_buf_def)

text \<open>
  SOCKS UDP headers: a datagram is accepted exactly when it consists of two ignored bytes, the
  fragment number, the encoding of an address that the format can carry and the payload; in
  particular what the endpoint builds for an address and a payload is parsed back to them,
  unfragmented.
\<close>

theorem socks_udp_roundtrip:
  "(socks_udp_from_buf buf = Inr \<lparr>udp_frag = f, udp_address = a, udp_data = d\<rparr> \<longleftrightarrow>
      socks_address_ok a \<and> (\<exists>r0 r1. buf = [r0, r1, f] @ socks_address_encode a @ d)) \<and>
   (socks_udp_from_buf (encode_unfragmented a d) = Inr \<lparr>udp_frag = 0, udp_address = a, udp_data = d\<rparr> \<longleftrightarrow>
      socks_address_ok a)"
proof
  show "socks_udp_from_buf buf = Inr \<lparr>udp_frag = f, udp_address = a, udp_data = d\<rparr> \<longleftrightarrow>
      socks_address_ok a \<and> (\<exists>r0 r1. buf = [r0, r1, f] @ socks_address_encode a @ d)"
    using socks_udp_from_buf_Inr [of buf f a d] socks_udp_from_buf_encode by blast
  show "socks_udp_from_buf (encode_unfragmented a d) = Inr \<lparr>udp_frag = 0, udp_address = a, udp_data = d\<rparr> \<longleftrightarrow>
      socks_address_ok a"
    using socks_udp_from_buf_Inr [of "encode_unfragmented a d" 0 a d] socks_udp_from_buf_encode
    unfolding encode_unfragmented_def by blast
qed

text \<open>
  Reading a request whose header is followed by an encoded address: any version but 5 is refused
  before the address is read, the three commands give the three requests on that address, any
  other command is refused after the address was consumed; the reserved byte is not checked.
\<close>

theorem socks_request_read_ok:
  assumes "socks_address_ok a" and "in_bytes s = [ver, cmd, rsv] @ socks_address_encode a @ rest"
  shows "socks_request_read s =
    (if ver \<noteq> 5 then (Inl (invalid_data ''unsupported SOCKS version''),
                       s\<lparr>in_bytes := socks_address_encode a @ rest\<rparr>)
     else (if cmd = 1 then Inr (ReqConnect a) else if cmd = 2 then Inr (ReqBind a)
           else if cmd = 3 then Inr (ReqAssociate a)
           else Inl (io_err KInvalidData (''invalid request command: '' @ text_of (show_nat (unat cmd)))),
           s\<lparr>in_bytes := rest\<rparr>))"
  using assms
  by (simp add: socks_request_read_def io_simps read_exact_def socks_consts socks_read_encode)

theorem socks_request_read_ok_witness:
  "socks_request_read \<lparr>in_bytes = [5, 1, 0, 1, 127, 0, 0, 1, 0, 80, 9], in_end = io_err KUnexpectedEof [],
      out_bytes = [], out_room = None, out_err = io_err KBrokenPipe []\<rparr> =
   (Inr (ReqConnect (SocksV4 \<lparr>v4_ip = Ipv4 127 0 0 1, v4_port = 80\<rparr>)),
    \<lparr>in_bytes = [9], in_end = io_err KUnexpectedEof [],
      out_bytes = [], out_room = None, out_err = io_err KBrokenPipe []\<rparr>)"
proof -
  let ?a = "SocksV4 \<lparr>v4_ip = Ipv4 127 0 0 1, v4_port = 80\<rparr>"
  have "socks_address_encode ?a = [1, 127, 0, 0, 1, 0, 80]" by code_simp
  then show ?thesis
    by (subst socks_request_read_ok [where a = ?a and ver = 5 and cmd = 1 and rsv = 0 and rest = "[9]"]) simp_all
qed

lemma length_socks_encode: "length (socks_address_encode a) = socks_encoded_len a"
  by (cases a) simp_all

text \<open>
  Converting a tunnel address for a SOCKS reply: it fails exactly for a domain of more than 255
  bytes; otherwise the conversion is undone by the conversion back, and the encoding has the
  length \<open>encoded_len\<close> announces. It is parsed back to the same address unless the domain is empty (which
  the conversion accepts and the parser refuses) or the address carries an IPv6 flow label or scope,
  which the format cannot express.
\<close>

theorem socks_try_from_ombrac_spec:
  "case socks_try_from_ombrac a of
     Inl e \<Rightarrow> err_kind e = KInvalidData \<and> (\<exists>d p. a = Domain d p \<and> 255 < length d)
   | Inr sa \<Rightarrow>
       ombrac_from_socks sa = a \<and> length (socks_address_encode sa) = socks_encoded_len sa \<and>
       (socks_address_from_buf (socks_address_encode sa @ rest) = Inr (sa, rest) \<longleftrightarrow>
          (case a of
             Domain d _ \<Rightarrow> d \<noteq> []
           | SocketV6 v \<Rightarrow> v6_flowinfo v = 0 \<and> v6_scope_id v = 0
           | SocketV4 _ \<Rightarrow> True))"
proof (cases a)
  case (Domain d p)
  then show ?thesis
    using socks_buf.dec_iff [of "socks_address_encode (SocksDomain d p) @ rest" "SocksDomain d p" rest]
    by (simp add: length_socks_encode invalid_data_def del: socks_address_from_buf.simps socks_address_encode.simps)
next
  case (SocketV4 v)
  then show ?thesis
    using socks_buf.dec_iff [of "socks_address_encode (SocksV4 v) @ rest" "SocksV4 v" rest]
    by (simp add: length_socks_encode del: socks_address_from_buf.simps socks_address_encode.simps)
next
  case (SocketV6 v)
  then show ?thesis
    using socks_buf.dec_iff [of "socks_address_encode (SocksV6 v) @ rest" "SocksV6 v" rest]
    by (simp add: length_socks_encode del: socks_address_from_buf.simps socks_address_encode.simps)
qed

end
