(* ===== verification/Machine.thy ===== *)
theory Machine
  imports Ombrac_Prelude
begin

text \<open>
  Event-driven machines. The tasks of the sources wait in \<open>select!\<close> or in an await for the next event;
  a component is a step function on its state, applied to one event at a time, and \<open>None\<close> where
  the component does not accept the event in that state. Since all tasks that share a state are
  interleaved at their awaits, a run is any sequence of accepted events.

  The locales state once what an invariant, a measure and a monotone component give for every
  run; each machine of the development interprets them.
\<close>

fun run_steps :: "('e \<Rightarrow> 's \<Rightarrow> 's option) \<Rightarrow> 'e list \<Rightarrow> 's \<Rightarrow> 's option" where
  "run_steps step [] s = Some s"
| "run_steps step (e # es) s = (case step e s of None \<Rightarrow> None | Some s' \<Rightarrow> run_steps step es s')"

lemma run_steps_append:
  "run_steps step (es @ fs) s = (case run_steps step es s of None \<Rightarrow> None | Some s' \<Rightarrow> run_steps step fs s')"
  by (induction es arbitrary: s) (auto split: option.split)

lemma run_steps_Cons_SomeE:
  assumes "run_steps step (e # es) s = Some t"
  obtains s' where "step e s = Some s'" and "run_steps step es s' = Some t"
  using assms by (auto split: option.splits)

text \<open>A machine together with the events it has accepted so far.\<close>

definition logged :: "('e \<Rightarrow> 's \<Rightarrow> 's option) \<Rightarrow> 'e \<Rightarrow> 'e list \<times> 's \<Rightarrow> ('e list \<times> 's) option" where
  "logged step e = (\<lambda>(es, s). map_option (\<lambda>s'. (es @ [e], s')) (step e s))"

lemma run_logged:
  "run_steps (logged step) es (hs, s) = map_option (\<lambda>s'. (hs @ es, s')) (run_steps step es s)"
  by (induction es arbitrary: hs s) (auto simp: logged_def split: option.split)

section \<open>Invariants\<close>

locale invariant_machine =
  fixes step :: "'e \<Rightarrow> 's \<Rightarrow> 's option" and inv :: "'s \<Rightarrow> bool"
  assumes step_inv: "inv s \<Longrightarrow> step e s = Some s' \<Longrightarrow> inv s'"
begin

lemma run_inv: "inv s \<Longrightarrow> run_steps step es s = Some s' \<Longrightarrow> inv s'"
  by (induction es arbitrary: s) (auto intro: step_inv split: option.splits)

end

section \<open>Progress\<close>

text \<open>A machine that, from every state of an invariant, can only take boundedly many steps.\<close>

locale terminating_machine = invariant_machine +
  fixes fuel :: "'b \<Rightarrow> nat"
  assumes step_fuel: "inv s \<Longrightarrow> step e s = Some s' \<Longrightarrow> fuel s' < fuel s"
begin

lemma run_length: "inv s \<Longrightarrow> run_steps step es s = Some s' \<Longrightarrow> length es + fuel s' \<le> fuel s"
proof (induction es arbitrary: s)
  case (Cons e es)
  then obtain s1 where s1: "step e s = Some s1" "run_steps step es s1 = Some s'"
    by (auto split: option.splits)
  with Cons step_inv [of s e s1] step_fuel [of s e s1] show ?case by fastforce
qed simp

end

section \<open>Reachability within a number of steps\<close>

definition reaches :: "('e \<Rightarrow> 's \<Rightarrow> 's option) \<Rightarrow> nat \<Rightarrow> 's \<Rightarrow> 's \<Rightarrow> bool" where
  "reaches step n s t \<longleftrightarrow> (\<exists>es. length es \<le> n \<and> run_steps step es s = Some t)"

lemma reaches_refl [simp]: "reaches step n s s"
  unfolding reaches_def by (rule exI [of _ "[]"]) simp

lemma reaches_step: "step e s = Some s' \<Longrightarrow> reaches step n s' t \<Longrightarrow> reaches step (Suc n) s t"
  unfolding reaches_def by (elim exE) (rule_tac x = "e # es" in exI, simp)

lemma reaches_mono: "reaches step m s t \<Longrightarrow> m \<le> n \<Longrightarrow> reaches step n s t"
  unfolding reaches_def by (meson order.trans)

lemma reaches_2_3: "reaches step 2 s t \<Longrightarrow> reaches step 3 s t"
  by (erule reaches_mono) simp

lemma reaches_trans: "reaches step m s t \<Longrightarrow> reaches step n t u \<Longrightarrow> reaches step (m + n) s u"
  unfolding reaches_def by (elim exE conjE) (rule_tac x = "es @ esa" in exI, simp add: run_steps_append)

lemma reaches_one: "step e s = Some s' \<Longrightarrow> reaches step (Suc 0) s s'"
  by (erule reaches_step) (rule reaches_refl)

text \<open>The machine without one of its events.\<close>

definition avoiding :: "'e \<Rightarrow> ('e \<Rightarrow> 's \<Rightarrow> 's option) \<Rightarrow> 'e \<Rightarrow> 's \<Rightarrow> 's option" where
  "avoiding x step e s = (if e = x then None else step e s)"

lemma run_avoiding: "run_steps (avoiding x step) es s = Some t \<longleftrightarrow> run_steps step es s = Some t \<and> x \<notin> set es"
  by (induction es arbitrary: s) (auto simp: avoiding_def split: option.splits)

lemma reaches_avoiding:
  "reaches (avoiding x step) n s t \<longleftrightarrow> (\<exists>es. length es \<le> n \<and> run_steps step es s = Some t \<and> x \<notin> set es)"
  by (simp add: reaches_def run_avoiding)

end
