(* ===== verification/Transport_Io.thy ===== *)
theory Transport_Io
  imports Machine
begin

text \<open>
  The relay loops of \<open>crates/ombrac-transport/src/io.rs\<close>. \<open>copy_with_cancel\<close> is a machine with the program
  points of its loop; the results of \<open>read\<close> and the progress of \<open>write_all\<close> are its events. The two
  directions of \<open>copy_bidirectional\<close> run interleaved and share the cancellation token, which a
  direction cancels in the same poll in which it finishes.
\<close>

section \<open>One direction\<close>

definition DEFAULT_BUF_SIZE :: nat where
  "DEFAULT_BUF_SIZE = 8 * 1024"

type_synonym copy_result = "(io_error \<times> nat) + nat"

text \<open>Before the first check of the token; in \<open>select!\<close>; in \<open>write_all\<close> of a chunk of the given length with
  the bytes still to be written; returned.\<close>

datatype copy_pc =
    CopyStart
  | CopySelect
  | CopyWrite nat bytes
  | CopyDone copy_result

record copy_state =
  cp_pc :: copy_pc
  copied :: nat
  cp_in :: bytes
  cp_out :: bytes

definition copy_init :: copy_state where
  "copy_init = \<lparr>cp_pc = CopyStart, copied = 0, cp_in = [], cp_out = []\<rparr>"

text \<open>The task is polled with nothing to wait for; a read returns bytes or an error; the writer takes
  some bytes or fails.\<close>

datatype copy_event =
    Poll
  | ReadOk bytes
  | ReadErr io_error
  | WriteSome nat
  | WriteErr io_error

definition read_result_of :: "copy_event \<Rightarrow> bytes io_result option" where
  "read_result_of e =
     (case e of
        ReadOk bs \<Rightarrow> if length bs \<le> DEFAULT_BUF_SIZE then Some (Inr bs) else None
      | ReadErr err \<Rightarrow>
          Some (if err_kind err = KConnectionReset \<or> err_kind err = KConnectionAborted
                then Inr [] else Inl err)
      | _ \<Rightarrow> None)"

definition copy_with_cancel :: "bool \<Rightarrow> copy_event \<Rightarrow> copy_state \<Rightarrow> copy_state option" where
  "copy_with_cancel token e s =
     (case cp_pc s of
        CopyStart \<Rightarrow>
          (if e = Poll then Some (s\<lparr>cp_pc := if token then CopyDone (Inr 0) else CopySelect\<rparr>) else None)
      | CopySelect \<Rightarrow>
          (if token then
             (if e = Poll then Some (s\<lparr>cp_pc := CopyDone (Inr (copied s))\<rparr>) else None)
           else
             (case read_result_of e of
                None \<Rightarrow> None
              | Some (Inl err) \<Rightarrow> Some (s\<lparr>cp_pc := CopyDone (Inl (err, copied s))\<rparr>)
              | Some (Inr buf) \<Rightarrow>
                  if buf = [] then Some (s\<lparr>cp_pc := CopyDone (Inr (copied s))\<rparr>)
                  else Some (s\<lparr>cp_pc := CopyWrite (length buf) buf, cp_in := cp_in s @ buf\<rparr>)))
      | CopyWrite bytes_read rest \<Rightarrow>
          (case e of
             WriteSome n \<Rightarrow>
               if n = 0 \<or> length rest < n then None
               else if n = length rest
               then Some (s\<lparr>cp_pc := CopySelect, cp_out := cp_out s @ rest,
                            copied := copied s + bytes_read\<rparr>)
               else Some (s\<lparr>cp_pc := CopyWrite bytes_read (drop n rest), cp_out := cp_out s @ take n rest\<rparr>)
           | WriteErr err \<Rightarrow> Some (s\<lparr>cp_pc := CopyDone (Inl (err, copied s))\<rparr>)
           | _ \<Rightarrow> None)
      | CopyDone _ \<Rightarrow> None)"

definition copy_done :: "copy_state \<Rightarrow> bool" where
  "copy_done s = (case cp_pc s of CopyDone _ \<Rightarrow> True | _ \<Rightarrow> False)"

section \<open>Both directions\<close>

record copy_bidirectional_stats =
  a_to_b_bytes :: u64
  b_to_a_bytes :: u64

record bidi_state =
  a_to_b :: copy_state
  b_to_a :: copy_state
  bidi_token :: bool

definition bidi_init :: bidi_state where
  "bidi_init = \<lparr>a_to_b = copy_init, b_to_a = copy_init, bidi_token = False\<rparr>"

datatype copy_side = AtoB | BtoA

text \<open>One poll of one of the two joined blocks.\<close>

fun copy_bidirectional :: "copy_side \<times> copy_event \<Rightarrow> bidi_state \<Rightarrow> bidi_state option" where
  "copy_bidirectional (AtoB, e) s =
     (case copy_with_cancel (bidi_token s) e (a_to_b s) of
        None \<Rightarrow> None
      | Some c \<Rightarrow> Some (s\<lparr>a_to_b := c, bidi_token := bidi_token s \<or> copy_done c\<rparr>))"
| "copy_bidirectional (BtoA, e) s =
     (case copy_with_cancel (bidi_token s) e (b_to_a s) of
        None \<Rightarrow> None
      | Some c \<Rightarrow> Some (s\<lparr>b_to_a := c, bidi_token := bidi_token s \<or> copy_done c\<rparr>))"

text \<open>What is returned when both blocks are done.\<close>

fun result_count :: "copy_result \<Rightarrow> nat" where
  "result_count (Inr n) = n"
| "result_count (Inl (_, n)) = n"

definition bidi_result ::
    "copy_result \<Rightarrow> copy_result \<Rightarrow> (io_error \<times> copy_bidirectional_stats) + copy_bidirectional_stats" where
  "bidi_result ra rb =
     (let stats = \<lparr>a_to_b_bytes = word_of_nat (result_count ra), b_to_a_bytes = word_of_nat (result_count rb)\<rparr>
      in case ra of
           Inl (e, _) \<Rightarrow> Inl (e, stats)
         | Inr _ \<Rightarrow> (case rb of Inl (e, _) \<Rightarrow> Inl (e, stats) | Inr _ \<Rightarrow> Inr stats))"

definition copy_bidirectional_return ::
    "bidi_state \<Rightarrow> ((io_error \<times> copy_bidirectional_stats) + copy_bidirectional_stats) option" where
  "copy_bidirectional_return s =
     (case cp_pc (a_to_b s) of
        CopyDone ra \<Rightarrow> (case cp_pc (b_to_a s) of CopyDone rb \<Rightarrow> Some (bidi_result ra rb) | _ \<Rightarrow> None)
      | _ \<Rightarrow> None)"

section \<open>What one direction keeps\<close>

text \<open>
  What has been read is what has been written and what is still to be written, in order; \<open>copied\<close>
  counts the chunks written completely.
\<close>

definition copy_inv :: "copy_state \<Rightarrow> bool" where
  "copy_inv s \<longleftrightarrow>
     (case cp_pc s of
        CopyStart \<Rightarrow> cp_in s = [] \<and> cp_out s = [] \<and> copied s = 0
      | CopySelect \<Rightarrow> cp_out s = cp_in s \<and> copied s = length (cp_out s)
      | CopyWrite n rest \<Rightarrow>
          rest \<noteq> [] \<and> length rest \<le> n \<and> n \<le> DEFAULT_BUF_SIZE \<and>
          cp_in s = cp_out s @ rest \<and> length (cp_in s) = copied s + n
      | CopyDone (Inr n) \<Rightarrow> cp_out s = cp_in s \<and> n = length (cp_out s)
      | CopyDone (Inl (_, n)) \<Rightarrow>
          (\<exists>rest. cp_in s = cp_out s @ rest) \<and> n \<le> length (cp_out s) \<and>
          length (cp_in s) \<le> n + DEFAULT_BUF_SIZE)"

lemma copy_inv_init: "copy_inv copy_init"
  by (simp add: copy_inv_def copy_init_def)

lemma read_result_of_length: "read_result_of e = Some (Inr bs) \<Longrightarrow> length bs \<le> DEFAULT_BUF_SIZE"
  by (cases e) (auto simp: read_result_of_def split: if_splits)

lemma copy_with_cancel_inv:
  assumes inv: "copy_inv s" and step: "copy_with_cancel token e s = Some s'"
  shows "copy_inv s'"
proof (cases "cp_pc s")
  case CopyStart
  with assms show ?thesis by (auto simp: copy_inv_def copy_with_cancel_def split: if_splits)
next
  case CopySelect
  with assms read_result_of_length [of e] show ?thesis
    by (auto simp: copy_inv_def copy_with_cancel_def split: if_splits option.splits sum.splits)
next
  case (CopyWrite n rest)
  then have facts: "rest \<noteq> []" "length rest \<le> n" "cp_in s = cp_out s @ rest" "n \<le> DEFAULT_BUF_SIZE"
    "length (cp_in s) = copied s + n" using inv by (auto simp: copy_inv_def)
  show ?thesis
  proof (cases e)
    case (WriteSome m)
    with CopyWrite facts step show ?thesis
      by (auto simp: copy_inv_def copy_with_cancel_def split: if_splits)
  next
    case (WriteErr err)
    with CopyWrite facts step show ?thesis
      by (auto simp: copy_inv_def copy_with_cancel_def)
  qed (use CopyWrite step in \<open>auto simp: copy_with_cancel_def\<close>)
next
  case (CopyDone r)
  with step show ?thesis by (simp add: copy_with_cancel_def)
qed

lemma copy_with_cancel_grows:
  assumes "copy_with_cancel token e s = Some s'"
  shows "\<exists>xs ys. cp_in s' = cp_in s @ xs \<and> cp_out s' = cp_out s @ ys \<and> (token \<longrightarrow> xs = [])"
  using assms
  by (cases "cp_pc s"; cases e) (auto simp: copy_with_cancel_def split: if_splits option.splits sum.splits)

lemma copy_done_conv: "copy_done s \<longleftrightarrow> (\<exists>r. cp_pc s = CopyDone r)"
  by (auto simp: copy_done_def split: copy_pc.splits)

section \<open>What both directions keep\<close>

definition bidi_inv :: "bidi_state \<Rightarrow> bool" where
  "bidi_inv s \<longleftrightarrow> copy_inv (a_to_b s) \<and> copy_inv (b_to_a s) \<and>
     (bidi_token s \<longleftrightarrow> copy_done (a_to_b s) \<or> copy_done (b_to_a s))"

lemma side_cases:
  obtains (a) ev where "e = (AtoB, ev)" | (b) ev where "e = (BtoA, ev)"
  by (cases e) (metis copy_side.exhaust)

lemma copy_with_cancel_not_done: "copy_with_cancel token e s = Some s' \<Longrightarrow> \<not> copy_done s"
  by (auto simp: copy_with_cancel_def copy_done_conv)

lemma copy_bidirectional_inv:
  "bidi_inv s \<Longrightarrow> copy_bidirectional e s = Some s' \<Longrightarrow> bidi_inv s'"
  by (cases e rule: side_cases)
    (auto simp: bidi_inv_def copy_with_cancel_inv dest: copy_with_cancel_not_done split: option.splits)

interpretation bidi: invariant_machine copy_bidirectional bidi_inv
  by unfold_locales (rule copy_bidirectional_inv)

lemma bidi_inv_init: "bidi_inv bidi_init"
  by (simp add: bidi_inv_def bidi_init_def copy_inv_init) (simp add: copy_done_def copy_init_def)

text \<open>The polls a direction still needs once the token is cancelled.\<close>

definition copy_fuel :: "copy_state \<Rightarrow> nat" where
  "copy_fuel s =
     (case cp_pc s of CopyStart \<Rightarrow> 1 | CopySelect \<Rightarrow> 1 | CopyWrite _ rest \<Rightarrow> 1 + length rest | CopyDone _ \<Rightarrow> 0)"

definition bidi_fuel :: "bidi_state \<Rightarrow> nat" where
  "bidi_fuel s = copy_fuel (a_to_b s) + copy_fuel (b_to_a s)"

lemma copy_cancelled_fuel: "copy_with_cancel True e s = Some s' \<Longrightarrow> copy_fuel s' < copy_fuel s"
  by (auto simp: copy_with_cancel_def copy_fuel_def split: copy_pc.splits if_splits copy_event.splits)

lemma copy_cancelled_in: "copy_with_cancel True e s = Some s' \<Longrightarrow> cp_in s' = cp_in s"
  by (auto simp: copy_with_cancel_def split: copy_pc.splits if_splits copy_event.splits)

interpretation cancelled: terminating_machine copy_bidirectional bidi_token bidi_fuel
proof
  fix s e s'
  assume t: "bidi_token s" and step: "copy_bidirectional e s = Some s'"
  show "bidi_token s'" using t step by (cases e rule: side_cases) (auto split: option.splits)
  show "bidi_fuel s' < bidi_fuel s"
    using t step
    by (cases e rule: side_cases) (auto simp: bidi_fuel_def split: option.splits dest: copy_cancelled_fuel)
qed

interpretation cancelled_in: invariant_machine copy_bidirectional
  "\<lambda>s. bidi_token s \<and> cp_in (a_to_b s) = xs \<and> cp_in (b_to_a s) = ys" for xs ys
proof
  fix s e s'
  assume "bidi_token s \<and> cp_in (a_to_b s) = xs \<and> cp_in (b_to_a s) = ys" "copy_bidirectional e s = Some s'"
  then show "bidi_token s' \<and> cp_in (a_to_b s') = xs \<and> cp_in (b_to_a s') = ys"
    by (cases e rule: side_cases) (auto split: option.splits dest: copy_cancelled_in)
qed

text \<open>A cancelled direction is never stuck: it can always take its next poll.\<close>

lemma copy_cancelled_enabled:
  assumes "copy_inv s" and "\<not> copy_done s"
  shows "\<exists>e s'. copy_with_cancel True e s = Some s'"
proof (cases "cp_pc s")
  case (CopyWrite n rest)
  with assms(1) have "rest \<noteq> []" by (simp add: copy_inv_def)
  with CopyWrite show ?thesis
    by (intro exI [of _ "WriteSome (length rest)"]) (simp add: copy_with_cancel_def)
qed (use assms in \<open>auto simp: copy_with_cancel_def copy_done_conv intro!: exI [of _ Poll]\<close>)

lemma bidi_cancelled_finishes:
  "bidi_inv s \<Longrightarrow> bidi_token s \<Longrightarrow>
     \<exists>es t. run_steps copy_bidirectional es s = Some t \<and> copy_done (a_to_b t) \<and> copy_done (b_to_a t)"
proof (induction "bidi_fuel s" arbitrary: s rule: less_induct)
  case less
  show ?case
  proof (cases "copy_done (a_to_b s) \<and> copy_done (b_to_a s)")
    case True
    then show ?thesis by (intro exI [of _ "[]"] exI [of _ s]) simp
  next
    case False
    have "\<exists>e s'. copy_bidirectional e s = Some s'"
    proof (cases "copy_done (a_to_b s)")
      case True
      with False less.prems copy_cancelled_enabled [of "b_to_a s"] obtain e c where
        "copy_with_cancel True e (b_to_a s) = Some c" by (auto simp: bidi_inv_def)
      with less.prems show ?thesis by (intro exI [of _ "(BtoA, e)"]) simp
    next
      case F: False
      with less.prems copy_cancelled_enabled [of "a_to_b s"] obtain e c where
        "copy_with_cancel True e (a_to_b s) = Some c" by (auto simp: bidi_inv_def)
      with less.prems show ?thesis by (intro exI [of _ "(AtoB, e)"]) simp
    qed
    then obtain e s' where step: "copy_bidirectional e s = Some s'" by blast
    with less cancelled.step_inv cancelled.step_fuel copy_bidirectional_inv obtain es t where
      "run_steps copy_bidirectional es s' = Some t" "copy_done (a_to_b t)" "copy_done (b_to_a t)" by meson
    with step show ?thesis by (intro exI [of _ "e # es"]) simp
  qed
qed

section \<open>Properties\<close>

definition counts_ok :: "copy_result \<Rightarrow> copy_state \<Rightarrow> bool" where
  "counts_ok r s \<longleftrightarrow>
     (case r of
        Inr n \<Rightarrow> cp_out s = cp_in s \<and> n = length (cp_out s)
      | Inl (_, n) \<Rightarrow> n \<le> length (cp_out s) \<and> length (cp_in s) \<le> n + 8192)"

lemma copy_inv_prefix: "copy_inv s \<Longrightarrow> \<exists>rest. cp_in s = cp_out s @ rest"
  by (cases "cp_pc s") (auto simp: copy_inv_def split: sum.splits)

lemma copy_inv_counts: "copy_inv s \<Longrightarrow> cp_pc s = CopyDone r \<Longrightarrow> counts_ok r s"
  by (cases r) (auto simp: copy_inv_def counts_ok_def DEFAULT_BUF_SIZE_def)

lemma bidi_return_counts:
  assumes "run_steps copy_bidirectional es bidi_init = Some s" and "copy_bidirectional_return s \<noteq> None"
  shows "\<exists>ra rb. cp_pc (a_to_b s) = CopyDone ra \<and> cp_pc (b_to_a s) = CopyDone rb \<and>
    counts_ok ra (a_to_b s) \<and> counts_ok rb (b_to_a s) \<and> copy_bidirectional_return s = Some (bidi_result ra rb)"
  using bidi.run_inv [OF bidi_inv_init assms(1)] assms(2)
  by (auto simp: bidi_inv_def copy_inv_counts copy_bidirectional_return_def split: copy_pc.splits)

text \<open>
  C5. The relay delivers what it reads: under every interleaving of the two directions, in each of them
  what was written is at every moment a prefix of what was read, in order and unaltered. When the
  relay returns, a direction that ended without error has written all that it read and reports
  exactly that number of bytes; one that failed reports a count that was certainly
  written and misses at most one 8192-byte buffer of what was read. The first direction's error takes
  precedence.
\<close>

theorem relay_delivers:
  assumes "run_steps copy_bidirectional es bidi_init = Some s"
  shows "(\<exists>rest. cp_in (a_to_b s) = cp_out (a_to_b s) @ rest) \<and>
    (\<exists>rest. cp_in (b_to_a s) = cp_out (b_to_a s) @ rest) \<and>
    (copy_bidirectional_return s \<noteq> None \<longrightarrow>
      (\<exists>ra rb. cp_pc (a_to_b s) = CopyDone ra \<and> cp_pc (b_to_a s) = CopyDone rb \<and>
        counts_ok ra (a_to_b s) \<and> counts_ok rb (b_to_a s) \<and>
        copy_bidirectional_return s = Some (bidi_result ra rb)))"
proof -
  from bidi.run_inv [OF bidi_inv_init assms]
  have inv: "copy_inv (a_to_b s)" "copy_inv (b_to_a s)" by (simp_all add: bidi_inv_def)
  then show ?thesis using copy_inv_prefix bidi_return_counts [OF assms] by blast
qed

theorem relay_delivers_witness:
  "(\<exists>s. run_steps copy_bidirectional
      [(AtoB, Poll), (BtoA, Poll), (AtoB, ReadOk [1, 2]), (BtoA, ReadOk [7]), (AtoB, WriteSome 1),
       (BtoA, WriteSome 1), (AtoB, WriteSome 1), (AtoB, ReadErr (io_err KConnectionReset [])), (BtoA, Poll)]
      bidi_init = Some s \<and> cp_out (a_to_b s) = [1, 2] \<and>
      copy_bidirectional_return s = Some (Inr \<lparr>a_to_b_bytes = 2, b_to_a_bytes = 1\<rparr>))"
proof -
  let ?es = "[(AtoB, Poll), (BtoA, Poll), (AtoB, ReadOk [1, 2]), (BtoA, ReadOk [7]), (AtoB, WriteSome 1),
       (BtoA, WriteSome 1), (AtoB, WriteSome 1), (AtoB, ReadErr (io_err KConnectionReset [])), (BtoA, Poll)]"
  let ?s = "\<lparr>a_to_b = \<lparr>cp_pc = CopyDone (Inr 2), copied = 2, cp_in = [1, 2], cp_out = [1, 2]\<rparr>,
              b_to_a = \<lparr>cp_pc = CopyDone (Inr 1), copied = 1, cp_in = [7], cp_out = [7]\<rparr>, bidi_token = True\<rparr>"
  have run: "run_steps copy_bidirectional ?es bidi_init = Some ?s" by code_simp
  have "copy_bidirectional_return ?s = Some (Inr \<lparr>a_to_b_bytes = 2, b_to_a_bytes = 1\<rparr>)" by code_simp
  with run relay_delivers [OF run] show ?thesis by auto
qed

lemma copy_bidirectional_return_done:
  "copy_done (a_to_b t) \<Longrightarrow> copy_done (b_to_a t) \<Longrightarrow> copy_bidirectional_return t \<noteq> None"
  by (auto simp: copy_done_conv copy_bidirectional_return_def)

text \<open>
  C6. The relay winds down: as soon as one direction has finished, whatever the peers do, nothing more
  is read, only the chunk in flight in the other direction is still written, so at most two polls
  more than the bytes in flight remain, and the relay can always go on until both directions
  have returned.
\<close>

theorem relay_winds_down:
  assumes "run_steps copy_bidirectional es bidi_init = Some s"
    and "copy_done (a_to_b s) \<or> copy_done (b_to_a s)"
  shows "(\<forall>fs t. run_steps copy_bidirectional fs s = Some t \<longrightarrow>
            length fs \<le> bidi_fuel s \<and> cp_in (a_to_b t) = cp_in (a_to_b s) \<and> cp_in (b_to_a t) = cp_in (b_to_a s)) \<and>
         (\<exists>fs t. run_steps copy_bidirectional fs s = Some t \<and> copy_bidirectional_return t \<noteq> None)"
proof
  note inv = bidi.run_inv [OF bidi_inv_init assms(1)]
  with assms(2) have token: "bidi_token s" by (simp add: bidi_inv_def)
  show "\<forall>fs t. run_steps copy_bidirectional fs s = Some t \<longrightarrow>
            length fs \<le> bidi_fuel s \<and> cp_in (a_to_b t) = cp_in (a_to_b s) \<and> cp_in (b_to_a t) = cp_in (b_to_a s)"
    using cancelled.run_length [OF token] cancelled_in.run_inv [of s "cp_in (a_to_b s)" "cp_in (b_to_a s)"] token
    by (meson add_leD1)
  show "\<exists>fs t. run_steps copy_bidirectional fs s = Some t \<and> copy_bidirectional_return t \<noteq> None"
    using bidi_cancelled_finishes [OF inv token] copy_bidirectional_return_done by blast
qed

theorem relay_winds_down_witness:
  "bidi_fuel \<lparr>a_to_b = \<lparr>cp_pc = CopyDone (Inr 0), copied = 0, cp_in = [], cp_out = []\<rparr>,
              b_to_a = copy_init, bidi_token = True\<rparr> = 1 \<and>
   (\<exists>fs t. run_steps copy_bidirectional fs
      \<lparr>a_to_b = \<lparr>cp_pc = CopyDone (Inr 0), copied = 0, cp_in = [], cp_out = []\<rparr>,
       b_to_a = copy_init, bidi_token = True\<rparr> = Some t \<and> copy_bidirectional_return t \<noteq> None)"
proof -
  let ?s = "\<lparr>a_to_b = \<lparr>cp_pc = CopyDone (Inr 0), copied = 0, cp_in = [], cp_out = []\<rparr>,
              b_to_a = copy_init, bidi_token = True\<rparr>"
  have run: "run_steps copy_bidirectional [(AtoB, Poll), (AtoB, ReadOk [])] bidi_init = Some ?s" by code_simp
  have "copy_done (a_to_b ?s) \<or> copy_done (b_to_a ?s)" by code_simp
  note relay_winds_down [OF run this]
  moreover have "bidi_fuel ?s = 1" by code_simp
  ultimately show ?thesis by blast
qed

end
