(* ===== verification/Socks_Endpoint.thy ===== *)
theory Socks_Endpoint
  imports Socks_Protocol Transport_Io
begin

text \<open>
  The SOCKS5 server of the client: \<open>crates/ombrac-client/src/endpoint/socks/mod.rs\<close>. The handlers run on
  the accepted stream; what they take from elsewhere is an argument: the tunnel
  (\<open>Client::open_bidirectional\<close>), the relay (\<open>copy_bidirectional\<close> on this stream and the tunnel stream), and
  the socket operations. The UDP relay loop is a machine whose events are the branches of its
  \<open>select!\<close>.
\<close>

section \<open>Operations\<close>

definition negotiate_method :: "unit tcp_io" where
  "negotiate_method =
     io_bind (read_exact 2) (\<lambda>header.
       if header ! 0 \<noteq> SOCKS_VERSION then io_fail (io_err KInvalidData ''unsupported SOCKS version'')
       else io_bind (read_exact (unat (header ! 1))) (\<lambda>methods.
         if NO_AUTHENTICATION \<notin> set methods
         then io_bind (write_all [SOCKS_VERSION, NO_ACCEPTABLE_METHOD]) (\<lambda>_.
                io_fail (io_err KPermissionDenied ''no acceptable authentication method''))
         else write_all [SOCKS_VERSION, NO_AUTHENTICATION]))"

definition reply_failure :: "socks_reply \<Rightarrow> unit tcp_io" where
  "reply_failure reply = write_all (encode_reply reply UNSPECIFIED)"

type_synonym 'u relay =
  "'u \<Rightarrow> tcp_stream \<Rightarrow> ((io_error \<times> copy_bidirectional_stats) + copy_bidirectional_stats) \<times> tcp_stream"

definition handle_connect ::
    "(address \<Rightarrow> 'u io_result) \<Rightarrow> 'u relay \<Rightarrow> socks_address \<Rightarrow> unit tcp_io" where
  "handle_connect open_bidirectional relay addr =
     (case open_bidirectional (ombrac_from_socks addr) of
        Inl err \<Rightarrow> io_bind (reply_failure (from_connect_error err)) (\<lambda>_. io_fail err)
      | Inr upstream \<Rightarrow>
          io_bind (write_all (encode_reply Succeeded UNSPECIFIED)) (\<lambda>_ s.
            case relay upstream s of
              (Inr _, s') \<Rightarrow> (Inr (), s')
            | (Inl (err, _), s') \<Rightarrow> (Inl err, s')))"

fun bind_addr_for :: "ip_addr \<Rightarrow> socket_addr" where
  "bind_addr_for (IpV4 _) = socket_addr_new (IpV4 (Ipv4 0 0 0 0)) 0"
| "bind_addr_for (IpV6 _) = socket_addr_new (IpV6 (Ipv6 0 0 0 0 0 0 0 0)) 0"

text \<open>
  What \<open>handle_associate\<close> takes from the system: the peer and local address of the control connection,
  \<open>UdpSocket::bind\<close> followed by \<open>local_addr\<close> of the new socket, and the run of the relay loop on the
  control connection.
\<close>

record associate_env =
  env_peer_addr :: "socket_addr io_result"
  env_local_addr :: "socket_addr io_result"
  env_bind :: "socket_addr \<Rightarrow> (socket_addr io_result) io_result"
  env_relay_loop :: "unit tcp_io"

definition handle_associate :: "associate_env \<Rightarrow> unit tcp_io" where
  "handle_associate env =
     (case env_peer_addr env of Inl e \<Rightarrow> io_fail e | Inr peer \<Rightarrow>
     (case env_local_addr env of Inl e \<Rightarrow> io_fail e | Inr local \<Rightarrow>
       (let local_ip = sa_ip local
        in case env_bind env (bind_addr_for local_ip) of Inl e \<Rightarrow> io_fail e | Inr relay_local \<Rightarrow>
          (case relay_local of Inl e \<Rightarrow> io_fail e | Inr l \<Rightarrow>
            (let relay_addr = socket_addr_new local_ip (sa_port l)
             in io_bind (write_all (encode_reply Succeeded (socks_address_from_socket_addr relay_addr)))
                  (\<lambda>_. env_relay_loop env))))))"

definition handle_connection ::
    "(address \<Rightarrow> 'u io_result) \<Rightarrow> 'u relay \<Rightarrow> associate_env \<Rightarrow> unit tcp_io" where
  "handle_connection open_bidirectional relay env =
     io_bind negotiate_method (\<lambda>_.
     io_bind socks_request_read (\<lambda>request.
       case request of
         ReqConnect addr \<Rightarrow> handle_connect open_bidirectional relay addr
       | ReqAssociate _ \<Rightarrow> handle_associate env
       | ReqBind _ \<Rightarrow> reply_failure CommandNotSupported))"

section \<open>The UDP relay loop\<close>

text \<open>
  Events: a byte on the control connection, its end, a packet from the tunnel (with the result of
  the \<open>send_to\<close> on the relay socket, if it comes to that), a datagram on the relay socket (with the result
  of the session's \<open>send_to\<close>) or an error there.
\<close>

datatype relay_event =
    ControlByte u8
  | ControlClosed
  | FromTunnel bytes address "unit io_result"
  | FromClient bytes socket_addr "unit io_result"
  | RelayRecvErr io_error

record udp_relay =
  client_addr :: "socket_addr option"
  to_client :: "(bytes \<times> socket_addr) list"
  to_tunnel :: "(bytes \<times> address) list"
  relay_returned :: "unit io_result option"

definition udp_relay_init :: udp_relay where
  "udp_relay_init = \<lparr>client_addr = None, to_client = [], to_tunnel = [], relay_returned = None\<rparr>"

definition relay_return_if :: "unit io_result \<Rightarrow> udp_relay \<Rightarrow> udp_relay" where
  "relay_return_if r s = (case r of Inl e \<Rightarrow> s\<lparr>relay_returned := Some (Inl e)\<rparr> | Inr _ \<Rightarrow> s)"

definition relay_from_tunnel :: "bytes \<Rightarrow> address \<Rightarrow> unit io_result \<Rightarrow> udp_relay \<Rightarrow> udp_relay" where
  "relay_from_tunnel data source sent s =
     (case client_addr s of
        None \<Rightarrow> s
      | Some dest \<Rightarrow>
          (case socks_try_from_ombrac source of
             Inl e \<Rightarrow> s\<lparr>relay_returned := Some (Inl e)\<rparr>
           | Inr a \<Rightarrow>
               relay_return_if sent
                 (s\<lparr>to_client := to_client s @ [(encode_unfragmented a data, dest)]\<rparr>)))"

definition relay_from_client :: "bytes \<Rightarrow> socket_addr \<Rightarrow> unit io_result \<Rightarrow> udp_relay \<Rightarrow> udp_relay" where
  "relay_from_client datagram src sent s =
     (let s1 = (if client_addr s = None then s\<lparr>client_addr := Some src\<rparr> else s)
      in case socks_udp_from_buf datagram of
           Inl e \<Rightarrow> s1\<lparr>relay_returned := Some (Inl e)\<rparr>
         | Inr packet \<Rightarrow>
             if udp_frag packet \<noteq> 0 then s1
             else relay_return_if sent
                    (s1\<lparr>to_tunnel := to_tunnel s1 @ [(udp_data packet, ombrac_from_socks (udp_address packet))]\<rparr>))"

definition udp_relay_loop :: "relay_event \<Rightarrow> udp_relay \<Rightarrow> udp_relay option" where
  "udp_relay_loop e s =
     (if relay_returned s \<noteq> None then None
      else Some (case e of
          ControlByte _ \<Rightarrow> s
        | ControlClosed \<Rightarrow> s\<lparr>relay_returned := Some (Inr ())\<rparr>
        | FromTunnel data source sent \<Rightarrow> relay_from_tunnel data source sent s
        | FromClient datagram src sent \<Rightarrow> relay_from_client datagram src sent s
        | RelayRecvErr err \<Rightarrow> s\<lparr>relay_returned := Some (Inl err)\<rparr>))"

section \<open>Properties of the handshake and of CONNECT\<close>

lemma negotiate_method_run:
  assumes "in_bytes s = [ver, n] @ methods @ rest" and "length methods = unat n" and "out_room s = None"
  shows "negotiate_method s =
    (if ver \<noteq> 5 then (Inl (io_err KInvalidData ''unsupported SOCKS version''), s\<lparr>in_bytes := methods @ rest\<rparr>)
     else if 0 \<in> set methods
     then (Inr (), s\<lparr>in_bytes := rest, out_bytes := out_bytes s @ [5, 0]\<rparr>)
     else (Inl (io_err KPermissionDenied ''no acceptable authentication method''),
           s\<lparr>in_bytes := rest, out_bytes := out_bytes s @ [5, 255]\<rparr>))"
  using assms
  by (simp add: negotiate_method_def io_simps read_exact_def socks_consts write_all_unlimited)

lemma encode_unspecified [simp]: "socks_address_encode UNSPECIFIED = [1, 0, 0, 0, 0, 0, 0]"
  by (simp add: UNSPECIFIED_def ATYP_IPV4_def to_be16_def)



text \<open>
  Who is turned away: a client of another protocol version is dropped without an answer, and a
  client that does not offer the no-authentication method is answered \<open>0xFF\<close> and dropped with
  \<open>PermissionDenied\<close>; in both cases the handler neither opens a tunnel nor binds a relay, so the outcome
  does not depend on what those would do. BIND is answered with "command not supported".
\<close>

theorem handle_connection_rejects:
  assumes "in_bytes s = [ver, n] @ methods @ rest" and "length methods = unat n" and "out_room s = None"
  shows "(ver \<noteq> 5 \<longrightarrow> handle_connection open_bidi relay env s =
            (Inl (io_err KInvalidData ''unsupported SOCKS version''), s\<lparr>in_bytes := methods @ rest\<rparr>)) \<and>
         (ver = 5 \<longrightarrow> 0 \<notin> set methods \<longrightarrow> handle_connection open_bidi relay env s =
            (Inl (io_err KPermissionDenied ''no acceptable authentication method''),
             s\<lparr>in_bytes := rest, out_bytes := out_bytes s @ [5, 255]\<rparr>)) \<and>
         (ver = 5 \<longrightarrow> 0 \<in> set methods \<longrightarrow> socks_address_ok a \<longrightarrow> rest = [5, 2, rsv] @ socks_address_encode a @ rest' \<longrightarrow>
            handle_connection open_bidi relay env s =
              (Inr (), s\<lparr>in_bytes := rest', out_bytes := out_bytes s @ [5, 0, 5, 7, 0, 1, 0, 0, 0, 0, 0, 0]\<rparr>))"
proof (intro conjI impI)
  assume "ver = 5" "0 \<in> set methods" and a: "socks_address_ok a" and
    rest: "rest = [5, 2, rsv] @ socks_address_encode a @ rest'"
  then have "negotiate_method s = (Inr (), s\<lparr>in_bytes := rest, out_bytes := out_bytes s @ [5, 0]\<rparr>)"
    using negotiate_method_run [OF assms] by simp
  moreover have "socks_request_read (s\<lparr>in_bytes := rest, out_bytes := out_bytes s @ [5, 0]\<rparr>) =
      (Inr (ReqBind a), s\<lparr>in_bytes := rest', out_bytes := out_bytes s @ [5, 0]\<rparr>)"
    using a rest by (simp add: socks_request_read_def io_simps read_exact_def socks_consts socks_read_encode)
  ultimately show "handle_connection open_bidi relay env s =
      (Inr (), s\<lparr>in_bytes := rest', out_bytes := out_bytes s @ [5, 0, 5, 7, 0, 1, 0, 0, 0, 0, 0, 0]\<rparr>)"
    using assms(3)
    by (simp add: handle_connection_def io_simps reply_failure_def encode_reply_def write_all_unlimited SOCKS_VERSION_def)
qed (simp_all add: handle_connection_def io_simps negotiate_method_run [OF assms])

theorem handle_connection_rejects_witness:
  "handle_connection (\<lambda>_. Inr ()) (\<lambda>_ s. (Inr undefined, s))
     \<lparr>env_peer_addr = Inl (io_err KOther []), env_local_addr = Inl (io_err KOther []),
      env_bind = (\<lambda>_. Inl (io_err KOther [])), env_relay_loop = io_return ()\<rparr>
     \<lparr>in_bytes = [5, 1, 2], in_end = io_err KUnexpectedEof [],
      out_bytes = [], out_room = None, out_err = io_err KBrokenPipe []\<rparr> =
   (Inl (io_err KPermissionDenied ''no acceptable authentication method''),
    \<lparr>in_bytes = [], in_end = io_err KUnexpectedEof [],
     out_bytes = [5, 255], out_room = None, out_err = io_err KBrokenPipe []\<rparr>)"
  using handle_connection_rejects [of "\<lparr>in_bytes = [5, 1, 2], in_end = io_err KUnexpectedEof [],
      out_bytes = [], out_room = None, out_err = io_err KBrokenPipe []\<rparr>" 5 1 "[2]" "[]" "\<lambda>_. Inr ()"
      "\<lambda>_ s. (Inr undefined, s)"
      "\<lparr>env_peer_addr = Inl (io_err KOther []), env_local_addr = Inl (io_err KOther []),
        env_bind = (\<lambda>_. Inl (io_err KOther [])), env_relay_loop = io_return ()\<rparr>" UNSPECIFIED 0 "[]"]
  by simp

section \<open>Properties of the UDP relay\<close>

text \<open>The datagrams of a run that the relay may forward, as their payload and destination.\<close>

definition client_sent :: "relay_event list \<Rightarrow> bytes \<Rightarrow> address \<Rightarrow> bool" where
  "client_sent es d a \<longleftrightarrow>
     (\<exists>r0 r1 sa src r. FromClient ([r0, r1, 0] @ socks_address_encode sa @ d) src r \<in> set es \<and>
        socks_address_ok sa \<and> a = ombrac_from_socks sa)"

definition tunnel_sent :: "relay_event list \<Rightarrow> bytes \<Rightarrow> bool" where
  "tunnel_sent es packet \<longleftrightarrow>
     (\<exists>d a sa r. FromTunnel d a r \<in> set es \<and> socks_try_from_ombrac a = Inr sa \<and>
        packet = [0, 0, 0] @ socks_address_encode sa @ d)"

fun first_client :: "relay_event list \<Rightarrow> socket_addr option" where
  "first_client [] = None"
| "first_client (FromClient _ src _ # es) = Some src"
| "first_client (_ # es) = first_client es"

text \<open>The state after the events \<open>es\<close>.\<close>

definition udp_relay_inv :: "relay_event list \<times> udp_relay \<Rightarrow> bool" where
  "udp_relay_inv = (\<lambda>(es, s).
     client_addr s = first_client es \<and>
     (\<forall>(d, a) \<in> set (to_tunnel s). client_sent es d a) \<and>
     (\<forall>(packet, dest) \<in> set (to_client s). client_addr s = Some dest \<and> tunnel_sent es packet))"

lemma client_sent_mono: "client_sent es d a \<Longrightarrow> client_sent (es @ fs) d a"
  unfolding client_sent_def by (metis UnI1 set_append)

lemma tunnel_sent_mono: "tunnel_sent es p \<Longrightarrow> tunnel_sent (es @ fs) p"
  unfolding tunnel_sent_def by (metis UnI1 set_append)

lemma tunnel_sent_snoc:
  "socks_try_from_ombrac a = Inr sa \<Longrightarrow> tunnel_sent (es @ [FromTunnel d a r]) (encode_unfragmented sa d)"
  by (auto simp: tunnel_sent_def encode_unfragmented_def)

lemma first_client_snoc:
  "first_client (es @ [e]) =
     (case first_client es of Some a \<Rightarrow> Some a
      | None \<Rightarrow> (case e of FromClient _ src _ \<Rightarrow> Some src | _ \<Rightarrow> None))"
  by (induction es rule: first_client.induct) (auto split: relay_event.split)

lemma relay_from_tunnel_inv:
  assumes "udp_relay_inv (es, s)"
  shows "udp_relay_inv (es @ [FromTunnel d a r], relay_from_tunnel d a r s)"
  using assms
  by (auto simp: udp_relay_inv_def relay_from_tunnel_def relay_return_if_def first_client_snoc
      client_sent_mono tunnel_sent_mono tunnel_sent_snoc
      split: option.splits sum.splits)

lemma relay_from_client_inv:
  assumes "udp_relay_inv (es, s)"
  shows "udp_relay_inv (es @ [FromClient b src r], relay_from_client b src r s)"
proof -
  let ?s1 = "if client_addr s = None then s\<lparr>client_addr := Some src\<rparr> else s"
  have s1: "udp_relay_inv (es @ [FromClient b src r], ?s1)"
    using assms by (auto simp: udp_relay_inv_def first_client_snoc client_sent_mono tunnel_sent_mono split: option.splits)
  have ret: "udp_relay_inv (hs, t) \<Longrightarrow> udp_relay_inv (hs, t\<lparr>relay_returned := x\<rparr>)" for hs t x
    by (auto simp: udp_relay_inv_def)
  have add: "udp_relay_inv (hs, t) \<Longrightarrow> client_sent hs d a \<Longrightarrow>
      udp_relay_inv (hs, t\<lparr>to_tunnel := to_tunnel t @ [(d, a)]\<rparr>)" for hs t d a
    by (auto simp: udp_relay_inv_def)
  have sent: "client_sent (es @ [FromClient b src r]) d (ombrac_from_socks a)"
    if "socks_udp_from_buf b = Inr \<lparr>udp_frag = 0, udp_address = a, udp_data = d\<rparr>" for a d
    using that socks_udp_from_buf_Inr [OF that] unfolding client_sent_def by fastforce
  show ?thesis
  proof (cases "socks_udp_from_buf b")
    case (Inl e)
    with s1 ret show ?thesis by (simp add: relay_from_client_def Let_def)
  next
    case (Inr p)
    show ?thesis
    proof (cases "udp_frag p = 0")
      case True
      with Inr have "client_sent (es @ [FromClient b src r]) (udp_data p) (ombrac_from_socks (udp_address p))"
        by (intro sent) (metis (full_types) socks_udp_packet.surjective unit.exhaust)
      with s1 have "udp_relay_inv (es @ [FromClient b src r],
          ?s1\<lparr>to_tunnel := to_tunnel ?s1 @ [(udp_data p, ombrac_from_socks (udp_address p))]\<rparr>)"
        by (intro add)
      with Inr True ret show ?thesis
        by (cases r) (simp_all add: relay_from_client_def Let_def relay_return_if_def)
    next
      case False
      with Inr s1 show ?thesis by (simp add: relay_from_client_def Let_def)
    qed
  qed
qed

lemma udp_relay_inv_silent:
  assumes "udp_relay_inv (es, s)" and "\<And>b src r. e \<noteq> FromClient b src r"
  shows "udp_relay_inv (es @ [e], s)" and "udp_relay_inv (es @ [e], s\<lparr>relay_returned := x\<rparr>)"
  using assms
  by (auto simp: udp_relay_inv_def first_client_snoc client_sent_mono tunnel_sent_mono
      split: option.splits relay_event.splits)

interpretation udp_relay: invariant_machine "logged udp_relay_loop" udp_relay_inv
proof
  fix s e s'
  assume inv: "udp_relay_inv s" and step: "logged udp_relay_loop e s = Some s'"
  obtain es t where s: "s = (es, t)" by fastforce
  with step have "relay_returned t = None" by (auto simp: logged_def udp_relay_loop_def split: if_splits)
  with inv step s show "udp_relay_inv s'"
    by (cases e) (auto simp: logged_def udp_relay_loop_def relay_from_tunnel_inv relay_from_client_inv
        intro: udp_relay_inv_silent)
qed

text \<open>
  The UDP relay of an association forwards nothing it was not given: every packet sent into the
  tunnel is the payload and destination of an unfragmented, well-formed datagram received on
  the relay socket, every datagram sent on the relay socket is a tunnel packet under a SOCKS header
  with its source address, and all of them go to the source of the first datagram received.
\<close>

theorem udp_relay_forwards:
  assumes "run_steps udp_relay_loop es udp_relay_init = Some s"
  shows "client_addr s = first_client es \<and>
    (\<forall>(d, a) \<in> set (to_tunnel s). client_sent es d a) \<and>
    (\<forall>(packet, dest) \<in> set (to_client s). first_client es = Some dest \<and> tunnel_sent es packet)"
proof -
  have "run_steps (logged udp_relay_loop) es ([], udp_relay_init) = Some (es, s)"
    using assms by (simp add: run_logged)
  moreover have "udp_relay_inv ([], udp_relay_init)" by (simp add: udp_relay_inv_def udp_relay_init_def)
  ultimately have "udp_relay_inv (es, s)" using udp_relay.run_inv by blast
  then show ?thesis by (auto simp: udp_relay_inv_def)
qed

theorem udp_relay_forwards_witness:
  "\<exists>s. run_steps udp_relay_loop
     [FromTunnel [9] (Domain [97] 1) (Inr ()), FromClient [0, 0, 0, 3, 1, 97, 0, 1, 42] (socket_addr_new (IpV4 (Ipv4 1 2 3 4)) 5) (Inr ()),
      FromTunnel [43] (Domain [97] 1) (Inr ()), ControlClosed] udp_relay_init = Some s \<and>
     to_tunnel s = [([42], Domain [97] 1)] \<and>
     to_client s = [([0, 0, 0, 3, 1, 97, 0, 1, 43], socket_addr_new (IpV4 (Ipv4 1 2 3 4)) 5)] \<and>
     client_addr s = Some (socket_addr_new (IpV4 (Ipv4 1 2 3 4)) 5)"
proof -
  let ?es = "[FromTunnel [9] (Domain [97] 1) (Inr ()), FromClient [0, 0, 0, 3, 1, 97, 0, 1, 42] (socket_addr_new (IpV4 (Ipv4 1 2 3 4)) 5) (Inr ()),
      FromTunnel [43] (Domain [97] 1) (Inr ()), ControlClosed]"
  let ?c = "socket_addr_new (IpV4 (Ipv4 1 2 3 4)) 5"
  let ?s = "\<lparr>client_addr = Some ?c, to_client = [([0, 0, 0, 3, 1, 97, 0, 1, 43], ?c)],
              to_tunnel = [([42], Domain [97] 1)], relay_returned = Some (Inr ())\<rparr>"
  have "run_steps udp_relay_loop ?es udp_relay_init = Some ?s" by code_simp
  with udp_relay_forwards [OF this] show ?thesis by auto
qed

end
