(* ===== verification/Byte_Stream.thy ===== *)
theory Byte_Stream
  imports Tcp_Io
begin

text \<open>
  The reading side of \<open>AsyncRead\<close> as an interface. A source has a content, the bytes it will still
  deliver; one \<open>poll_read\<close> with room for \<open>n\<close> bytes is pending, fails, or takes at most \<open>n\<close> bytes off the
  front of the content. The argument \<open>ready\<close> says how many bytes have arrived at that poll.
\<close>

datatype read_poll = ReadPending | ReadReady bytes | ReadFail io_error

fun read_polls ::
    "(nat \<Rightarrow> nat \<Rightarrow> 's \<Rightarrow> read_poll \<times> 's) \<Rightarrow> (nat \<times> nat) list \<Rightarrow> 's \<Rightarrow> bytes \<times> 's" where
  "read_polls poll_read [] s = ([], s)"
| "read_polls poll_read ((ready, n) # ps) s =
     (let (r, s1) = poll_read ready n s; (bs, s2) = read_polls poll_read ps s1
      in ((case r of ReadReady xs \<Rightarrow> xs | _ \<Rightarrow> []) @ bs, s2))"

locale byte_source =
  fixes content :: "'s \<Rightarrow> bytes" and poll_read :: "nat \<Rightarrow> nat \<Rightarrow> 's \<Rightarrow> read_poll \<times> 's" and inv :: "'s \<Rightarrow> bool"
  assumes poll_ready: "inv s \<Longrightarrow> poll_read ready n s = (ReadReady bs, s') \<Longrightarrow>
      content s = bs @ content s' \<and> length bs \<le> n"
    and poll_other: "inv s \<Longrightarrow> poll_read ready n s = (r, s') \<Longrightarrow> \<forall>bs. r \<noteq> ReadReady bs \<Longrightarrow> content s' = content s"
    and poll_inv: "inv s \<Longrightarrow> poll_read ready n s = (r, s') \<Longrightarrow> inv s'"
begin

text \<open>Nothing is lost, repeated or reordered, however the reads are cut.\<close>

lemma read_polls_content:
  "inv s \<Longrightarrow> read_polls poll_read ps s = (bs, s') \<Longrightarrow> content s = bs @ content s' \<and> inv s'"
proof (induction ps arbitrary: s bs)
  case Nil
  then show ?case by simp
next
  case (Cons p ps)
  obtain ready n where p: "p = (ready, n)" by fastforce
  obtain r s1 where r: "poll_read ready n s = (r, s1)" by fastforce
  obtain bs1 where rest: "read_polls poll_read ps s1 = (bs1, s')"
    and bs: "bs = (case r of ReadReady xs \<Rightarrow> xs | _ \<Rightarrow> []) @ bs1"
    using Cons.prems p r by (auto split: prod.splits)
  from Cons.IH [OF poll_inv [OF Cons.prems(1) r] rest] bs show ?case
    using poll_ready [OF Cons.prems(1)] poll_other [OF Cons.prems(1) r] r by (cases r) auto
qed

end

section \<open>A stream of the transport\<close>

definition tcp_poll_read :: "nat \<Rightarrow> nat \<Rightarrow> tcp_stream \<Rightarrow> read_poll \<times> tcp_stream" where
  "tcp_poll_read ready n s =
     (if in_bytes s = [] then (ReadReady [], s)
      else if ready = 0 then (ReadPending, s)
      else let k = min ready n in (ReadReady (take k (in_bytes s)), s\<lparr>in_bytes := drop k (in_bytes s)\<rparr>))"

interpretation tcp: byte_source in_bytes tcp_poll_read "\<lambda>_. True"
  by unfold_locales (auto simp: tcp_poll_read_def Let_def split: if_splits)

end
