(* ===== verification/Metrics.thy ===== *)
theory Metrics
  imports Ombrac_Prelude
begin

text \<open>
  The runtime counters of \<open>crates/ombrac/src/metrics.rs\<close>. The counters are \<open>AtomicU64\<close>s, so each addition
  wraps at 64 bits; a handle is shared by all clones, so a component's state holds one record.
\<close>

record counters =
  connections_accepted :: u64
  connections_rejected :: u64
  connections_auth_failed :: u64
  streams_opened :: u64
  streams_closed :: u64
  streams_failed :: u64
  udp_sessions_opened :: u64
  udp_sessions_closed :: u64
  bytes_rx :: u64
  bytes_tx :: u64
  reassemblies_completed :: u64
  reassembly_drops :: u64
  reconnect_attempts :: u64
  reconnect_succeeded :: u64

definition metrics_new :: counters where
  "metrics_new =
     \<lparr>connections_accepted = 0, connections_rejected = 0, connections_auth_failed = 0,
      streams_opened = 0, streams_closed = 0, streams_failed = 0,
      udp_sessions_opened = 0, udp_sessions_closed = 0, bytes_rx = 0, bytes_tx = 0,
      reassemblies_completed = 0, reassembly_drops = 0, reconnect_attempts = 0, reconnect_succeeded = 0\<rparr>"

record metrics_snapshot =
  snap_connections_accepted :: u64
  snap_connections_rejected :: u64
  snap_connections_auth_failed :: u64
  snap_streams_opened :: u64
  snap_streams_closed :: u64
  snap_streams_failed :: u64
  snap_udp_sessions_opened :: u64
  snap_udp_sessions_closed :: u64
  snap_bytes_rx :: u64
  snap_bytes_tx :: u64
  snap_reassemblies_completed :: u64
  snap_reassembly_drops :: u64
  snap_reconnect_attempts :: u64
  snap_reconnect_succeeded :: u64

text \<open>
  \<open>Metrics::snapshot\<close> loads the counters one after the other while other tasks add to them: \<open>at k\<close> is what the counters
  are at the load with number \<open>k\<close>. \<open>snapshot c\<close> is the case in which nothing happens between the loads.
\<close>

definition snapshot_at :: "(nat \<Rightarrow> counters) \<Rightarrow> metrics_snapshot" where
  "snapshot_at at =
     \<lparr>snap_connections_accepted = connections_accepted (at 0),
      snap_connections_rejected = connections_rejected (at 1),
      snap_connections_auth_failed = connections_auth_failed (at 2),
      snap_streams_opened = streams_opened (at 3),
      snap_streams_closed = streams_closed (at 4),
      snap_streams_failed = streams_failed (at 5),
      snap_udp_sessions_opened = udp_sessions_opened (at 6),
      snap_udp_sessions_closed = udp_sessions_closed (at 7),
      snap_bytes_rx = bytes_rx (at 8),
      snap_bytes_tx = bytes_tx (at 9),
      snap_reassemblies_completed = reassemblies_completed (at 10),
      snap_reassembly_drops = reassembly_drops (at 11),
      snap_reconnect_attempts = reconnect_attempts (at 12),
      snap_reconnect_succeeded = reconnect_succeeded (at 13)\<rparr>"

definition snapshot :: "counters \<Rightarrow> metrics_snapshot" where
  "snapshot c = snapshot_at (\<lambda>_. c)"

lemma metrics_new_zero [simp]:
  "connections_accepted metrics_new = 0" "connections_rejected metrics_new = 0"
  "connections_auth_failed metrics_new = 0" "streams_opened metrics_new = 0"
  "streams_closed metrics_new = 0" "streams_failed metrics_new = 0"
  "udp_sessions_opened metrics_new = 0" "udp_sessions_closed metrics_new = 0"
  "bytes_rx metrics_new = 0" "bytes_tx metrics_new = 0"
  "reassemblies_completed metrics_new = 0" "reassembly_drops metrics_new = 0"
  "reconnect_attempts metrics_new = 0" "reconnect_succeeded metrics_new = 0"
  by (simp_all add: metrics_new_def)

end
