(* ===== verification/Client_Connection.thy ===== *)
theory Client_Connection
  imports Complex_Main Protocol Std_Text Metrics Machine
begin

text \<open>
  The client's connection to the server: \<open>crates/ombrac-client/src/connection/mod.rs\<close>. Operations on the
  connection run under \<open>with_retry\<close>; a lost connection makes the task reconnect under a mutex, with an
  exponential backoff. Many tasks share the connection, so \<open>with_retry\<close> and \<open>reconnect\<close> are a machine
  whose state has the shared fields and the program point of every task; a step is what one
  task does between two points where others may run (loads and stores of atomics, awaits).
  What the transport does (rebinding, connecting, the result of the wrapped operation) comes
  with the events. The backoff arithmetic on \<open>f64\<close> is done on rational numbers.
\<close>

section \<open>Backoff\<close>

definition INITIAL_RECONNECT_BACKOFF :: duration where
  "INITIAL_RECONNECT_BACKOFF = 1000000000"

definition MAX_RECONNECT_BACKOFF :: duration where
  "MAX_RECONNECT_BACKOFF = 60000000000"

text \<open>\<open>backoff_jitter\<close>, for the nanoseconds of the wall clock (\<open>subsec_nanos\<close>, below one billion).\<close>

definition backoff_jitter :: "nat \<Rightarrow> rat" where
  "backoff_jitter nanos = 8 / 10 + (of_nat nanos / 1000000000) * (4 / 10)"

text \<open>\<open>next_backoff\<close>; \<open>Duration::from_secs_f64\<close> rounds to the nearest nanosecond.\<close>

definition next_backoff :: "nat \<Rightarrow> duration \<Rightarrow> duration" where
  "next_backoff nanos current =
     (let doubled = min (current * 2) MAX_RECONNECT_BACKOFF;
          jittered = of_nat doubled * backoff_jitter nanos;
          capped = min jittered (of_nat MAX_RECONNECT_BACKOFF)
      in nat (round capped))"

record reconnect_state =
  last_attempt :: "duration option"
  backoff :: duration

definition reconnect_state_default :: reconnect_state where
  "reconnect_state_default = \<lparr>last_attempt = None, backoff = INITIAL_RECONNECT_BACKOFF\<rparr>"

definition is_connection_error :: "io_error \<Rightarrow> bool" where
  "is_connection_error e \<longleftrightarrow>
     err_kind e \<in> {KConnectionReset, KConnectionAborted, KBrokenPipe, KNotConnected, KTimedOut,
                   KUnexpectedEof, KNetworkUnreachable, KNetworkDown}"

section \<open>Authentication\<close>

text \<open>
  \<open>authenticate\<close>: the results of the awaits in the order the code takes them, and whether the
  10 second timeout fires first. \<open>encode\<close> and \<open>decode\<close> are the serialisation; \<open>next\<close> is the
  next frame of the stream.
\<close>

record 'c auth_env =
  auth_timeout :: bool
  auth_connect :: "'c io_result"
  auth_open :: "unit io_result"
  auth_encode :: "client_message \<Rightarrow> bytes io_result"
  auth_send :: "bytes \<Rightarrow> unit io_result"
  auth_next :: "bytes io_result option"
  auth_decode :: "bytes \<Rightarrow> server_auth_response io_result"
  auth_shutdown :: "unit io_result"

definition hello_message :: "secret \<Rightarrow> bytes \<Rightarrow> client_message" where
  "hello_message secret options =
     Hello \<lparr>hello_version = PROTOCOL_VERSION, hello_secret = secret, hello_options = options\<rparr>"

definition do_auth :: "'c auth_env \<Rightarrow> secret \<Rightarrow> bytes \<Rightarrow> 'c io_result" where
  "do_auth env secret options =
     (case auth_connect env of Inl e \<Rightarrow> Inl e | Inr connection \<Rightarrow>
     (case auth_open env of Inl e \<Rightarrow> Inl e | Inr _ \<Rightarrow>
     (case auth_encode env (hello_message secret options) of Inl e \<Rightarrow> Inl e | Inr encoded \<Rightarrow>
     (case auth_send env encoded of Inl e \<Rightarrow> Inl e | Inr _ \<Rightarrow>
     (case auth_next env of
        None \<Rightarrow> Inl (io_err KUnexpectedEof ''connection closed by server during authentication'')
      | Some (Inl e) \<Rightarrow> Inl e
      | Some (Inr payload) \<Rightarrow>
          (case auth_decode env payload of
             Inl e \<Rightarrow> Inl e
           | Inr AuthOk \<Rightarrow> (case auth_shutdown env of Inl e \<Rightarrow> Inl e | Inr _ \<Rightarrow> Inr connection)
           | Inr AuthErr \<Rightarrow> Inl (io_err KOther ''authentication failed'')))))))"

definition authenticate :: "'c auth_env \<Rightarrow> secret \<Rightarrow> bytes \<Rightarrow> 'c io_result" where
  "authenticate env secret options =
     (if auth_timeout env
      then Inl (io_err KTimedOut ''client authentication timed out after 10s'')
      else do_auth env secret options)"

section \<open>The connection and its tasks\<close>

record 'c client_connection =
  connection :: 'c
  connection_id :: u64
  reconnect_lock :: reconnect_state
  cc_secret :: secret
  cc_options :: bytes
  cc_metrics :: counters

definition client_connection_new :: "'c auth_env \<Rightarrow> secret \<Rightarrow> bytes option \<Rightarrow> 'c client_connection io_result" where
  "client_connection_new env secret options =
     (let opts = unwrap_or options []
      in case authenticate env secret opts of
           Inl e \<Rightarrow> Inl e
         | Inr conn \<Rightarrow>
             Inr \<lparr>connection = conn, connection_id = 0, reconnect_lock = reconnect_state_default,
                  cc_secret = secret, cc_options = opts, cc_metrics = metrics_new\<rparr>)"

text \<open>
  The program points of a task in \<open>with_retry\<close> and \<open>reconnect\<close>: not in a call; the connection loaded;
  in the first run of the operation; waiting for the mutex; inside \<open>rebind\<close>, \<open>authenticate\<close>, and
  between the store of the new connection and of its identifier (all three with the mutex); sleeping
  out the backoff; before the second load; in the second run; returned.
\<close>

datatype 'c task =
    TIdle
  | TLoaded 'c
  | TFirst 'c u64
  | TLock u64
  | TRebind u64
  | TAuth u64
  | TBump u64
  | TSleep duration
  | TReload
  | TSecond 'c
  | TReturn "unit io_result"

record 'c retry_state =
  shared :: "'c client_connection"
  lock_holder :: "nat option"
  tasks :: "nat \<Rightarrow> 'c task"

datatype 'c retry_event =
    LoadConnection
  | LoadId
  | OpResult "unit io_result"
  | Acquire duration
  | RebindResult "unit io_result" nat
  | AuthResult "'c auth_env" nat
  | StoreId
  | Woken
  | Reload

definition set_task :: "nat \<Rightarrow> 'c task \<Rightarrow> 'c retry_state \<Rightarrow> 'c retry_state" where
  "set_task i t s = s\<lparr>tasks := (tasks s)(i := t)\<rparr>"

text \<open>\<open>with_retry\<close>, outside \<open>reconnect\<close>\<close>

definition with_retry :: "nat \<times> 'c retry_event \<Rightarrow> 'c retry_state \<Rightarrow> 'c retry_state option" where
  "with_retry = (\<lambda>(i, e) s.
     case (tasks s i, e) of
       (TIdle, LoadConnection) \<Rightarrow> Some (set_task i (TLoaded (connection (shared s))) s)
     | (TLoaded c, LoadId) \<Rightarrow> Some (set_task i (TFirst c (connection_id (shared s))) s)
     | (TFirst c old_conn_id, OpResult r) \<Rightarrow>
         (case r of
            Inr _ \<Rightarrow> Some (set_task i (TReturn r) s)
          | Inl err \<Rightarrow>
              if is_connection_error err then Some (set_task i (TLock old_conn_id) s)
              else Some (set_task i (TReturn (Inl err)) s))
     | (TReload, Reload) \<Rightarrow> Some (set_task i (TSecond (connection (shared s))) s)
     | (TSecond c, OpResult r) \<Rightarrow> Some (set_task i (TReturn r) s)
     | _ \<Rightarrow> None)"

text \<open>\<open>reconnect\<close>: with the mutex just acquired at time \<open>now\<close>, after \<open>rebind\<close>, after \<open>authenticate\<close>, and
  after the store of the new connection.\<close>

definition bump_attempts :: "counters \<Rightarrow> counters" where
  "bump_attempts m = m\<lparr>reconnect_attempts := reconnect_attempts m + 1\<rparr>"

definition bump_succeeded :: "counters \<Rightarrow> counters" where
  "bump_succeeded m = m\<lparr>reconnect_succeeded := reconnect_succeeded m + 1\<rparr>"

definition reconnect_locked :: "nat \<Rightarrow> u64 \<Rightarrow> duration \<Rightarrow> 'c retry_state \<Rightarrow> 'c retry_state" where
  "reconnect_locked i old_conn_id now s =
     (let c = shared s; st = reconnect_lock c
      in if connection_id c \<noteq> old_conn_id then set_task i TReload s
         else if (case last_attempt st of None \<Rightarrow> False | Some l \<Rightarrow> now - l < backoff st)
         then set_task i (TSleep (backoff st - (now - the (last_attempt st)))) s
         else set_task i (TRebind old_conn_id)
                (s\<lparr>lock_holder := Some i,
                   shared := c\<lparr>reconnect_lock := st\<lparr>last_attempt := Some now\<rparr>,
                               cc_metrics := bump_attempts (cc_metrics c)\<rparr>\<rparr>))"

definition reconnect_failed :: "nat \<Rightarrow> io_error \<Rightarrow> nat \<Rightarrow> 'c retry_state \<Rightarrow> 'c retry_state" where
  "reconnect_failed i err nanos s =
     (let c = shared s; st = reconnect_lock c
      in set_task i (TReturn (Inl err))
           (s\<lparr>lock_holder := None,
              shared := c\<lparr>reconnect_lock := st\<lparr>backoff := next_backoff nanos (backoff st)\<rparr>\<rparr>\<rparr>))"

definition reconnect :: "nat \<times> 'c retry_event \<Rightarrow> 'c retry_state \<Rightarrow> 'c retry_state option" where
  "reconnect = (\<lambda>(i, e) s.
     case (tasks s i, e) of
       (TLock old_conn_id, Acquire now) \<Rightarrow>
         (if lock_holder s = None then Some (reconnect_locked i old_conn_id now s) else None)
     | (TSleep _, Woken) \<Rightarrow> Some (set_task i (TReturn (Inl (io_err KOther ''reconnect throttled''))) s)
     | (TRebind old_conn_id, RebindResult r nanos) \<Rightarrow>
         (case r of
            Inl err \<Rightarrow> Some (reconnect_failed i err nanos s)
          | Inr _ \<Rightarrow> Some (set_task i (TAuth old_conn_id) s))
     | (TAuth old_conn_id, AuthResult env nanos) \<Rightarrow>
         (let c = shared s
          in case authenticate env (cc_secret c) (cc_options c) of
               Inl err \<Rightarrow> Some (reconnect_failed i err nanos s)
             | Inr new_connection \<Rightarrow>
                 Some (set_task i (TBump old_conn_id)
                   (s\<lparr>shared := c\<lparr>reconnect_lock := reconnect_state_default, connection := new_connection\<rparr>\<rparr>)))
     | (TBump old_conn_id, StoreId) \<Rightarrow>
         (let c = shared s
          in Some (set_task i TReload
               (s\<lparr>lock_holder := None,
                  shared := c\<lparr>connection_id := connection_id c + 1,
                              cc_metrics := bump_succeeded (cc_metrics c)\<rparr>\<rparr>)))
     | _ \<Rightarrow> None)"

text \<open>A task takes a step in \<open>with_retry\<close> or in \<open>reconnect\<close>; the program points of the two are disjoint.\<close>

definition retry_step :: "nat \<times> 'c retry_event \<Rightarrow> 'c retry_state \<Rightarrow> 'c retry_state option" where
  "retry_step e s = (case with_retry e s of Some s' \<Rightarrow> Some s' | None \<Rightarrow> reconnect e s)"

definition retry_init :: "'c client_connection \<Rightarrow> 'c retry_state" where
  "retry_init c = \<lparr>shared = c, lock_holder = None, tasks = (\<lambda>_. TIdle)\<rparr>"

section \<open>Backoff bounds\<close>

lemma backoff_jitter_bounds: "nanos < 1000000000 \<Longrightarrow> 8 / 10 \<le> backoff_jitter nanos \<and> backoff_jitter nanos < 12 / 10"
proof -
  assume "nanos < 1000000000"
  then have "of_nat nanos < (1000000000 :: rat)" by (metis of_nat_less_iff of_nat_numeral)
  then show ?thesis by (simp add: backoff_jitter_def)
qed

lemma next_backoff_bounds:
  assumes "1000000000 \<le> current" and "nanos < 1000000000"
  shows "1000000000 \<le> next_backoff nanos current" and "next_backoff nanos current \<le> 60000000000"
proof -
  let ?d = "min (current * 2) MAX_RECONNECT_BACKOFF"
  let ?c = "min (of_nat ?d * backoff_jitter nanos) (of_nat MAX_RECONNECT_BACKOFF)"
  have d: "2000000000 \<le> ?d" using assms by (simp add: MAX_RECONNECT_BACKOFF_def)
  then have d': "(2000000000 :: rat) \<le> of_nat ?d" by (metis of_nat_le_iff of_nat_numeral)
  have j: "8 / 10 \<le> backoff_jitter nanos" using backoff_jitter_bounds [OF assms(2)] by simp
  have "2000000000 * (8 / 10) \<le> of_nat ?d * backoff_jitter nanos"
    using mult_mono [OF d' j] by simp
  then have "(1000000000 :: rat) \<le> ?c" by (simp add: MAX_RECONNECT_BACKOFF_def)
  then have "(1000000000 :: int) \<le> round ?c" using round_mono [of "1000000000" ?c] by simp
  then show "1000000000 \<le> next_backoff nanos current"
    unfolding next_backoff_def Let_def by linarith
  have "?c \<le> 60000000000" by (simp add: MAX_RECONNECT_BACKOFF_def)
  then have "round ?c \<le> 60000000000" using round_mono [of ?c "60000000000"] by simp
  then show "next_backoff nanos current \<le> 60000000000"
    unfolding next_backoff_def Let_def by linarith
qed

section \<open>Invariants of the tasks\<close>

fun reconnecting :: "'c task \<Rightarrow> u64 option" where
  "reconnecting (TRebind old) = Some old"
| "reconnecting (TAuth old) = Some old"
| "reconnecting (TBump old) = Some old"
| "reconnecting _ = None"

text \<open>The mutex is held exactly by the task that reconnects, and that task does so for the current
  connection.\<close>

definition retry_inv :: "'c retry_state \<Rightarrow> bool" where
  "retry_inv s \<longleftrightarrow>
     (\<forall>i. reconnecting (tasks s i) = (if lock_holder s = Some i then Some (connection_id (shared s)) else None))"

lemmas retry_step_defs = retry_step_def with_retry_def reconnect_def reconnect_locked_def
  reconnect_failed_def set_task_def Let_def

lemma retry_inv_task: "retry_inv s \<Longrightarrow> tasks s i = t \<Longrightarrow>
    reconnecting t = (if lock_holder s = Some i then Some (connection_id (shared s)) else None)"
  by (auto simp: retry_inv_def)

lemma retry_step_inv:
  assumes inv: "retry_inv s" and step: "retry_step (i, e) s = Some s'"
  shows "retry_inv s'"
  using assms retry_inv_task [OF inv refl, of i]
  by (cases "tasks s i"; cases e)
    (auto simp: retry_step_defs retry_inv_def split: if_splits sum.splits option.splits)

interpretation retry: invariant_machine retry_step retry_inv
  by unfold_locales (auto intro: retry_step_inv)

lemma retry_inv_init: "retry_inv (retry_init c)"
  by (simp add: retry_inv_def retry_init_def)

text \<open>What a step does to the shared connection.\<close>

lemma retry_step_shared:
  assumes "retry_step (i, e) s = Some s'"
  shows "shared s' = shared s \<or>
    (\<exists>now. e = Acquire now \<and> shared s' = (shared s)\<lparr>
        reconnect_lock := (reconnect_lock (shared s))\<lparr>last_attempt := Some now\<rparr>,
        cc_metrics := bump_attempts (cc_metrics (shared s))\<rparr>) \<or>
    (\<exists>nanos. (\<exists>r. e = RebindResult r nanos \<or> (\<exists>env. e = AuthResult env nanos)) \<and>
        shared s' = (shared s)\<lparr>reconnect_lock := (reconnect_lock (shared s))
          \<lparr>backoff := next_backoff nanos (backoff (reconnect_lock (shared s)))\<rparr>\<rparr>) \<or>
    (\<exists>c. shared s' = (shared s)\<lparr>reconnect_lock := reconnect_state_default, connection := c\<rparr>) \<or>
    (e = StoreId \<and> shared s' = (shared s)\<lparr>connection_id := connection_id (shared s) + 1,
        cc_metrics := bump_succeeded (cc_metrics (shared s))\<rparr>)"
  using assms
  by (cases "tasks s i"; cases e)
    (auto simp: retry_step_defs split: if_splits sum.splits option.splits)

fun is_store :: "nat \<times> 'c retry_event \<Rightarrow> bool" where
  "is_store (_, StoreId) = True"
| "is_store _ = False"

lemma retry_step_id:
  assumes "retry_step ev s = Some s'"
  shows "connection_id (shared s') = connection_id (shared s) + (if is_store ev then 1 else 0)"
    and "reconnect_succeeded (cc_metrics (shared s')) =
           reconnect_succeeded (cc_metrics (shared s)) + (if is_store ev then 1 else 0)"
  using assms
  by (cases ev, cases "tasks s (fst ev)"; cases "snd ev";
      auto simp: retry_step_defs bump_attempts_def bump_succeeded_def split: if_splits sum.splits option.splits)+

lemma retry_run_id:
  "run_steps retry_step es s = Some s' \<Longrightarrow>
     connection_id (shared s') = connection_id (shared s) + of_nat (length (filter is_store es)) \<and>
     reconnect_succeeded (cc_metrics (shared s')) =
       reconnect_succeeded (cc_metrics (shared s)) + of_nat (length (filter is_store es))"
proof (induction es arbitrary: s)
  case (Cons e es)
  from Cons.prems obtain t where t: "retry_step e s = Some t" "run_steps retry_step es t = Some s'"
    by (auto elim: run_steps_Cons_SomeE simp del: run_steps.simps)
  from Cons.IH [OF t(2)] retry_step_id [OF t(1)] show ?case by simp
qed simp

text \<open>
  C4. Reconnection is single-flight: under every interleaving of the tasks that use the connection,
  at most one is reconnecting, and it does so for the connection that is current; the connection
  identifier counts the successful reconnections, as does the metric; and a task that gets the mutex
  after the connection it failed on was replaced starts no attempt and changes nothing, but goes
  on with the new connection.
\<close>

theorem reconnect_single_flight:
  assumes "run_steps retry_step es (retry_init c) = Some s"
  shows "(\<forall>i j. reconnecting (tasks s i) \<noteq> None \<longrightarrow> reconnecting (tasks s j) \<noteq> None \<longrightarrow> i = j) \<and>
    (\<forall>i old. reconnecting (tasks s i) = Some old \<longrightarrow> connection_id (shared s) = old) \<and>
    connection_id (shared s) = connection_id c + of_nat (length (filter is_store es)) \<and>
    reconnect_succeeded (cc_metrics (shared s)) =
      reconnect_succeeded (cc_metrics c) + of_nat (length (filter is_store es)) \<and>
    (\<forall>j old now s'. tasks s j = TLock old \<longrightarrow> connection_id (shared s) \<noteq> old \<longrightarrow>
       retry_step (j, Acquire now) s = Some s' \<longrightarrow> shared s' = shared s \<and> tasks s' j = TReload)"
proof -
  have inv: "retry_inv s" by (rule retry.run_inv [OF retry_inv_init assms])
  have A: "reconnecting (tasks s i) \<noteq> None \<Longrightarrow> reconnecting (tasks s j) \<noteq> None \<Longrightarrow> i = j" for i j
    using retry_inv_task [OF inv refl, of i] retry_inv_task [OF inv refl, of j] by (auto split: if_splits)
  have B: "reconnecting (tasks s i) = Some old \<Longrightarrow> connection_id (shared s) = old" for i old
    using retry_inv_task [OF inv refl, of i] by (auto split: if_splits)
  have C: "tasks s j = TLock old \<Longrightarrow> connection_id (shared s) \<noteq> old \<Longrightarrow>
      retry_step (j, Acquire now) s = Some s' \<Longrightarrow> shared s' = shared s \<and> tasks s' j = TReload" for j old now s'
    by (auto simp: retry_step_defs split: if_splits)
  have D: "connection_id (shared s) = connection_id c + of_nat (length (filter is_store es)) \<and>
      reconnect_succeeded (cc_metrics (shared s)) =
        reconnect_succeeded (cc_metrics c) + of_nat (length (filter is_store es))"
    using retry_run_id [OF assms] by (simp add: retry_init_def)
  from A B C D show ?thesis by blast
qed

definition sample_auth :: "nat auth_env" where
  "sample_auth =
     \<lparr>auth_timeout = False, auth_connect = Inr 7, auth_open = Inr (), auth_encode = (\<lambda>_. Inr []),
      auth_send = (\<lambda>_. Inr ()), auth_next = Some (Inr []), auth_decode = (\<lambda>_. Inr AuthOk), auth_shutdown = Inr ()\<rparr>"

definition sample_connection :: "nat client_connection" where
  "sample_connection =
     \<lparr>connection = 3, connection_id = 0, reconnect_lock = reconnect_state_default, cc_secret = [], cc_options = [],
      cc_metrics = metrics_new\<rparr>"

definition sample_run :: "(nat \<times> nat retry_event) list" where
  "sample_run =
     [(0, LoadConnection), (1, LoadConnection), (0, LoadId), (1, LoadId),
      (0, OpResult (Inl (io_err KConnectionReset []))), (1, OpResult (Inl (io_err KConnectionReset []))),
      (0, Acquire 5), (0, RebindResult (Inr ()) 0), (0, AuthResult sample_auth 0), (0, StoreId)]"

theorem reconnect_single_flight_witness:
  "\<exists>s. run_steps retry_step sample_run (retry_init sample_connection) = Some s \<and>
     connection_id (shared s) = 1 \<and> tasks s 1 = TLock 0 \<and>
     (\<forall>s'. retry_step (1, Acquire 6) s = Some s' \<longrightarrow> shared s' = shared s \<and> tasks s' 1 = TReload)"
proof -
  have facts: "map_option (\<lambda>s. (connection_id (shared s), tasks s 1))
      (run_steps retry_step sample_run (retry_init sample_connection)) = Some (1, TLock 0)"
    by (simp add: sample_run_def retry_step_defs retry_init_def sample_connection_def
        reconnect_state_default_def is_connection_error_def sample_auth_def authenticate_def do_auth_def)
  then obtain s where s: "run_steps retry_step sample_run (retry_init sample_connection) = Some s"
    "connection_id (shared s) = 1" "tasks s 1 = TLock 0" by auto
  with reconnect_single_flight [OF s(1)] show ?thesis by (metis zero_neq_one)
qed

definition backoff_ok :: "'c retry_state \<Rightarrow> bool" where
  "backoff_ok s \<longleftrightarrow>
     1000000000 \<le> backoff (reconnect_lock (shared s)) \<and> backoff (reconnect_lock (shared s)) \<le> 60000000000"

text \<open>The sub-second nanoseconds of a clock are below one billion.\<close>

fun nanos_ok :: "nat \<times> 'c retry_event \<Rightarrow> bool" where
  "nanos_ok (_, RebindResult _ n) = (n < 1000000000)"
| "nanos_ok (_, AuthResult _ n) = (n < 1000000000)"
| "nanos_ok _ = True"

lemma retry_step_backoff:
  assumes "backoff_ok s" and "nanos_ok ev" and "retry_step ev s = Some s'"
  shows "backoff_ok s'"
proof -
  obtain i e where ev: "ev = (i, e)" by fastforce
  have "nanos < 1000000000" if "e = RebindResult r nanos \<or> e = AuthResult env nanos" for r env nanos
    using that assms(2) ev by auto
  with retry_step_shared [OF assms(3) [unfolded ev]] assms(1) next_backoff_bounds show ?thesis
    by (auto simp: backoff_ok_def reconnect_state_default_def INITIAL_RECONNECT_BACKOFF_def)
qed

lemma retry_run_backoff:
  "backoff_ok s \<Longrightarrow> \<forall>ev \<in> set es. nanos_ok ev \<Longrightarrow> run_steps retry_step es s = Some s' \<Longrightarrow> backoff_ok s'"
proof (induction es arbitrary: s)
  case (Cons e es)
  then obtain t where "retry_step e s = Some t" "run_steps retry_step es t = Some s'"
    by (auto split: option.splits)
  with Cons retry_step_backoff [of s e t] show ?case by simp
qed simp



end
