(* ===== verification/Client_Stream.thy ===== *)
theory Client_Stream
  imports Byte_Stream Client_Connection
begin

text \<open>
  Opening a tunnelled stream: \<open>ClientConnection::open_bidirectional\<close> and \<open>BufferedStream\<close>
  (\<open>crates/ombrac-client/src/connection/mod.rs\<close> and \<open>stream.rs\<close>). The connect request and its response
  are framed messages; bytes that the framing layer read beyond the response are put in front of
  the raw stream.
\<close>

section \<open>\<open>BufferedStream\<close>\<close>

record 's buffered_stream =
  bs_stream :: 's
  bs_buffer :: bytes
  buffer_pos :: nat

definition buffered_new :: "'s \<Rightarrow> bytes \<Rightarrow> 's buffered_stream" where
  "buffered_new stream buf = \<lparr>bs_stream = stream, bs_buffer = buf, buffer_pos = 0\<rparr>"

definition without_buffer :: "'s \<Rightarrow> 's buffered_stream" where
  "without_buffer stream = buffered_new stream []"

definition buffered_poll_read ::
    "(nat \<Rightarrow> nat \<Rightarrow> 's \<Rightarrow> read_poll \<times> 's) \<Rightarrow> nat \<Rightarrow> nat \<Rightarrow> 's buffered_stream \<Rightarrow> read_poll \<times> 's buffered_stream" where
  "buffered_poll_read inner_poll_read ready n s =
     (if buffer_pos s < length (bs_buffer s) then
        (let remaining = drop (buffer_pos s) (bs_buffer s);
             to_copy = min (length remaining) n;
             s1 = (if 0 < to_copy then s\<lparr>buffer_pos := buffer_pos s + to_copy\<rparr> else s);
             s2 = (if length (bs_buffer s1) \<le> buffer_pos s1 then s1\<lparr>bs_buffer := [], buffer_pos := 0\<rparr> else s1)
         in (ReadReady (take to_copy remaining), s2))
      else
        (let (r, stream') = inner_poll_read ready n (bs_stream s) in (r, s\<lparr>bs_stream := stream'\<rparr>)))"

definition buffered_content :: "('s \<Rightarrow> bytes) \<Rightarrow> 's buffered_stream \<Rightarrow> bytes" where
  "buffered_content inner s = drop (buffer_pos s) (bs_buffer s) @ inner (bs_stream s)"

text \<open>Over any byte source, a buffered stream is one again.\<close>

locale buffered_source = byte_source
begin

lemma buffered_ready:
  assumes "inv (bs_stream s)" and "buffered_poll_read poll_read ready n s = (ReadReady bs, s')"
  shows "buffered_content content s = bs @ buffered_content content s' \<and> length bs \<le> n"
proof (cases "buffer_pos s < length (bs_buffer s)")
  case True
  let ?k = "min (length (bs_buffer s) - buffer_pos s) n"
  from True assms(2) have bs: "bs = take ?k (drop (buffer_pos s) (bs_buffer s))"
    by (auto simp: buffered_poll_read_def Let_def)
  have "drop (buffer_pos s') (bs_buffer s') = drop ?k (drop (buffer_pos s) (bs_buffer s))"
    and "bs_stream s' = bs_stream s"
    using True assms(2) by (auto simp: buffered_poll_read_def Let_def add.commute split: if_splits)
  then show ?thesis by (simp add: buffered_content_def bs del: drop_drop)
next
  case False
  with assms poll_ready show ?thesis
    by (auto simp: buffered_poll_read_def buffered_content_def split: prod.splits)
qed

lemma buffered_other:
  assumes "inv (bs_stream s)" and "buffered_poll_read poll_read ready n s = (r, s')" and "\<forall>bs. r \<noteq> ReadReady bs"
  shows "buffered_content content s' = buffered_content content s"
  using assms poll_other
  by (auto simp: buffered_poll_read_def buffered_content_def Let_def split: prod.splits if_splits)

lemma buffered_inv:
  assumes "inv (bs_stream s)" and "buffered_poll_read poll_read ready n s = (r, s')"
  shows "inv (bs_stream s')"
  using assms poll_inv by (auto simp: buffered_poll_read_def Let_def split: prod.splits if_splits)

end

sublocale buffered_source \<subseteq> buf: byte_source "buffered_content content" "buffered_poll_read poll_read"
  "\<lambda>s. inv (bs_stream s)"
  using buffered_ready buffered_other buffered_inv by unfold_locales blast+

interpretation buffered_tcp: buffered_source in_bytes tcp_poll_read "\<lambda>_. True"
  by unfold_locales

section \<open>\<open>open_bidirectional\<close>\<close>

text \<open>
  What the awaits give: the stream of \<open>with_retry\<close>, whether the request was sent, the next frame, and
  the buffers of the framing layer when it is taken apart.
\<close>

record 's open_env =
  op_stream :: "'s io_result"
  op_encode :: "client_message \<Rightarrow> bytes io_result"
  op_send :: "bytes \<Rightarrow> unit io_result"
  op_next :: "bytes io_result option"
  op_decode :: "bytes \<Rightarrow> server_message io_result"
  op_write_buf :: bytes
  op_read_buf :: bytes

fun connect_error_to_kind :: "connect_error_kind \<Rightarrow> error_kind" where
  "connect_error_to_kind CEConnectionRefused = KConnectionRefused"
| "connect_error_to_kind CENetworkUnreachable = KNetworkUnreachable"
| "connect_error_to_kind CEHostUnreachable = KHostUnreachable"
| "connect_error_to_kind CETimedOut = KTimedOut"
| "connect_error_to_kind CEOther = KOther"

definition open_bidirectional ::
    "'s open_env \<Rightarrow> address \<Rightarrow> counters \<Rightarrow> 's buffered_stream io_result \<times> counters" where
  "open_bidirectional env dest_addr m =
     (case op_stream env of Inl e \<Rightarrow> (Inl e, m) | Inr stream \<Rightarrow>
     (case op_encode env (Connect \<lparr>connect_address = dest_addr\<rparr>) of Inl e \<Rightarrow> (Inl e, m) | Inr encoded \<Rightarrow>
     (case op_send env encoded of Inl e \<Rightarrow> (Inl e, m) | Inr _ \<Rightarrow>
     (case op_next env of
        None \<Rightarrow> (Inl (io_err KUnexpectedEof ''stream closed before receiving server response''), m)
      | Some (Inl e) \<Rightarrow> (Inl (io_err KInvalidData (''failed to read server response: '' @ err_msg e)), m)
      | Some (Inr payload) \<Rightarrow>
          (case op_decode env payload of
             Inl e \<Rightarrow> (Inl e, m)
           | Inr (ConnectResponse response) \<Rightarrow>
               if op_write_buf env \<noteq> []
               then (Inl (io_err KOther
                      (''write buffer not empty after send: '' @ text_of (show_nat (length (op_write_buf env))) @
                       '' bytes remaining - data may be lost'')), m)
               else (case response of
                       ConnectOk \<Rightarrow>
                         (Inr (buffered_new stream (op_read_buf env)), m\<lparr>streams_opened := streams_opened m + 1\<rparr>)
                     | ConnectErr kind message \<Rightarrow>
                         (Inl (io_err (connect_error_to_kind kind) message),
                          m\<lparr>streams_failed := streams_failed m + 1\<rparr>)))))))"

section \<open>Properties\<close>

lemma buffered_content_new [simp]: "buffered_content inner (buffered_new s b) = b @ inner s"
  by (simp add: buffered_content_def buffered_new_def)

text \<open>
  C23. A stream is handed out only if the server reported that it is connected, and then nothing of what the
  destination sent is lost: however the caller cuts its reads, it gets the bytes that the framing
  layer had read beyond the response, followed by those of the stream, in order and once. The
  counter of opened streams moves exactly then.
\<close>

theorem open_bidirectional_no_loss:
  assumes "open_bidirectional env dest m = (Inr b, m')" and "read_polls (buffered_poll_read tcp_poll_read) ps b = (bs, b')"
  shows "(\<exists>stream payload. op_stream env = Inr stream \<and> op_next env = Some (Inr payload) \<and>
            op_decode env payload = Inr (ConnectResponse ConnectOk) \<and>
            op_read_buf env @ in_bytes stream = bs @ buffered_content in_bytes b') \<and>
         m' = m\<lparr>streams_opened := streams_opened m + 1\<rparr>"
proof -
  have "buffered_content in_bytes b = bs @ buffered_content in_bytes b'"
    using buffered_tcp.buf.read_polls_content [OF _ assms(2)] by simp
  with assms(1) show ?thesis
    by (auto simp: open_bidirectional_def split: sum.splits option.splits server_message.splits
        server_connect_response.splits if_splits)
qed

theorem open_bidirectional_no_loss_witness:
  "fst (read_polls (buffered_poll_read tcp_poll_read) [(0, 2), (5, 2), (5, 9)]
     (buffered_new \<lparr>in_bytes = [4, 5], in_end = io_err KUnexpectedEof [], out_bytes = [], out_room = None,
        out_err = io_err KBrokenPipe []\<rparr> [1, 2, 3])) = [1, 2, 3, 4, 5]"
proof -
  let ?t = "\<lparr>in_bytes = [4, 5], in_end = io_err KUnexpectedEof [], out_bytes = [], out_room = None,
        out_err = io_err KBrokenPipe []\<rparr>"
  let ?env = "\<lparr>op_stream = Inr ?t, op_encode = (\<lambda>_. Inr [0]), op_send = (\<lambda>_. Inr ()), op_next = Some (Inr [0]),
      op_decode = (\<lambda>_. Inr (ConnectResponse ConnectOk)), op_write_buf = [], op_read_buf = [1, 2, 3]\<rparr>"
  let ?b = "buffered_new ?t [1, 2, 3]" and ?ps = "[(0, 2), (5, 2), (5, 9)]"
  have "open_bidirectional ?env (Domain [97] 80) metrics_new =
      (Inr ?b, metrics_new\<lparr>streams_opened := streams_opened metrics_new + 1\<rparr>)"
    by (simp add: open_bidirectional_def)
  note open_bidirectional_no_loss [OF this surjective_pairing, of ?ps]
  moreover have "buffered_content in_bytes (snd (read_polls (buffered_poll_read tcp_poll_read) ?ps ?b)) = []"
    by code_simp
  ultimately show ?thesis by simp
qed

end
