(* ===== verification/Net_Tcp.thy ===== *)
theory Net_Tcp
  imports Ombrac_Prelude Machine
begin

text \<open>
  The TCP connections of the user-space network stack, \<open>crates/ombrac-netstack/src/tcp.rs\<close>. A connection is shared by
  a \<open>TcpStream\<close>, which the application polls, and a worker that moves bytes between its two ring buffers and the
  socket of \<open>smoltcp\<close>. The two run concurrently: a poll that finds nothing to do checks, registers its waker and
  checks again, and the worker can run between any two of these; each of the three is an event here.

  A \<open>HeapRb\<close> is a byte list with a capacity, \<open>push_slice\<close> appends the longest prefix that fits and \<open>pop_slice\<close>
  takes the longest prefix that is there. The socket of \<open>smoltcp\<close> is an argument: its state \<open>'k\<close> and its operations.
  An \<open>AtomicWaker\<close> is a flag that says whether a waker is registered; waking takes it and marks the task as woken.
\<close>

section \<open>Connections\<close>

text \<open>
  \<open>sk_recv\<close> is the slice that \<open>Socket::recv\<close> shows its closure, \<open>None\<close> where it returns an error; \<open>sk_recv_done\<close> takes
  off as many bytes as the closure says. \<open>sk_send\<close> is the length of the slice that \<open>Socket::send\<close> offers, and
  \<open>sk_send_done\<close> appends what the closure wrote.
\<close>

record 'k socket_ops =
  sk_can_recv :: "'k \<Rightarrow> bool"
  sk_recv :: "'k \<Rightarrow> bytes option"
  sk_recv_done :: "nat \<Rightarrow> 'k \<Rightarrow> 'k"
  sk_can_send :: "'k \<Rightarrow> bool"
  sk_send :: "'k \<Rightarrow> nat option"
  sk_send_done :: "bytes \<Rightarrow> 'k \<Rightarrow> 'k"
  sk_is_open :: "'k \<Rightarrow> bool"
  sk_is_active :: "'k \<Rightarrow> bool"
  sk_close :: "'k \<Rightarrow> 'k"
  sk_abort :: "'k \<Rightarrow> 'k"

text \<open>A poll of the writing side: \<open>poll_write\<close>, \<open>poll_flush\<close>, \<open>poll_shutdown\<close>.\<close>

datatype write_op = OpWrite bytes | OpFlush | OpShutdown

datatype 'o poll_pc = PIdle | PRegister 'o | PRecheck 'o | PParked 'o

text \<open>
  \<open>tracked\<close>: the worker still has the socket in its maps. The last fields are histories: what the worker took from the
  socket and gave to it, what the application read and what was accepted from it, and whether it saw the end.
\<close>

record 'k conn =
  local_addr :: socket_addr
  remote_addr :: socket_addr
  sock :: 'k
  tracked :: bool
  recv_rb :: bytes
  recv_cap :: nat
  send_rb :: bytes
  send_cap :: nat
  read_closed :: bool
  write_closed :: bool
  socket_dropped :: bool
  recv_waker :: bool
  send_waker :: bool
  reader :: "unit poll_pc"
  reader_woken :: bool
  writer :: "write_op poll_pc"
  writer_woken :: bool
  taken :: bytes
  got :: bytes
  put :: bytes
  handed :: bytes
  saw_eof :: bool

section \<open>The stream\<close>

definition push_count :: "nat \<Rightarrow> bytes \<Rightarrow> bytes \<Rightarrow> nat" where
  "push_count cap rb bs = min (cap - length rb) (length bs)"

text \<open>\<open>poll_read\<close> with a buffer of \<open>n\<close> free bytes: it starts, registers, and looks again.\<close>

definition take_recv :: "nat \<Rightarrow> 'k conn \<Rightarrow> 'k conn" where
  "take_recv n c =
     c\<lparr>recv_rb := drop n (recv_rb c), got := got c @ take n (recv_rb c), reader := PIdle\<rparr>"

definition poll_read_start :: "nat \<Rightarrow> 'k conn \<Rightarrow> 'k conn" where
  "poll_read_start n c0 =
     (let c = c0\<lparr>reader_woken := False\<rparr>
      in if recv_rb c = []
         then if read_closed c then c\<lparr>saw_eof := True, reader := PIdle\<rparr> else c\<lparr>reader := PRegister ()\<rparr>
         else take_recv n c)"

definition poll_read_register :: "'k conn \<Rightarrow> 'k conn" where
  "poll_read_register c = c\<lparr>recv_waker := True, reader := PRecheck ()\<rparr>"

definition poll_read_recheck :: "nat \<Rightarrow> 'k conn \<Rightarrow> 'k conn" where
  "poll_read_recheck n c = (if recv_rb c = [] then c\<lparr>reader := PParked ()\<rparr> else take_recv n c)"

text \<open>
  \<open>poll_write\<close>, \<open>poll_flush\<close> and \<open>poll_shutdown\<close>. \<open>blocked\<close> is the condition under which they register and park, \<open>perform\<close>
  what they do otherwise.
\<close>

definition blocked :: "write_op \<Rightarrow> 'k conn \<Rightarrow> bool" where
  "blocked op c = (case op of OpWrite _ \<Rightarrow> send_cap c \<le> length (send_rb c) | _ \<Rightarrow> send_rb c \<noteq> [])"

definition perform :: "write_op \<Rightarrow> 'k conn \<Rightarrow> 'k conn" where
  "perform op c =
     (case op of
        OpWrite buf \<Rightarrow>
          (let n = push_count (send_cap c) (send_rb c) buf
           in c\<lparr>send_rb := send_rb c @ take n buf, put := put c @ take n buf, writer := PIdle\<rparr>)
      | OpFlush \<Rightarrow> c\<lparr>writer := PIdle\<rparr>
      | OpShutdown \<Rightarrow> c\<lparr>write_closed := True, writer := PIdle\<rparr>)"

definition refused :: "write_op \<Rightarrow> 'k conn \<Rightarrow> bool" where
  "refused op c = (case op of OpWrite _ \<Rightarrow> socket_dropped c \<or> write_closed c | _ \<Rightarrow> False)"

definition poll_write_start :: "write_op \<Rightarrow> 'k conn \<Rightarrow> 'k conn" where
  "poll_write_start op c0 =
     (let c = c0\<lparr>writer_woken := False\<rparr>
      in if refused op c then c\<lparr>writer := PIdle\<rparr>
         else if blocked op c then c\<lparr>writer := PRegister op\<rparr> else perform op c)"

definition poll_write_register :: "write_op \<Rightarrow> 'k conn \<Rightarrow> 'k conn" where
  "poll_write_register op c = c\<lparr>send_waker := True, writer := PRecheck op\<rparr>"

definition poll_write_recheck :: "write_op \<Rightarrow> 'k conn \<Rightarrow> 'k conn" where
  "poll_write_recheck op c = (if blocked op c then c\<lparr>writer := PParked op\<rparr> else perform op c)"

definition stream_drop :: "'k conn \<Rightarrow> 'k conn" where
  "stream_drop c = c\<lparr>socket_dropped := True\<rparr>"

section \<open>The worker\<close>

definition wake_recv :: "'k conn \<Rightarrow> 'k conn" where
  "wake_recv c = (if recv_waker c then c\<lparr>recv_waker := False, reader_woken := True\<rparr> else c)"

definition wake_send :: "'k conn \<Rightarrow> 'k conn" where
  "wake_send c = (if send_waker c then c\<lparr>send_waker := False, writer_woken := True\<rparr> else c)"

text \<open>
  \<open>handle_socket_io\<close>: from the socket to the receive buffer, the end of the connection, and from the send buffer to
  the socket. The first component says whether the other side is to be notified: \<open>recv\<close> and \<open>send\<close> return the second
  component of what the closure returns, which is here the length of the slice that was offered.
\<close>

definition io_recv :: "'k socket_ops \<Rightarrow> 'k conn \<Rightarrow> bool \<times> 'k conn" where
  "io_recv ops c =
     (if sk_can_recv ops (sock c) then
        (case sk_recv ops (sock c) of
           None \<Rightarrow> (True, c\<lparr>read_closed := True\<rparr>)
         | Some buffer \<Rightarrow>
             (let n = push_count (recv_cap c) (recv_rb c) buffer
              in (buffer \<noteq> [], c\<lparr>recv_rb := recv_rb c @ take n buffer, taken := taken c @ take n buffer,
                           sock := sk_recv_done ops n (sock c)\<rparr>)))
      else (False, c))"

definition io_closed :: "'k socket_ops \<Rightarrow> bool \<times> 'k conn \<Rightarrow> bool \<times> 'k conn" where
  "io_closed ops p =
     (let (notify, c) = p
      in if \<not> sk_is_open ops (sock c) \<and> \<not> read_closed c then (True, c\<lparr>read_closed := True\<rparr>) else (notify, c))"

function io_send :: "'k socket_ops \<Rightarrow> bool \<Rightarrow> 'k conn \<Rightarrow> bool \<times> 'k conn" where
  "io_send ops notify c =
     (if sk_can_send ops (sock c) \<and> send_rb c \<noteq> [] then
        (case sk_send ops (sock c) of
           None \<Rightarrow> (notify, c)
         | Some room \<Rightarrow>
             (let n = min room (length (send_rb c))
              in if 0 < room
                 then io_send ops True
                        (c\<lparr>send_rb := drop n (send_rb c), handed := handed c @ take n (send_rb c),
                           sock := sk_send_done ops (take n (send_rb c)) (sock c)\<rparr>)
                 else (notify, c\<lparr>sock := sk_send_done ops [] (sock c)\<rparr>)))
      else (notify, c))"
  by pat_completeness auto
termination
  by (relation "measure (\<lambda>(ops, notify, c). length (send_rb c))") auto

declare io_send.simps [simp del]

definition handle_socket_io :: "'k socket_ops \<Rightarrow> 'k conn \<Rightarrow> 'k conn" where
  "handle_socket_io ops c =
     (let (notify_read, c1) = io_closed ops (io_recv ops c);
          c2 = (if notify_read then wake_recv c1 else c1);
          (notify_write, c3) = io_send ops False c2
      in if notify_write then wake_send c3 else c3)"

text \<open>The worker's pass over its sockets, and \<open>prune_sockets\<close>, for one of them.\<close>

definition io_pass :: "'k socket_ops \<Rightarrow> 'k conn \<Rightarrow> 'k conn" where
  "io_pass ops c = (if tracked c \<and> \<not> socket_dropped c then handle_socket_io ops c else c)"

definition prune_socket :: "'k socket_ops \<Rightarrow> 'k conn \<Rightarrow> 'k conn" where
  "prune_socket ops c =
     (if \<not> tracked c then c
      else if socket_dropped c then c\<lparr>sock := sk_abort ops (sock c), tracked := False\<rparr>
      else (let c1 = (if write_closed c \<and> send_rb c = [] then c\<lparr>sock := sk_close ops (sock c)\<rparr> else c)
            in if \<not> sk_is_active ops (sock c1) then c1\<lparr>tracked := False\<rparr> else c1))"

section \<open>Runs\<close>

text \<open>\<open>Smoltcp f\<close>: a poll of the interface changes the sockets that are still in its set.\<close>

datatype 'k conn_event =
    ReadStart nat
  | ReadRegister
  | ReadRecheck nat
  | WriteStart write_op
  | WriteRegister
  | WriteRecheck
  | StreamDrop
  | Smoltcp "'k \<Rightarrow> 'k"
  | IoPass
  | Prune

definition stream_step :: "'k conn_event \<Rightarrow> 'k conn \<Rightarrow> 'k conn option" where
  "stream_step e c =
     (case e of
        ReadStart n \<Rightarrow> (case reader c of PIdle \<Rightarrow> Some (poll_read_start n c) | PParked _ \<Rightarrow> Some (poll_read_start n c) | _ \<Rightarrow> None)
      | ReadRegister \<Rightarrow> (case reader c of PRegister _ \<Rightarrow> Some (poll_read_register c) | _ \<Rightarrow> None)
      | ReadRecheck n \<Rightarrow> (case reader c of PRecheck _ \<Rightarrow> Some (poll_read_recheck n c) | _ \<Rightarrow> None)
      | WriteStart op \<Rightarrow> (case writer c of PIdle \<Rightarrow> Some (poll_write_start op c) | PParked _ \<Rightarrow> Some (poll_write_start op c) | _ \<Rightarrow> None)
      | WriteRegister \<Rightarrow> (case writer c of PRegister op \<Rightarrow> Some (poll_write_register op c) | _ \<Rightarrow> None)
      | WriteRecheck \<Rightarrow> (case writer c of PRecheck op \<Rightarrow> Some (poll_write_recheck op c) | _ \<Rightarrow> None)
      | StreamDrop \<Rightarrow> Some (stream_drop c)
      | _ \<Rightarrow> None)"

definition worker_step :: "'k socket_ops \<Rightarrow> 'k conn_event \<Rightarrow> 'k conn \<Rightarrow> 'k conn option" where
  "worker_step ops e c =
     (case e of
        Smoltcp f \<Rightarrow> Some (if tracked c then c\<lparr>sock := f (sock c)\<rparr> else c)
      | IoPass \<Rightarrow> Some (io_pass ops c)
      | Prune \<Rightarrow> Some (prune_socket ops c)
      | _ \<Rightarrow> None)"

definition conn_step :: "'k socket_ops \<Rightarrow> 'k conn_event \<Rightarrow> 'k conn \<Rightarrow> 'k conn option" where
  "conn_step ops e c = (case stream_step e c of Some c' \<Rightarrow> Some c' | None \<Rightarrow> worker_step ops e c)"

definition conn_new :: "socket_addr \<Rightarrow> socket_addr \<Rightarrow> nat \<Rightarrow> nat \<Rightarrow> 'k \<Rightarrow> 'k conn" where
  "conn_new src_addr dst_addr rcap scap k =
     \<lparr>local_addr = src_addr, remote_addr = dst_addr, sock = k, tracked = True, recv_rb = [], recv_cap = rcap, send_rb = [],
      send_cap = scap, read_closed = False, write_closed = False, socket_dropped = False, recv_waker = False,
      send_waker = False, reader = PIdle, reader_woken = False, writer = PIdle, writer_woken = False, taken = [], got = [],
      put = [], handed = [], saw_eof = False\<rparr>"

section \<open>What one pass of the worker does\<close>

text \<open>The send loop hands a prefix of the buffer to the socket, and reports whether it moved anything.\<close>

lemma io_send_spec:
  "io_send ops notify c = (notify', c') \<Longrightarrow>
   \<exists>k \<le> length (send_rb c).
     c' = c\<lparr>send_rb := drop k (send_rb c), handed := handed c @ take k (send_rb c), sock := sock c'\<rparr> \<and>
     (notify' \<longleftrightarrow> notify \<or> 0 < k)"
proof (induction ops notify c arbitrary: notify' c' rule: io_send.induct)
  case (1 ops notify c)
  show ?case
  proof (cases "sk_can_send ops (sock c) \<and> send_rb c \<noteq> []")
    case False
    with 1(2) have "notify' = notify" "c' = c" by (auto simp: io_send.simps [of ops notify c])
    then show ?thesis by (intro exI [of _ 0]) simp
  next
    case True
    show ?thesis
    proof (cases "sk_send ops (sock c)")
      case None
      with 1(2) True have "notify' = notify" "c' = c" by (auto simp: io_send.simps [of ops notify c])
      then show ?thesis by (intro exI [of _ 0]) simp
    next
      case (Some room)
      define n where "n = min room (length (send_rb c))"
      show ?thesis
      proof (cases "0 < room")
        case False
        with 1(2) True Some have "notify' = notify" "c' = c\<lparr>sock := sk_send_done ops [] (sock c)\<rparr>"
          by (auto simp: io_send.simps [of ops notify c] n_def Let_def split: if_splits)
        then show ?thesis by (intro exI [of _ 0]) simp
      next
        case pos: True
        have n0: "0 < n" using pos True by (simp add: n_def)
        define c1 where "c1 = c\<lparr>send_rb := drop n (send_rb c), handed := handed c @ take n (send_rb c),
            sock := sk_send_done ops (take n (send_rb c)) (sock c)\<rparr>"
        have rec: "io_send ops True c1 = (notify', c')"
          using 1(2) True Some pos by (auto simp: io_send.simps [of ops notify c] n_def c1_def Let_def)
        have n: "n \<le> length (send_rb c)" by (simp add: n_def)
        from "1.IH" [OF True Some n_def pos, folded c1_def, OF rec] obtain j where
          j: "j \<le> length (send_rb c1)" "notify'" and
          c': "c' = c1\<lparr>send_rb := drop j (send_rb c1), handed := handed c1 @ take j (send_rb c1), sock := sock c'\<rparr>" by auto
        have "c' = c\<lparr>send_rb := drop (n + j) (send_rb c), handed := handed c @ take (n + j) (send_rb c), sock := sock c'\<rparr>"
        proof -
          have t: "take (n + j) (send_rb c) = take n (send_rb c) @ take j (drop n (send_rb c))" by (rule take_add)
          have d: "drop (n + j) (send_rb c) = drop j (drop n (send_rb c))" by (simp add: drop_drop add.commute)
          show ?thesis unfolding t d by (subst c') (simp add: c1_def)
        qed
        with j n0 n show ?thesis by (intro exI [of _ "n + j"]) (auto simp: c1_def)
      qed
    qed
  qed
qed

lemma io_recv_spec:
  assumes "io_recv ops c = (notify, c')"
  shows "\<exists>bs. length bs \<le> recv_cap c - length (recv_rb c) \<and>
    c' = c\<lparr>recv_rb := recv_rb c @ bs, taken := taken c @ bs, sock := sock c', read_closed := read_closed c'\<rparr> \<and>
    (bs \<noteq> [] \<longrightarrow> notify)"
proof (cases "sk_can_recv ops (sock c)")
  case False
  with assms show ?thesis by (intro exI [of _ "[]"]) (auto simp: io_recv_def)
next
  case True
  show ?thesis
  proof (cases "sk_recv ops (sock c)")
    case None
    with True assms show ?thesis by (intro exI [of _ "[]"]) (auto simp: io_recv_def)
  next
    case (Some buffer)
    define n where "n = push_count (recv_cap c) (recv_rb c) buffer"
    from Some True assms have "notify = (buffer \<noteq> [])" "c' = c\<lparr>recv_rb := recv_rb c @ take n buffer,
        taken := taken c @ take n buffer, sock := sk_recv_done ops n (sock c)\<rparr>"
      by (auto simp: io_recv_def n_def Let_def)
    then show ?thesis by (intro exI [of _ "take n buffer"]) (auto simp: n_def push_count_def)
  qed
qed

section \<open>Invariant\<close>

text \<open>
  Bytes are neither lost nor reordered nor invented on the way through the buffers, the buffers keep their capacity, and
  a side that sleeps has its waker registered and nothing to do.
\<close>

definition bytes_ok :: "'k conn \<Rightarrow> bool" where
  "bytes_ok c \<longleftrightarrow> taken c = got c @ recv_rb c \<and> put c = handed c @ send_rb c \<and>
     length (recv_rb c) \<le> recv_cap c \<and> length (send_rb c) \<le> send_cap c"

definition reader_ok :: "'k conn \<Rightarrow> bool" where
  "reader_ok c \<longleftrightarrow>
     (case reader c of
        PRecheck _ \<Rightarrow> recv_waker c \<or> reader_woken c
      | PParked _ \<Rightarrow> (recv_waker c \<and> recv_rb c = []) \<or> reader_woken c
      | _ \<Rightarrow> True)"

definition writer_ok :: "'k conn \<Rightarrow> bool" where
  "writer_ok c \<longleftrightarrow>
     (case writer c of
        PRecheck _ \<Rightarrow> send_waker c \<or> writer_woken c
      | PParked op \<Rightarrow> (send_waker c \<and> blocked op c) \<or> writer_woken c
      | _ \<Rightarrow> True)"

definition conn_inv :: "'k conn \<Rightarrow> bool" where
  "conn_inv c \<longleftrightarrow> bytes_ok c \<and> reader_ok c \<and> writer_ok c"

lemmas conn_inv_defs = conn_inv_def bytes_ok_def reader_ok_def writer_ok_def

lemma conn_inv_new: "conn_inv (conn_new s d rc sc k)"
  by (simp add: conn_inv_defs conn_new_def)

lemma conn_inv_sock [simp]: "conn_inv (c\<lparr>sock := k\<rparr>) = conn_inv c"
  by (simp add: conn_inv_defs blocked_def cong: poll_pc.case_cong write_op.case_cong)

lemma conn_inv_flags [simp]:
  "conn_inv (c\<lparr>tracked := b\<rparr>) = conn_inv c" "conn_inv (c\<lparr>socket_dropped := b\<rparr>) = conn_inv c"
  "conn_inv (c\<lparr>read_closed := b\<rparr>) = conn_inv c"
  by (simp_all add: conn_inv_defs blocked_def cong: poll_pc.case_cong write_op.case_cong)

lemma take_recv_inv: "conn_inv c \<Longrightarrow> conn_inv (take_recv n c)"
  by (auto simp: conn_inv_defs take_recv_def blocked_def cong: poll_pc.case_cong write_op.case_cong)

lemma blocked_cong: "send_rb c' = send_rb c \<Longrightarrow> send_cap c' = send_cap c \<Longrightarrow> blocked op c' = blocked op c"
  by (simp add: blocked_def cong: write_op.case_cong)

lemma writer_ok_cong:
  assumes "writer c' = writer c" "send_waker c' = send_waker c" "writer_woken c' = writer_woken c"
    "send_rb c' = send_rb c" "send_cap c' = send_cap c"
  shows "writer_ok c' = writer_ok c"
  by (cases "writer c") (auto simp: writer_ok_def assms blocked_cong [of c' c, OF assms(4,5)])

lemma reader_ok_cong:
  assumes "reader c' = reader c" "recv_waker c' = recv_waker c" "reader_woken c' = reader_woken c" "recv_rb c' = recv_rb c"
  shows "reader_ok c' = reader_ok c"
  by (cases "reader c") (auto simp: reader_ok_def assms)

text \<open>A poll of the reader leaves the writing half alone.\<close>

lemma reader_half_inv:
  assumes "conn_inv c" and "bytes_ok c'" and "reader_ok c'" and "writer c' = writer c" "send_waker c' = send_waker c"
    "writer_woken c' = writer_woken c" "send_rb c' = send_rb c" "send_cap c' = send_cap c"
  shows "conn_inv c'"
  using assms(1-3) writer_ok_cong [OF assms(4-8)] by (simp add: conn_inv_def)

lemma bytes_ok_take: "bytes_ok c \<Longrightarrow> bytes_ok ((take_recv n c)\<lparr>reader_woken := w\<rparr>)"
  by (auto simp: bytes_ok_def take_recv_def)

lemma read_poll_inv:
  assumes inv: "conn_inv c"
  shows "conn_inv (poll_read_start n c)"
    and "reader c = PRegister u \<Longrightarrow> conn_inv (poll_read_register c)"
    and "reader c = PRecheck u \<Longrightarrow> conn_inv (poll_read_recheck n c)"
proof -
  have b: "bytes_ok c" and r: "reader_ok c" using inv by (simp_all add: conn_inv_def)
  have take: "take_recv n (c\<lparr>reader_woken := w\<rparr>) = (take_recv n c)\<lparr>reader_woken := w\<rparr>" for w by (simp add: take_recv_def)
  have taken: "conn_inv ((take_recv n c)\<lparr>reader_woken := w\<rparr>)" for w
    by (rule reader_half_inv [OF inv bytes_ok_take [OF b]]) (simp_all add: take_recv_def reader_ok_def)
  show "conn_inv (poll_read_start n c)"
  proof (cases "recv_rb c = []")
    case True
    show ?thesis
      by (rule reader_half_inv [OF inv])
        (use b True in \<open>simp_all add: poll_read_start_def Let_def bytes_ok_def reader_ok_def\<close>)
  next
    case False
    with taken [of False] show ?thesis by (simp add: poll_read_start_def Let_def take)
  qed
  show "conn_inv (poll_read_register c)"
    by (rule reader_half_inv [OF inv]) (use b in \<open>simp_all add: poll_read_register_def bytes_ok_def reader_ok_def\<close>)
  show "conn_inv (poll_read_recheck n c)" if p: "reader c = PRecheck u"
  proof (cases "recv_rb c = []")
    case True
    show ?thesis
      by (rule reader_half_inv [OF inv])
        (use b r p True in \<open>simp_all add: poll_read_recheck_def bytes_ok_def reader_ok_def\<close>)
  next
    case False
    have "take_recv n c = (take_recv n c)\<lparr>reader_woken := reader_woken c\<rparr>" by (simp add: take_recv_def)
    with False taken [of "reader_woken c"] show ?thesis by (simp add: poll_read_recheck_def)
  qed
qed

lemma perform_inv: "conn_inv c \<Longrightarrow> conn_inv ((perform op c)\<lparr>writer_woken := w\<rparr>)"
  by (cases op) (auto simp: conn_inv_defs perform_def push_count_def Let_def cong: poll_pc.case_cong)

lemma write_poll_inv:
  assumes "conn_inv c"
  shows "conn_inv (poll_write_start op c)"
    and "writer c = PRegister op \<Longrightarrow> conn_inv (poll_write_register op c)"
    and "writer c = PRecheck op \<Longrightarrow> conn_inv (poll_write_recheck op c)"
proof -
  have idle: "conn_inv (c\<lparr>writer_woken := w, writer := p\<rparr>)" if "p = PIdle \<or> (\<exists>u. p = PRegister u)" for w p
    using assms that by (auto simp: conn_inv_defs cong: poll_pc.case_cong)
  have perf: "perform op (c\<lparr>writer_woken := w\<rparr>) = (perform op c)\<lparr>writer_woken := w\<rparr>" for w
    by (cases op) (simp_all add: perform_def Let_def)
  show "conn_inv (poll_write_start op c)"
    using idle [where p = PIdle and w = False] idle [where p = "PRegister op" and w = False] perform_inv [OF assms, where op = op and w = False]
    by (simp add: poll_write_start_def Let_def perf)
  show "writer c = PRegister op \<Longrightarrow> conn_inv (poll_write_register op c)"
    using assms by (auto simp: conn_inv_defs poll_write_register_def cong: poll_pc.case_cong)
  show "conn_inv (poll_write_recheck op c)" if w: "writer c = PRecheck op"
  proof (cases "blocked op c")
    case True
    have "blocked op (c\<lparr>writer := PParked op\<rparr>) = blocked op c" by (rule blocked_cong) simp_all
    with assms w True show ?thesis by (auto simp: conn_inv_defs poll_write_recheck_def cong: poll_pc.case_cong)
  next
    case False
    have "perform op c = (perform op c)\<lparr>writer_woken := writer_woken c\<rparr>"
      by (cases op) (simp_all add: perform_def Let_def)
    with False perform_inv [OF assms, where op = op and w = "writer_woken c"] show ?thesis by (simp add: poll_write_recheck_def)
  qed
qed

lemma stream_step_inv:
  assumes inv: "conn_inv c" and st: "stream_step e c = Some c'"
  shows "conn_inv c'"
proof (cases e)
  case (ReadStart n)
  with st have "c' = poll_read_start n c" by (auto simp: stream_step_def split: poll_pc.splits)
  then show ?thesis using read_poll_inv(1) [OF inv] by simp
next
  case ReadRegister
  with st obtain u where "reader c = PRegister u" "c' = poll_read_register c" by (auto simp: stream_step_def split: poll_pc.splits)
  then show ?thesis using read_poll_inv(2) [OF inv] by simp
next
  case (ReadRecheck n)
  with st obtain u where "reader c = PRecheck u" "c' = poll_read_recheck n c" by (auto simp: stream_step_def split: poll_pc.splits)
  then show ?thesis using read_poll_inv(3) [OF inv] by simp
next
  case (WriteStart op)
  with st have "c' = poll_write_start op c" by (auto simp: stream_step_def split: poll_pc.splits)
  then show ?thesis using write_poll_inv(1) [OF inv] by simp
next
  case WriteRegister
  with st obtain op where "writer c = PRegister op" "c' = poll_write_register op c" by (auto simp: stream_step_def split: poll_pc.splits)
  then show ?thesis using write_poll_inv(2) [OF inv] by simp
next
  case WriteRecheck
  with st obtain op where "writer c = PRecheck op" "c' = poll_write_recheck op c" by (auto simp: stream_step_def split: poll_pc.splits)
  then show ?thesis using write_poll_inv(3) [OF inv] by simp
qed (use st inv in \<open>auto simp: stream_step_def stream_drop_def\<close>)

lemma wake_recv_fields [simp]:
  "bytes_ok (wake_recv c) = bytes_ok c" "writer_ok (wake_recv c) = writer_ok c"
  "bytes_ok (wake_send c) = bytes_ok c" "reader_ok (wake_send c) = reader_ok c"
  by (simp_all add: bytes_ok_def reader_ok_def writer_ok_def wake_recv_def wake_send_def blocked_def
      cong: poll_pc.case_cong write_op.case_cong)

lemma reader_ok_wake: "reader_ok c \<Longrightarrow> reader_ok (wake_recv (c\<lparr>recv_rb := bs\<rparr>))"
  by (cases "reader c") (auto simp: reader_ok_def wake_recv_def)

lemma writer_ok_wake: "writer_ok c \<Longrightarrow> writer_ok (wake_send (c\<lparr>send_rb := bs\<rparr>))"
  by (cases "writer c") (auto simp: writer_ok_def wake_send_def)

lemma io_read_half_inv:
  assumes inv: "conn_inv c" and io: "io_closed ops (io_recv ops c) = (notify, c1)"
  shows "conn_inv (if notify then wake_recv c1 else c1)"
proof -
  obtain n0 c0 where r: "io_recv ops c = (n0, c0)" by force
  from io_recv_spec [OF r] obtain bs where len: "length bs \<le> recv_cap c - length (recv_rb c)" and
    c0: "c0 = c\<lparr>recv_rb := recv_rb c @ bs, taken := taken c @ bs, sock := sock c0, read_closed := read_closed c0\<rparr>" and
    n0: "bs \<noteq> [] \<longrightarrow> n0" by auto
  have n: "bs \<noteq> [] \<longrightarrow> notify" and c1: "\<exists>b. c1 = c0\<lparr>read_closed := b\<rparr>"
    using io n0 by (auto simp: r io_closed_def split: if_splits intro: exI [of _ "read_closed c0"])
  obtain b k where c1: "c1 = c\<lparr>recv_rb := recv_rb c @ bs, taken := taken c @ bs, sock := k, read_closed := b\<rparr>"
    using c1 by (subst (asm) c0) auto
  have by1: "bytes_ok c1" using inv len by (auto simp: conn_inv_def bytes_ok_def c1)
  have wr1: "writer_ok c1" using inv by (subst writer_ok_cong [of c1 c]) (auto simp: c1 conn_inv_def)
  have rd: "reader_ok c" using inv by (simp add: conn_inv_def)
  have "reader_ok (if notify then wake_recv c1 else c1)"
  proof (cases notify)
    case True
    define c2 where "c2 = c\<lparr>taken := taken c @ bs, sock := k, read_closed := b\<rparr>"
    have "reader_ok c2" using rd by (subst reader_ok_cong [of c2 c]) (simp_all add: c2_def)
    moreover have "c1 = c2\<lparr>recv_rb := recv_rb c @ bs\<rparr>" by (simp add: c1 c2_def)
    ultimately show ?thesis using True reader_ok_wake [of c2 "recv_rb c @ bs"] by simp
  next
    case False
    with n have "bs = []" by simp
    with rd False show ?thesis by (simp add: c1 reader_ok_cong [of "c\<lparr>sock := k, read_closed := b\<rparr>" c])
  qed
  with by1 wr1 show ?thesis by (simp add: conn_inv_def)
qed

lemma io_write_half_inv:
  assumes inv: "conn_inv c" and io: "io_send ops False c = (notify, c1)"
  shows "conn_inv (if notify then wake_send c1 else c1)"
proof -
  from io_send_spec [OF io] obtain k where len: "k \<le> length (send_rb c)" and n: "notify \<longleftrightarrow> 0 < k" and
    c1: "c1 = c\<lparr>send_rb := drop k (send_rb c), handed := handed c @ take k (send_rb c), sock := sock c1\<rparr>" by auto
  obtain q where c1: "c1 = c\<lparr>send_rb := drop k (send_rb c), handed := handed c @ take k (send_rb c), sock := q\<rparr>"
    using c1 by blast
  have by1: "bytes_ok c1" using inv by (auto simp: conn_inv_def bytes_ok_def c1)
  have rd1: "reader_ok c1" using inv by (subst reader_ok_cong [of c1 c]) (auto simp: c1 conn_inv_def)
  have wr: "writer_ok c" using inv by (simp add: conn_inv_def)
  have "writer_ok (if notify then wake_send c1 else c1)"
  proof (cases notify)
    case True
    define c2 where "c2 = c\<lparr>handed := handed c @ take k (send_rb c), sock := q\<rparr>"
    have "writer_ok c2" using wr by (subst writer_ok_cong [of c2 c]) (simp_all add: c2_def)
    moreover have "c1 = c2\<lparr>send_rb := drop k (send_rb c)\<rparr>" by (simp add: c1 c2_def)
    ultimately show ?thesis using True writer_ok_wake [of c2 "drop k (send_rb c)"] by simp
  next
    case False
    with n have "k = 0" by simp
    with wr False show ?thesis by (simp add: c1 writer_ok_cong [of "c\<lparr>sock := q\<rparr>" c])
  qed
  with by1 rd1 show ?thesis by (simp add: conn_inv_def)
qed

lemma handle_socket_io_inv:
  assumes "conn_inv c"
  shows "conn_inv (handle_socket_io ops c)"
proof -
  obtain nr c1 where r: "io_closed ops (io_recv ops c) = (nr, c1)" by force
  obtain nw c3 where w: "io_send ops False (if nr then wake_recv c1 else c1) = (nw, c3)" by force
  from io_write_half_inv [OF io_read_half_inv [OF assms r] w] show ?thesis
    by (simp add: handle_socket_io_def r w)
qed

lemma worker_step_inv:
  assumes "conn_inv c" and "worker_step ops e c = Some c'"
  shows "conn_inv c'"
  using assms handle_socket_io_inv [of c ops]
  by (cases e) (auto simp: worker_step_def io_pass_def prune_socket_def Let_def)

lemma conn_step_inv:
  assumes "conn_inv c" and "conn_step ops e c = Some c'"
  shows "conn_inv c'"
  using assms stream_step_inv worker_step_inv by (auto simp: conn_step_def split: option.splits)

interpretation conn_machine: invariant_machine "conn_step ops" conn_inv for ops
  by unfold_locales (rule conn_step_inv)

section \<open>Properties of a connection\<close>

text \<open>A side is asleep when its poll has returned \<open>Pending\<close> and nothing has woken it since.\<close>

definition reader_asleep :: "'k conn \<Rightarrow> bool" where
  "reader_asleep c \<longleftrightarrow> reader c = PParked () \<and> \<not> reader_woken c"

definition writer_asleep :: "'k conn \<Rightarrow> bool" where
  "writer_asleep c \<longleftrightarrow> (\<exists>op. writer c = PParked op) \<and> \<not> writer_woken c"

text \<open>
  C22. Whatever the socket does and however the polls of the application and the passes of the worker interleave: what
  the application has read is a prefix of what the worker took from the socket and the rest is in the receive buffer, in
  order; what the socket was given is a prefix of what the application wrote and the rest is in the send buffer; no
  buffer exceeds its capacity. And no wake-up for data is lost: a sleeping reader has nothing to read, a sleeping writer
  has no room, a sleeping flush has bytes left.
\<close>

theorem tcp_stream_fifo:
  assumes "run_steps (conn_step ops) es (conn_new src dst rcap scap k) = Some c"
  shows "taken c = got c @ recv_rb c \<and> put c = handed c @ send_rb c \<and>
    length (recv_rb c) \<le> recv_cap c \<and> length (send_rb c) \<le> send_cap c \<and>
    (reader_asleep c \<longrightarrow> recv_rb c = [] \<and> recv_waker c) \<and>
    (writer_asleep c \<longrightarrow> send_waker c \<and>
       (\<exists>op. writer c = PParked op \<and>
          (case op of OpWrite _ \<Rightarrow> send_cap c \<le> length (send_rb c) | _ \<Rightarrow> send_rb c \<noteq> [])))"
proof -
  have inv: "conn_inv c" by (rule conn_machine.run_inv [OF conn_inv_new assms])
  then have "bytes_ok c" "reader_ok c" "writer_ok c" by (simp_all add: conn_inv_def)
  then show ?thesis
    by (auto simp: bytes_ok_def reader_ok_def writer_ok_def reader_asleep_def writer_asleep_def blocked_def)
qed

text \<open>Once the worker has dropped the socket, nothing leaves the send buffer any more.\<close>

definition stuck :: "bytes \<Rightarrow> 'k conn \<Rightarrow> bool" where
  "stuck bs c \<longleftrightarrow> \<not> tracked c \<and> send_cap c \<le> length (send_rb c) \<and> put c = bs"

lemma stuck_step:
  assumes s: "stuck bs c" and st: "conn_step ops e c = Some c'"
  shows "stuck bs c'"
proof (cases e)
  case (WriteStart op)
  with st have "c' = poll_write_start op c" by (auto simp: conn_step_def stream_step_def worker_step_def split: poll_pc.splits)
  with s show ?thesis
    by (cases op) (auto simp: stuck_def poll_write_start_def perform_def push_count_def blocked_def refused_def Let_def)
next
  case WriteRecheck
  with st obtain op where "c' = poll_write_recheck op c" by (auto simp: conn_step_def stream_step_def worker_step_def split: poll_pc.splits)
  with s show ?thesis
    by (cases op) (auto simp: stuck_def poll_write_recheck_def perform_def push_count_def blocked_def Let_def)
qed (use s st in \<open>auto simp: conn_step_def stream_step_def worker_step_def stuck_def poll_read_start_def poll_read_register_def
      poll_read_recheck_def poll_write_register_def take_recv_def stream_drop_def io_pass_def prune_socket_def Let_def
      split: poll_pc.splits if_splits\<close>)

interpretation stuck_machine: invariant_machine "conn_step ops" "stuck bs" for ops bs
  by unfold_locales (rule stuck_step)

text \<open>
  When the worker drops a socket whose send buffer is full, the application is not told: \<open>write_closed\<close> stays as it
  was, and in every continuation not one more byte is accepted from it; as long as the stream is not dropped, its
  next poll of a write registers and goes to sleep.
\<close>

theorem pruned_writer_stuck:
  assumes "tracked c" and "\<not> socket_dropped c" and "\<not> write_closed c" and "\<not> sk_is_active ops (sock c)"
    and "send_cap c \<le> length (send_rb c)"
    and "run_steps (conn_step ops) es (prune_socket ops c) = Some c'"
  shows "\<not> tracked c' \<and> put c' = put c \<and>
    (\<not> socket_dropped c' \<and> \<not> write_closed c' \<and> writer c' = PIdle \<longrightarrow>
       (\<exists>c''. run_steps (conn_step ops) [WriteStart (OpWrite bs), WriteRegister, WriteRecheck] c' = Some c'' \<and> writer_asleep c''))"
proof -
  have "stuck (put c) (prune_socket ops c)" using assms(1-5) by (simp add: stuck_def prune_socket_def Let_def)
  from stuck_machine.run_inv [OF this assms(6)] have s: "stuck (put c) c'" .
  then have full: "send_cap c' \<le> length (send_rb c')" by (simp add: stuck_def)
  have "\<exists>c''. run_steps (conn_step ops) [WriteStart (OpWrite bs), WriteRegister, WriteRecheck] c' = Some c'' \<and> writer_asleep c''"
    if "\<not> socket_dropped c'" "\<not> write_closed c'" "writer c' = PIdle"
    using that full
    by (simp add: conn_step_def stream_step_def poll_write_start_def poll_write_register_def poll_write_recheck_def
        refused_def blocked_def writer_asleep_def Let_def)
  with s show ?thesis by (simp add: stuck_def)
qed

text \<open>Nothing wakes a reader that sleeps next to \<open>read_closed\<close>, but data.\<close>

definition eof_lost :: "'k conn \<Rightarrow> bool" where
  "eof_lost c \<longleftrightarrow> read_closed c \<and> reader_asleep c \<and> recv_rb c = [] \<and> \<not> tracked c"

definition is_reader_event :: "'k conn_event \<Rightarrow> bool" where
  "is_reader_event e = (case e of ReadStart _ \<Rightarrow> True | _ \<Rightarrow> False)"

lemma eof_lost_step:
  assumes s: "eof_lost c" and st: "conn_step ops e c = Some c'" and e: "\<not> is_reader_event e"
  shows "eof_lost c'"
proof (cases e)
  case (WriteStart op)
  with st have "c' = poll_write_start op c" by (auto simp: conn_step_def stream_step_def worker_step_def split: poll_pc.splits)
  with s show ?thesis
    by (cases op) (auto simp: eof_lost_def reader_asleep_def poll_write_start_def perform_def Let_def)
next
  case WriteRecheck
  with st obtain op where "c' = poll_write_recheck op c" by (auto simp: conn_step_def stream_step_def worker_step_def split: poll_pc.splits)
  with s show ?thesis
    by (cases op) (auto simp: eof_lost_def reader_asleep_def poll_write_recheck_def perform_def Let_def)
qed (use s st e in \<open>auto simp: conn_step_def stream_step_def worker_step_def eof_lost_def reader_asleep_def is_reader_event_def
      poll_write_register_def stream_drop_def io_pass_def prune_socket_def Let_def split: poll_pc.splits if_splits\<close>)

lemma eof_lost_run:
  "eof_lost c \<Longrightarrow> run_steps (conn_step ops) es c = Some c' \<Longrightarrow> \<forall>e \<in> set es. \<not> is_reader_event e \<Longrightarrow> eof_lost c'"
proof (induction es arbitrary: c)
  case (Cons e es)
  then obtain c1 where "conn_step ops e c = Some c1" "run_steps (conn_step ops) es c1 = Some c'" by (auto split: option.splits)
  with Cons eof_lost_step show ?case by (metis list.set_intros(1) list.set_intros(2))
qed simp

text \<open>
  The wake-up for the end of a connection can be lost. If the socket closes between the first look of a poll and the
  registration of its waker, the worker sets \<open>read_closed\<close> and wakes nobody; the poll then looks only at the buffer,
  and goes to sleep. From there no run wakes it: the reader stays asleep although the end has been reported.
\<close>

theorem eof_wakeup_lost:
  assumes "sk_can_recv ops k = False" and "sk_is_open ops k = False" and "sk_is_active ops k = False"
    and "\<forall>e \<in> set es. \<not> is_reader_event e"
    and "run_steps (conn_step ops) ([ReadStart n, IoPass, ReadRegister, ReadRecheck n, Prune] @ es) (conn_new src dst rcap scap k) = Some c"
  shows "read_closed c \<and> reader_asleep c"
proof -
  have io: "io_send ops False (conn_new src dst rcap scap k\<lparr>reader := r, read_closed := b\<rparr>) =
      (False, conn_new src dst rcap scap k\<lparr>reader := r, read_closed := b\<rparr>)" for r b
    by (subst io_send.simps) (simp add: conn_new_def)
  obtain c1 where c1: "run_steps (conn_step ops) [ReadStart n, IoPass, ReadRegister, ReadRecheck n, Prune]
      (conn_new src dst rcap scap k) = Some c1" and rest: "run_steps (conn_step ops) es c1 = Some c"
    using assms(5) by (auto simp: run_steps_append split: option.splits)
  have "eof_lost c1"
    using c1 assms(1-3) io
    by (auto simp: conn_step_def stream_step_def worker_step_def poll_read_start_def poll_read_register_def poll_read_recheck_def
        io_pass_def handle_socket_io_def io_recv_def io_closed_def wake_recv_def prune_socket_def conn_new_def eof_lost_def
        reader_asleep_def Let_def)
  from eof_lost_run [OF this rest assms(4)] show ?thesis by (simp add: eof_lost_def)
qed

section \<open>Witnesses\<close>

text \<open>A socket with the bytes it has received, and whether it is alive.\<close>

definition tiny_socket :: "(bytes \<times> bool) socket_ops" where
  "tiny_socket =
     \<lparr>sk_can_recv = (\<lambda>k. fst k \<noteq> []), sk_recv = (\<lambda>k. Some (fst k)), sk_recv_done = (\<lambda>n k. (drop n (fst k), snd k)),
      sk_can_send = snd, sk_send = (\<lambda>_. Some 1), sk_send_done = (\<lambda>_ k. k), sk_is_open = snd, sk_is_active = snd,
      sk_close = (\<lambda>k. (fst k, False)), sk_abort = (\<lambda>k. ([], False))\<rparr>"

definition tiny_conn :: "bytes \<times> bool \<Rightarrow> (bytes \<times> bool) conn" where
  "tiny_conn k = conn_new (SAV4 \<lparr>v4_ip = Ipv4 10 0 0 1, v4_port = 9\<rparr>) (SAV4 \<lparr>v4_ip = Ipv4 10 0 0 2, v4_port = 80\<rparr>) 2 2 k"

lemmas conn_eval = conn_step_def stream_step_def worker_step_def poll_read_start_def poll_read_register_def poll_read_recheck_def
  poll_write_start_def poll_write_register_def poll_write_recheck_def perform_def blocked_def refused_def take_recv_def
  io_pass_def handle_socket_io_def io_recv_def io_closed_def wake_recv_def prune_socket_def conn_new_def push_count_def
  tiny_conn_def tiny_socket_def Let_def

theorem tcp_stream_fifo_witness:
  "\<exists>c. run_steps (conn_step tiny_socket)
         [ReadStart 1, ReadRegister, ReadRecheck 1, Smoltcp (\<lambda>_. ([1, 2, 3], True)), IoPass, ReadStart 1] (tiny_conn ([], True)) = Some c \<and>
       got c = [1] \<and> taken c = got c @ recv_rb c \<and> length (recv_rb c) \<le> recv_cap c"
proof -
  let ?es = "[ReadStart 1, ReadRegister, ReadRecheck 1, Smoltcp (\<lambda>_. ([1, 2, 3], True)), IoPass, ReadStart 1]"
  obtain c where c: "run_steps (conn_step tiny_socket) ?es (tiny_conn ([], True)) = Some c" and g: "got c = [1]"
    by (simp add: conn_eval io_send.simps)
  from tcp_stream_fifo [OF c [unfolded tiny_conn_def]] c g show ?thesis by blast
qed

theorem pruned_writer_stuck_witness:
  "\<not> tracked (prune_socket tiny_socket (tiny_conn ([], False)\<lparr>send_rb := [7, 8]\<rparr>)) \<and>
   (\<exists>c''. run_steps (conn_step tiny_socket) [WriteStart (OpWrite [9]), WriteRegister, WriteRecheck]
      (prune_socket tiny_socket (tiny_conn ([], False)\<lparr>send_rb := [7, 8]\<rparr>)) = Some c'' \<and> writer_asleep c'')"
proof -
  let ?c = "tiny_conn ([], False)\<lparr>send_rb := [7, 8]\<rparr>"
  have "tracked ?c" "\<not> socket_dropped ?c" "\<not> write_closed ?c" "\<not> sk_is_active tiny_socket (sock ?c)"
    "send_cap ?c \<le> length (send_rb ?c)" "run_steps (conn_step tiny_socket) [] (prune_socket tiny_socket ?c) = Some (prune_socket tiny_socket ?c)"
    by (simp_all add: conn_eval)
  note p = pruned_writer_stuck [OF this, of "[9]"]
  have "\<not> socket_dropped (prune_socket tiny_socket ?c)" "\<not> write_closed (prune_socket tiny_socket ?c)"
    "writer (prune_socket tiny_socket ?c) = PIdle"
    by (simp_all add: conn_eval)
  with p show ?thesis by blast
qed

theorem eof_wakeup_lost_witness:
  "\<exists>c. run_steps (conn_step tiny_socket) ([ReadStart 1, IoPass, ReadRegister, ReadRecheck 1, Prune] @ [IoPass, StreamDrop, IoPass])
         (tiny_conn ([], False)) = Some c \<and> read_closed c \<and> reader_asleep c"
proof -
  let ?es = "[IoPass, StreamDrop, IoPass] :: (bytes \<times> bool) conn_event list"
  obtain c where c: "run_steps (conn_step tiny_socket) ([ReadStart 1, IoPass, ReadRegister, ReadRecheck 1, Prune] @ ?es)
      (tiny_conn ([], False)) = Some c"
    by (simp add: conn_eval io_send.simps stream_drop_def)
  have "read_closed c \<and> reader_asleep c"
    by (rule eof_wakeup_lost [OF _ _ _ _ c [unfolded tiny_conn_def]]) (simp_all add: tiny_socket_def is_reader_event_def)
  with c show ?thesis by blast
qed

end
