(* ===== verification/Net_Worker.thy ===== *)
theory Net_Worker
  imports Net_Tcp "HOL-Library.List_Lexorder"
begin

text \<open>
  The rest of \<open>crates/ombrac-netstack/src/tcp.rs\<close>: the dispatcher that spreads packets over the workers, and a worker
  with its connections. The parsers of \<open>smoltcp::wire\<close>, the poll of the interface and the hash function are arguments.
\<close>

section \<open>Parsed packets\<close>

record ip_info =
  ii_src :: ip_addr
  ii_dst :: ip_addr
  ii_is_tcp :: bool
  ii_payload :: bytes

record tcp_info =
  ti_src_port :: u16
  ti_dst_port :: u16
  ti_syn :: bool
  ti_ack :: bool

record wire =
  parse_ip :: "bytes \<Rightarrow> ip_info option"
  parse_tcp :: "bytes \<Rightarrow> tcp_info option"

section \<open>Distribution\<close>

text \<open>The order of \<open>SocketAddr\<close>: IPv4 before IPv6, then by address, then by port, flow label and scope.\<close>

fun addr_key :: "socket_addr \<Rightarrow> nat list" where
  "addr_key (SAV4 a) = 0 # map unat (v4_octets (v4_ip a)) @ [unat (v4_port a)]"
| "addr_key (SAV6 a) = 1 # map unat (v6_segments (v6_ip a)) @ [unat (v6_port a), unat (v6_flowinfo a), unat (v6_scope_id a)]"

definition ordered_pair :: "socket_addr \<Rightarrow> socket_addr \<Rightarrow> socket_addr \<times> socket_addr" where
  "ordered_pair addr1 addr2 = (if addr_key addr2 < addr_key addr1 then (addr2, addr1) else (addr1, addr2))"

text \<open>\<open>None\<close>: the remainder by zero workers panics.\<close>

definition worker_index :: "wire \<Rightarrow> (socket_addr \<Rightarrow> socket_addr \<Rightarrow> u64) \<Rightarrow> nat \<Rightarrow> bytes \<Rightarrow> nat option" where
  "worker_index w hash num_workers packet =
     (case parse_ip w packet of
        None \<Rightarrow> Some 0
      | Some ip_packet \<Rightarrow>
          if ii_is_tcp ip_packet then
            (case parse_tcp w (ii_payload ip_packet) of
               None \<Rightarrow> Some 0
             | Some tcp_packet \<Rightarrow>
                 (let (addr1, addr2) = ordered_pair (socket_addr_new (ii_src ip_packet) (ti_src_port tcp_packet))
                                                    (socket_addr_new (ii_dst ip_packet) (ti_dst_port tcp_packet))
                  in if num_workers = 0 then None else Some (unat (hash addr1 addr2) mod num_workers)))
          else Some 0)"

text \<open>
  \<open>distribute_packets\<close> on the packets it receives one after the other: what each worker's channel has got, until the
  inbound channel ends or a worker's channel is closed.
\<close>

fun distribute_packets ::
    "wire \<Rightarrow> (socket_addr \<Rightarrow> socket_addr \<Rightarrow> u64) \<Rightarrow> nat \<Rightarrow> (nat \<Rightarrow> bool) \<Rightarrow> bytes list \<Rightarrow> (nat \<Rightarrow> bytes list) \<Rightarrow> (nat \<Rightarrow> bytes list) option" where
  "distribute_packets w hash num_workers alive [] queues = Some queues"
| "distribute_packets w hash num_workers alive (packet # packets) queues =
     (case worker_index w hash num_workers packet of
        None \<Rightarrow> None
      | Some i \<Rightarrow>
          if num_workers \<le> i then None
          else if alive i
          then distribute_packets w hash num_workers alive packets (queues(i := queues i @ [packet]))
          else Some queues)"

section \<open>A worker\<close>

record 'k worker =
  wk_conns :: "nat \<Rightarrow> 'k conn option"
  wk_next :: nat
  wk_inbound :: "bytes list"
  wk_device :: "bytes list"
  wk_device_cap :: nat
  wk_streams :: "nat list"

text \<open>\<open>wk_streams\<close>: the connections whose \<open>TcpStream\<close> has been emitted. \<open>new_socket\<close> is \<open>Socket::new\<close> with its options and
  \<open>listen\<close>, \<open>try_emit\<close> whether the channel of streams has room.\<close>

record 'k worker_env =
  we_wire :: wire
  we_new_socket :: "socket_addr \<Rightarrow> 'k io_result"
  we_try_emit :: "'k worker \<Rightarrow> bool"
  we_recv_buffer_size :: nat
  we_send_buffer_size :: nat

definition accept_new_connection ::
    "'k worker_env \<Rightarrow> ip_info \<Rightarrow> tcp_info \<Rightarrow> 'k worker \<Rightarrow> unit io_result \<times> 'k worker" where
  "accept_new_connection env ip_packet tcp_packet w =
     (let src_addr = socket_addr_new (ii_src ip_packet) (ti_src_port tcp_packet);
          dst_addr = socket_addr_new (ii_dst ip_packet) (ti_dst_port tcp_packet)
      in case we_new_socket env dst_addr of
           Inl e \<Rightarrow> (Inl (io_err KOther (err_msg e)), w)
         | Inr socket \<Rightarrow>
             if we_try_emit env w
             then (Inr (), w\<lparr>wk_conns := (wk_conns w)
                       (wk_next w \<mapsto> conn_new src_addr dst_addr (we_recv_buffer_size env) (we_send_buffer_size env) socket),
                     wk_next := Suc (wk_next w), wk_streams := wk_streams w @ [wk_next w]\<rparr>)
             else (Inr (), w))"

definition inject :: "bytes \<Rightarrow> 'k worker \<Rightarrow> unit io_result \<times> 'k worker" where
  "inject frame w =
     (if length (wk_device w) < wk_device_cap w then (Inr (), w\<lparr>wk_device := wk_device w @ [frame]\<rparr>)
      else (Inl (io_err KOther ''no available capacity''), w))"

definition is_opening :: "wire \<Rightarrow> bytes \<Rightarrow> (ip_info \<times> tcp_info) option" where
  "is_opening w frame =
     (case parse_ip w frame of
        None \<Rightarrow> None
      | Some ip_packet \<Rightarrow>
          if ii_is_tcp ip_packet then
            (case parse_tcp w (ii_payload ip_packet) of
               None \<Rightarrow> None
             | Some tcp_packet \<Rightarrow> if ti_syn tcp_packet \<and> \<not> ti_ack tcp_packet then Some (ip_packet, tcp_packet) else None)
          else None)"

definition process_inbound_frame :: "'k worker_env \<Rightarrow> bytes \<Rightarrow> 'k worker \<Rightarrow> unit io_result \<times> 'k worker" where
  "process_inbound_frame env frame w =
     (case is_opening (we_wire env) frame of
        None \<Rightarrow> inject frame w
      | Some (ip_packet, tcp_packet) \<Rightarrow>
          (case accept_new_connection env ip_packet tcp_packet w of
             (Inl e, w1) \<Rightarrow> (Inl e, w1)
           | (Inr _, w1) \<Rightarrow> inject frame w1))"

text \<open>
  One round of the draining loop of \<open>accept_loop\<close>: the waiting frames (an error is only logged), a poll of the interface,
  the sockets, the pruning, another poll; the result says whether there was progress. \<open>poll\<close> is \<open>Interface::poll\<close> with
  the device: it changes the sockets in the set and takes frames from the device.
\<close>

fun drain_inbound :: "'k worker_env \<Rightarrow> bytes list \<Rightarrow> 'k worker \<Rightarrow> 'k worker" where
  "drain_inbound env [] w = w"
| "drain_inbound env (frame # frames) w = drain_inbound env frames (snd (process_inbound_frame env frame w))"

type_synonym 'k iface_poll = "'k worker \<Rightarrow> bool \<times> (nat \<Rightarrow> 'k \<Rightarrow> 'k) \<times> bytes list"

definition poll_iface :: "'k iface_poll \<Rightarrow> 'k worker \<Rightarrow> bool \<times> 'k worker" where
  "poll_iface poll w =
     (let (progress, f, device) = poll w
      in (progress, w\<lparr>wk_conns := (\<lambda>h. map_option (\<lambda>c. if tracked c then c\<lparr>sock := f h (sock c)\<rparr> else c) (wk_conns w h)),
                      wk_device := device\<rparr>))"

definition socket_pass :: "('k conn \<Rightarrow> 'k conn) \<Rightarrow> 'k worker \<Rightarrow> 'k worker" where
  "socket_pass f w = w\<lparr>wk_conns := (\<lambda>h. map_option f (wk_conns w h))\<rparr>"

definition moved :: "'k socket_ops \<Rightarrow> 'k worker \<Rightarrow> bool" where
  "moved ops w \<longleftrightarrow>
     (\<exists>h \<in> {..<wk_next w}. case wk_conns w h of
        None \<Rightarrow> False | Some c \<Rightarrow> taken (io_pass ops c) \<noteq> taken c \<or> handed (io_pass ops c) \<noteq> handed c)"

definition pruned :: "'k socket_ops \<Rightarrow> 'k worker \<Rightarrow> bool" where
  "pruned ops w \<longleftrightarrow>
     (\<exists>h \<in> {..<wk_next w}. case wk_conns w h of None \<Rightarrow> False | Some c \<Rightarrow> tracked c \<and> \<not> tracked (prune_socket ops c))"

definition work_round :: "'k socket_ops \<Rightarrow> 'k worker_env \<Rightarrow> 'k iface_poll \<Rightarrow> 'k worker \<Rightarrow> bool \<times> 'k worker" where
  "work_round ops env poll w =
     (let w1 = drain_inbound env (wk_inbound w) (w\<lparr>wk_inbound := []\<rparr>);
          (p1, w2) = poll_iface poll w1;
          w3 = socket_pass (io_pass ops) w2;
          w4 = socket_pass (prune_socket ops) w3;
          (p2, w5) = poll_iface poll w4
      in (wk_inbound w \<noteq> [] \<or> p1 \<or> moved ops w2 \<or> pruned ops w3 \<or> p2, w5))"

section \<open>Distribution is by connection\<close>

lemma addr_key_inj: "addr_key a = addr_key b \<Longrightarrow> a = b"
proof (cases a; cases b)
  fix x y assume ab: "a = SAV4 x" "b = SAV4 y" and k: "addr_key a = addr_key b"
  have "v4_ip x = v4_ip y" using k by (cases "v4_ip x"; cases "v4_ip y") (auto simp: ab word_unat_eq_iff)
  moreover have "v4_port x = v4_port y" using k by (cases "v4_ip x"; cases "v4_ip y") (auto simp: ab word_unat_eq_iff)
  ultimately show "a = b" by (simp add: ab)
next
  fix x y assume ab: "a = SAV6 x" "b = SAV6 y" and k: "addr_key a = addr_key b"
  have "v6_ip x = v6_ip y \<and> v6_port x = v6_port y \<and> v6_flowinfo x = v6_flowinfo y \<and> v6_scope_id x = v6_scope_id y"
    using k by (cases "v6_ip x"; cases "v6_ip y") (auto simp: ab word_unat_eq_iff)
  then show "a = b" by (simp add: ab)
qed auto

lemma ordered_pair_commute: "ordered_pair a b = ordered_pair b a"
proof (cases "addr_key a" "addr_key b" rule: linorder_cases)
  case less then show ?thesis by (simp add: ordered_pair_def less_not_sym)
next
  case equal then show ?thesis using addr_key_inj [of a b] by simp
next
  case greater then show ?thesis by (simp add: ordered_pair_def less_not_sym)
qed

text \<open>
  C30. The two directions of a TCP connection always go to the same worker, whose index is in range; and each worker gets
  exactly the packets of its index, in the order in which they came.
\<close>

theorem distribution_by_connection:
  assumes "parse_ip w p = Some ip" and "ii_is_tcp ip" and "parse_tcp w (ii_payload ip) = Some t"
    and "parse_ip w p' = Some ip'" and "ii_is_tcp ip'" and "parse_tcp w (ii_payload ip') = Some t'"
    and "ii_src ip' = ii_dst ip" and "ii_dst ip' = ii_src ip" and "ti_src_port t' = ti_dst_port t" and "ti_dst_port t' = ti_src_port t"
    and "0 < num_workers"
  shows "worker_index w hash num_workers p' = worker_index w hash num_workers p \<and>
    (\<exists>i < num_workers. worker_index w hash num_workers p = Some i) \<and>
    distribute_packets w hash num_workers (\<lambda>_. True) ps queues =
      Some (\<lambda>i. queues i @ filter (\<lambda>q. worker_index w hash num_workers q = Some i) ps)"
proof (intro conjI)
  let ?a = "socket_addr_new (ii_src ip) (ti_src_port t)" and ?b = "socket_addr_new (ii_dst ip) (ti_dst_port t)"
  have "ordered_pair ?b ?a = ordered_pair ?a ?b" by (rule ordered_pair_commute)
  then show "worker_index w hash num_workers p' = worker_index w hash num_workers p"
    using assms by (simp add: worker_index_def)
  have range: "\<exists>i < num_workers. worker_index w hash num_workers q = Some i" for q
    using assms(11) by (auto simp: worker_index_def Let_def split: option.split prod.split)
  then show "\<exists>i < num_workers. worker_index w hash num_workers p = Some i" .
  show "distribute_packets w hash num_workers (\<lambda>_. True) ps queues =
      Some (\<lambda>i. queues i @ filter (\<lambda>q. worker_index w hash num_workers q = Some i) ps)"
  proof (induction ps arbitrary: queues)
    case (Cons q qs)
    from range [of q] obtain i where i: "i < num_workers" "worker_index w hash num_workers q = Some i" by blast
    then show ?case by (auto simp: Cons.IH fun_eq_iff)
  qed simp
qed

section \<open>The worker's connections\<close>

text \<open>Every stream that was emitted has a connection of its own, and every connection keeps its invariant.\<close>

definition worker_inv :: "'k worker \<Rightarrow> bool" where
  "worker_inv w \<longleftrightarrow>
     dom (wk_conns w) = {..<wk_next w} \<and> distinct (wk_streams w) \<and> set (wk_streams w) = dom (wk_conns w) \<and>
     (\<forall>c \<in> ran (wk_conns w). conn_inv c)"

lemma inject_frame: "snd (inject f w) = w\<lparr>wk_device := wk_device (snd (inject f w))\<rparr>"
  by (simp add: inject_def)

lemma worker_inv_device [simp]: "worker_inv (w\<lparr>wk_device := d\<rparr>) = worker_inv w" "worker_inv (w\<lparr>wk_inbound := q\<rparr>) = worker_inv w"
  by (simp_all add: worker_inv_def)

lemma ran_upd_le: "ran (m(k \<mapsto> v)) \<subseteq> insert v (ran m)"
  by (auto simp: ran_def)

lemma accept_inv:
  assumes "worker_inv w"
  shows "worker_inv (snd (accept_new_connection env ip t w))"
proof (cases "we_new_socket env (socket_addr_new (ii_dst ip) (ti_dst_port t))")
  case (Inl e)
  with assms show ?thesis by (simp add: accept_new_connection_def Let_def)
next
  case (Inr k)
  show ?thesis
  proof (cases "we_try_emit env w")
    case False
    with Inr assms show ?thesis by (simp add: accept_new_connection_def Let_def)
  next
    case True
    let ?c = "conn_new (socket_addr_new (ii_src ip) (ti_src_port t)) (socket_addr_new (ii_dst ip) (ti_dst_port t))
        (we_recv_buffer_size env) (we_send_buffer_size env) k"
    have "\<forall>c \<in> ran ((wk_conns w)(wk_next w \<mapsto> ?c)). conn_inv c"
    proof
      fix c assume "c \<in> ran ((wk_conns w)(wk_next w \<mapsto> ?c))"
      then consider "c = ?c" | "c \<in> ran (wk_conns w)" using ran_upd_le [of "wk_conns w" "wk_next w" ?c] by blast
      then show "conn_inv c" using assms conn_inv_new by cases (auto simp: worker_inv_def)
    qed
    with assms True Inr show ?thesis
      by (auto simp: accept_new_connection_def worker_inv_def Let_def lessThan_Suc)
  qed
qed

lemma process_inv:
  assumes "worker_inv w"
  shows "worker_inv (snd (process_inbound_frame env frame w))"
proof -
  have inj: "worker_inv v \<Longrightarrow> worker_inv (snd (inject frame v))" for v
    by (subst inject_frame) simp
  show ?thesis
    using assms inj accept_inv [OF assms, of env]
    by (auto simp: process_inbound_frame_def split: option.split prod.split sum.split)
      (metis snd_conv)+
qed

lemma drain_inv: "worker_inv w \<Longrightarrow> worker_inv (drain_inbound env fs w)"
  by (induction env fs w rule: drain_inbound.induct) (simp_all add: process_inv)

lemma map_conns_inv:
  assumes "worker_inv w" and "\<And>h c. conn_inv c \<Longrightarrow> conn_inv (f h c)"
  shows "worker_inv (w\<lparr>wk_conns := (\<lambda>h. map_option (f h) (wk_conns w h))\<rparr>)"
proof -
  have "dom (\<lambda>h. map_option (f h) (wk_conns w h)) = dom (wk_conns w)" by auto
  moreover have "conn_inv c" if "c \<in> ran (\<lambda>h. map_option (f h) (wk_conns w h))" for c
    using that assms by (auto simp: ran_def worker_inv_def)
  ultimately show ?thesis using assms(1) by (simp add: worker_inv_def)
qed

lemma poll_iface_inv:
  assumes "worker_inv w"
  shows "worker_inv (snd (poll_iface poll w))"
proof -
  obtain b f d where p: "poll w = (b, f, d)" by (metis prod.exhaust)
  have "worker_inv (w\<lparr>wk_conns := (\<lambda>h. map_option (\<lambda>c. if tracked c then c\<lparr>sock := f h (sock c)\<rparr> else c) (wk_conns w h))\<rparr>)"
    by (rule map_conns_inv [OF assms]) simp
  then show ?thesis using worker_inv_device(1) by (simp add: poll_iface_def p worker_inv_def)
qed

lemma socket_pass_inv: "worker_inv w \<Longrightarrow> (\<And>c. conn_inv c \<Longrightarrow> conn_inv (f c)) \<Longrightarrow> worker_inv (socket_pass f w)"
  unfolding socket_pass_def by (rule map_conns_inv) auto

lemma io_pass_inv: "conn_inv c \<Longrightarrow> conn_inv (io_pass ops c)"
  using worker_step_inv [of c ops IoPass] by (simp add: worker_step_def)

lemma prune_socket_inv: "conn_inv c \<Longrightarrow> conn_inv (prune_socket ops c)"
  using worker_step_inv [of c ops Prune] by (simp add: worker_step_def)

lemma work_round_inv: "worker_inv w \<Longrightarrow> worker_inv (snd (work_round ops env poll w))"
  unfolding work_round_def
  by (auto simp: Let_def split: prod.split)
    (metis drain_inv poll_iface_inv socket_pass_inv io_pass_inv prune_socket_inv snd_conv worker_inv_device(2))

definition worker_new :: "nat \<Rightarrow> 'k worker" where
  "worker_new cap =
     \<lparr>wk_conns = Map.empty, wk_next = 0, wk_inbound = [], wk_device = [], wk_device_cap = cap, wk_streams = []\<rparr>"

text \<open>The worker receives a frame, or works for a round.\<close>

datatype 'k worker_event = FrameArrives bytes | WorkRound "'k iface_poll"

definition worker_event_step :: "'k socket_ops \<Rightarrow> 'k worker_env \<Rightarrow> 'k worker_event \<Rightarrow> 'k worker \<Rightarrow> 'k worker option" where
  "worker_event_step ops env e w =
     (case e of
        FrameArrives f \<Rightarrow> Some (w\<lparr>wk_inbound := wk_inbound w @ [f]\<rparr>)
      | WorkRound poll \<Rightarrow> Some (snd (work_round ops env poll w)))"

interpretation worker_machine: invariant_machine "worker_event_step ops env" worker_inv for ops env
  by unfold_locales (auto simp: worker_event_step_def work_round_inv split: worker_event.splits)

lemma worker_new_inv: "worker_inv (worker_new cap)"
  by (simp add: worker_inv_def worker_new_def)

text \<open>
  Whatever frames arrive and whatever the interface does, every stream the worker has emitted has a connection of its
  own, no two share one, and the buffers of every connection are in order and within their bounds.
\<close>

theorem worker_streams_own_connections:
  assumes "run_steps (worker_event_step ops env) es (worker_new cap) = Some w"
  shows "distinct (wk_streams w) \<and>
    (\<forall>h \<in> set (wk_streams w). \<exists>c. wk_conns w h = Some c \<and> taken c = got c @ recv_rb c \<and> put c = handed c @ send_rb c \<and>
       length (recv_rb c) \<le> recv_cap c \<and> length (send_rb c) \<le> send_cap c)"
proof -
  have inv: "worker_inv w" by (rule worker_machine.run_inv [OF worker_new_inv assms])
  then have bytes: "wk_conns w h = Some c \<Longrightarrow> bytes_ok c" for h c
    by (auto simp: worker_inv_def conn_inv_def ran_def)
  from inv have "distinct (wk_streams w)" and "\<forall>h \<in> set (wk_streams w). \<exists>c. wk_conns w h = Some c"
    by (auto simp: worker_inv_def)
  with bytes show ?thesis unfolding bytes_ok_def by metis
qed

text \<open>
  A segment that opens a connection gives the application one stream with the addresses of the segment, and the segment
  goes on to the interface; but the worker does not ask whether the connection exists already: the same segment sent
  again gives a second stream with the same addresses.
\<close>

theorem opening_segment:
  assumes "is_opening (we_wire env) frame = Some (ip, t)" and "\<forall>a. we_new_socket env a = Inr k" and "\<forall>v. we_try_emit env v"
    and "length (wk_device w) + 1 < wk_device_cap w"
  shows "(let w' = drain_inbound env [frame, frame] w;
              c = conn_new (socket_addr_new (ii_src ip) (ti_src_port t)) (socket_addr_new (ii_dst ip) (ti_dst_port t))
                    (we_recv_buffer_size env) (we_send_buffer_size env) k
          in wk_streams w' = wk_streams w @ [wk_next w, Suc (wk_next w)] \<and> wk_device w' = wk_device w @ [frame, frame] \<and>
             wk_conns w' = (wk_conns w)(wk_next w \<mapsto> c, Suc (wk_next w) \<mapsto> c))"
  using assms
  by (simp add: process_inbound_frame_def accept_new_connection_def inject_def Let_def)

section \<open>Witnesses\<close>

text \<open>A packet of one octet: 0 and 1 are the two directions of one connection, both opening.\<close>

definition tiny_wire :: wire where
  "tiny_wire =
     \<lparr>parse_ip = (\<lambda>p. case p of
        [x] \<Rightarrow> Some \<lparr>ii_src = IpV4 (Ipv4 10 0 0 (if x = 0 then 1 else 2)), ii_dst = IpV4 (Ipv4 10 0 0 (if x = 0 then 2 else 1)),
                     ii_is_tcp = True, ii_payload = p\<rparr>
      | _ \<Rightarrow> None),
      parse_tcp = (\<lambda>p. case p of
        [x] \<Rightarrow> Some \<lparr>ti_src_port = (if x = 0 then 9 else 80), ti_dst_port = (if x = 0 then 80 else 9), ti_syn = True, ti_ack = False\<rparr>
      | _ \<Rightarrow> None)\<rparr>"

definition tiny_worker_env :: "(bytes \<times> bool) worker_env" where
  "tiny_worker_env =
     \<lparr>we_wire = tiny_wire, we_new_socket = (\<lambda>_. Inr ([], True)), we_try_emit = (\<lambda>_. True), we_recv_buffer_size = 2, we_send_buffer_size = 2\<rparr>"

theorem distribution_by_connection_witness:
  "worker_index tiny_wire (\<lambda>a b. if a = socket_addr_new (IpV4 (Ipv4 10 0 0 1)) 9 then 5 else 4) 4 [1] =
   worker_index tiny_wire (\<lambda>a b. if a = socket_addr_new (IpV4 (Ipv4 10 0 0 1)) 9 then 5 else 4) 4 [0]"
  by (rule distribution_by_connection [THEN conjunct1])
    (rule refl | simp add: tiny_wire_def)+

theorem worker_streams_own_connections_witness:
  "\<exists>w. run_steps (worker_event_step tiny_socket tiny_worker_env)
         [FrameArrives [0], WorkRound (\<lambda>w. (False, \<lambda>h k. k, [])), FrameArrives [1], WorkRound (\<lambda>w. (True, \<lambda>h k. ([7], True), []))]
         (worker_new 4) = Some w \<and>
       wk_streams w = [0, 1] \<and> (\<forall>h \<in> {0, 1}. \<exists>c. wk_conns w h = Some c \<and> taken c = got c @ recv_rb c)"
proof -
  let ?es = "[FrameArrives [0], WorkRound (\<lambda>w. (False, \<lambda>h k. k, [])), FrameArrives [1], WorkRound (\<lambda>w. (True, \<lambda>h k. ([7], True), []))]"
  obtain w where w: "run_steps (worker_event_step tiny_socket tiny_worker_env) ?es (worker_new 4) = Some w"
    and s: "wk_streams w = [0, 1]"
    by (simp add: worker_event_step_def work_round_def poll_iface_def socket_pass_def process_inbound_frame_def is_opening_def
        accept_new_connection_def inject_def tiny_worker_env_def tiny_wire_def worker_new_def Let_def)
  from worker_streams_own_connections [OF w] w s show ?thesis by auto
qed

theorem opening_segment_witness:
  "wk_streams (drain_inbound tiny_worker_env [[0], [0]] (worker_new 4)) = [0, 1]"
proof -
  obtain ip t where o: "is_opening (we_wire tiny_worker_env) [0] = Some (ip, t)"
    by (simp add: is_opening_def tiny_worker_env_def tiny_wire_def)
  have "\<forall>a. we_new_socket tiny_worker_env a = Inr ([], True)" and "\<forall>v. we_try_emit tiny_worker_env v"
    and "length (wk_device (worker_new 4 :: (bytes \<times> bool) worker)) + 1 < wk_device_cap (worker_new 4 :: (bytes \<times> bool) worker)"
    by (simp_all add: tiny_worker_env_def worker_new_def)
  from opening_segment [OF o this] show ?thesis by (simp add: Let_def worker_new_def)
qed

end
