(* ===== verification/Net_Dispatch.thy ===== *)
theory Net_Dispatch
  imports Net_Worker
begin

text \<open>
  \<open>TcpConnection\<close> of \<open>crates/ombrac-netstack/src/tcp.rs\<close> as a whole: the dispatcher task, the workers with their bounded channels
  and their two stages, and the channel of streams that all workers share and the application reads.
\<close>

section \<open>The tasks\<close>

text \<open>The dispatcher waits for a packet or for room in the channel of a worker; a worker drains its work or waits.\<close>

datatype dispatch_phase = DispatchRecv | DispatchSend nat bytes | DispatchEnded

datatype worker_phase = WorkerDraining | WorkerIdle | WorkerStopped

text \<open>\<open>tw_log\<close> records the frames a worker has taken from its channel.\<close>

record 'k tcp_worker =
  tw_worker :: "'k worker"
  tw_phase :: worker_phase
  tw_log :: "bytes list"

text \<open>
  \<open>tc_alive\<close>: the \<open>TcpConnection\<close> exists, and with it the receiver of the streams; dropping it sends the shutdown. A stream
  is the worker and its handle. \<open>tc_received\<close> and \<open>tc_taken\<close> record the packets the dispatcher has received and the streams the
  application has taken.
\<close>

record 'k tcp_connection =
  tc_inbound :: "bytes list"
  tc_inbound_open :: bool
  tc_dispatch :: dispatch_phase
  tc_workers :: "'k tcp_worker list"
  tc_streams :: "(nat \<times> nat) list"
  tc_alive :: bool
  tc_received :: "bytes list"
  tc_taken :: "(nat \<times> nat) list"

record 'k tcp_connection_env =
  tce_worker_env :: "'k worker_env"
  tce_socket :: "'k socket_ops"
  tce_hash :: "socket_addr \<Rightarrow> socket_addr \<Rightarrow> u64"
  tce_channel_size :: nat

definition tcp_connection_new :: "nat \<Rightarrow> nat \<Rightarrow> 'k tcp_connection" where
  "tcp_connection_new num_workers channel_size =
     \<lparr>tc_inbound = [], tc_inbound_open = True, tc_dispatch = DispatchRecv,
      tc_workers = replicate num_workers \<lparr>tw_worker = worker_new channel_size, tw_phase = WorkerDraining, tw_log = []\<rparr>,
      tc_streams = [], tc_alive = True, tc_received = [], tc_taken = []\<rparr>"

section \<open>The dispatcher\<close>

abbreviation index_of :: "'k tcp_connection_env \<Rightarrow> 'k tcp_connection \<Rightarrow> bytes \<Rightarrow> nat option" where
  "index_of env s \<equiv> worker_index (we_wire (tce_worker_env env)) (tce_hash env) (length (tc_workers s))"

text \<open>With no workers the task panics, which ends it.\<close>

definition dispatch_packet :: "'k tcp_connection_env \<Rightarrow> 'k tcp_connection \<Rightarrow> 'k tcp_connection option" where
  "dispatch_packet env s =
     (case (tc_dispatch s, tc_inbound s) of
        (DispatchRecv, packet # rest) \<Rightarrow>
          Some (s\<lparr>tc_inbound := rest, tc_received := tc_received s @ [packet],
                  tc_dispatch := (case index_of env s packet of
                                    None \<Rightarrow> DispatchEnded
                                  | Some i \<Rightarrow> if i < length (tc_workers s) then DispatchSend i packet else DispatchEnded)\<rparr>)
      | _ \<Rightarrow> None)"

definition dispatch_send :: "'k tcp_connection_env \<Rightarrow> 'k tcp_connection \<Rightarrow> 'k tcp_connection option" where
  "dispatch_send env s =
     (case tc_dispatch s of
        DispatchSend i packet \<Rightarrow>
          (let tw = tc_workers s ! i; w = tw_worker tw
           in if tw_phase tw = WorkerStopped then Some (s\<lparr>tc_dispatch := DispatchEnded\<rparr>)
              else if length (wk_inbound w) < tce_channel_size env
              then Some (s\<lparr>tc_dispatch := DispatchRecv,
                           tc_workers := (tc_workers s)[i := tw\<lparr>tw_worker := w\<lparr>wk_inbound := wk_inbound w @ [packet]\<rparr>\<rparr>]\<rparr>)
              else None)
      | _ \<Rightarrow> None)"

definition dispatch_stop :: "'k tcp_connection \<Rightarrow> 'k tcp_connection option" where
  "dispatch_stop s =
     (if tc_dispatch s = DispatchRecv \<and> (\<not> tc_alive s \<or> tc_inbound s = [] \<and> \<not> tc_inbound_open s)
      then Some (s\<lparr>tc_dispatch := DispatchEnded\<rparr>) else None)"

section \<open>A worker\<close>

text \<open>
  What the shared channel accepts: \<open>room\<close> says which of the streams a worker tries to emit find room; together they stay
  within the channel, and none is accepted when the receiver is gone.
\<close>

definition emit_streams ::
    "'k tcp_connection_env \<Rightarrow> nat \<Rightarrow> 'k tcp_worker \<Rightarrow> 'k tcp_worker \<Rightarrow> 'k tcp_connection \<Rightarrow> 'k tcp_connection option" where
  "emit_streams env i tw tw' s =
     (let emitted = drop (length (wk_streams (tw_worker tw))) (wk_streams (tw_worker tw'))
      in if emitted = [] \<or> tc_alive s \<and> length (tc_streams s) + length emitted \<le> tce_channel_size env
         then Some (s\<lparr>tc_workers := (tc_workers s)[i := tw'], tc_streams := tc_streams s @ map (Pair i) emitted\<rparr>) else None)"

text \<open>One round of the first stage; a packet that arrives meanwhile is left to the next. Without progress the worker goes to wait.\<close>

definition drain_round ::
    "'k tcp_connection_env \<Rightarrow> ('k worker \<Rightarrow> bool) \<Rightarrow> 'k iface_poll \<Rightarrow> nat \<Rightarrow> 'k tcp_connection \<Rightarrow> 'k tcp_connection option" where
  "drain_round env room poll i s =
     (if i < length (tc_workers s) \<and> tw_phase (tc_workers s ! i) = WorkerDraining
      then let tw = tc_workers s ! i;
               (progress, w) = work_round (tce_socket env) ((tce_worker_env env)\<lparr>we_try_emit := room\<rparr>) poll (tw_worker tw)
           in emit_streams env i tw
                \<lparr>tw_worker = w, tw_phase = (if progress then WorkerDraining else WorkerIdle),
                 tw_log = tw_log tw @ wk_inbound (tw_worker tw)\<rparr> s
      else None)"

text \<open>The second stage, whose branches are tried in this order: shutdown, a frame or the end of the channel, a wake-up or the timer.\<close>

definition idle_select ::
    "'k tcp_connection_env \<Rightarrow> ('k worker \<Rightarrow> bool) \<Rightarrow> nat \<Rightarrow> 'k tcp_connection \<Rightarrow> 'k tcp_connection option" where
  "idle_select env room i s =
     (if i < length (tc_workers s) \<and> tw_phase (tc_workers s ! i) = WorkerIdle
      then let tw = tc_workers s ! i; w = tw_worker tw
           in if \<not> tc_alive s then Some (s\<lparr>tc_workers := (tc_workers s)[i := tw\<lparr>tw_phase := WorkerStopped\<rparr>]\<rparr>)
              else case wk_inbound w of
                frame # frames \<Rightarrow>
                  emit_streams env i tw
                    \<lparr>tw_worker = snd (process_inbound_frame ((tce_worker_env env)\<lparr>we_try_emit := room\<rparr>) frame (w\<lparr>wk_inbound := frames\<rparr>)),
                     tw_phase = WorkerDraining, tw_log = tw_log tw @ [frame]\<rparr> s
              | [] \<Rightarrow>
                  Some (s\<lparr>tc_workers := (tc_workers s)[i := tw\<lparr>tw_phase :=
                            (if tc_dispatch s = DispatchEnded then WorkerStopped else WorkerDraining)\<rparr>]\<rparr>)
      else None)"

section \<open>The whole\<close>

datatype 'k tcp_connection_event =
    PacketArrives bytes
  | InboundCloses
  | DispatchPacket
  | DispatchRoom
  | DispatchStop
  | DrainRound "'k worker \<Rightarrow> bool" "'k iface_poll" nat
  | IdleSelect "'k worker \<Rightarrow> bool" nat
  | NextStream
  | ConnectionDropped

definition next_stream :: "'k tcp_connection \<Rightarrow> 'k tcp_connection option" where
  "next_stream s =
     (case tc_streams s of
        x # xs \<Rightarrow> if tc_alive s then Some (s\<lparr>tc_streams := xs, tc_taken := tc_taken s @ [x]\<rparr>) else None
      | [] \<Rightarrow> None)"

definition connection_drop :: "'k tcp_connection \<Rightarrow> 'k tcp_connection option" where
  "connection_drop s = (if tc_alive s then Some (s\<lparr>tc_alive := False\<rparr>) else None)"

definition tcp_connection_step ::
    "'k tcp_connection_env \<Rightarrow> 'k tcp_connection_event \<Rightarrow> 'k tcp_connection \<Rightarrow> 'k tcp_connection option" where
  "tcp_connection_step env e s =
     (case e of
        PacketArrives p \<Rightarrow> if tc_inbound_open s then Some (s\<lparr>tc_inbound := tc_inbound s @ [p]\<rparr>) else None
      | InboundCloses \<Rightarrow> Some (s\<lparr>tc_inbound_open := False\<rparr>)
      | DispatchPacket \<Rightarrow> dispatch_packet env s
      | DispatchRoom \<Rightarrow> dispatch_send env s
      | DispatchStop \<Rightarrow> dispatch_stop s
      | DrainRound room poll i \<Rightarrow> drain_round env room poll i s
      | IdleSelect room i \<Rightarrow> idle_select env room i s
      | NextStream \<Rightarrow> next_stream s
      | ConnectionDropped \<Rightarrow> connection_drop s)"

section \<open>What a worker's step keeps\<close>

lemma accept_new_frame:
  "wk_inbound (snd (accept_new_connection env ip t w)) = wk_inbound w \<and>
   (\<exists>new. wk_streams (snd (accept_new_connection env ip t w)) = wk_streams w @ new)"
  by (auto simp: accept_new_connection_def Let_def split: sum.split)

lemma process_frame_frame:
  "wk_inbound (snd (process_inbound_frame env f w)) = wk_inbound w \<and> (\<exists>new. wk_streams (snd (process_inbound_frame env f w)) = wk_streams w @ new)"
proof -
  have inj: "wk_inbound (snd (inject f v)) = wk_inbound v" "wk_streams (snd (inject f v)) = wk_streams v" for v :: "'a worker"
    by (simp_all add: inject_def)
  show ?thesis
  proof (cases "is_opening (we_wire env) f")
    case None
    then show ?thesis by (simp add: process_inbound_frame_def inj)
  next
    case (Some it)
    obtain ip t where it: "it = (ip, t)" by force
    obtain r w1 where a: "accept_new_connection env ip t w = (r, w1)" by force
    with accept_new_frame [of env ip t w] have "wk_inbound w1 = wk_inbound w" "\<exists>new. wk_streams w1 = wk_streams w @ new" by simp_all
    with Some it a show ?thesis by (cases r) (simp_all add: process_inbound_frame_def inj)
  qed
qed

lemma drain_inbound_frame:
  "wk_inbound (drain_inbound env fs w) = wk_inbound w \<and> (\<exists>new. wk_streams (drain_inbound env fs w) = wk_streams w @ new)"
proof (induction env fs w rule: drain_inbound.induct)
  case (2 env f fs w)
  with process_frame_frame [of env f w] show ?case by auto
qed simp

lemma poll_iface_frame:
  "wk_inbound (snd (poll_iface poll w)) = wk_inbound w" "wk_streams (snd (poll_iface poll w)) = wk_streams w"
  by (simp_all add: poll_iface_def split: prod.split)

lemma work_round_frame:
  "wk_inbound (snd (work_round ops env poll w)) = [] \<and> (\<exists>new. wk_streams (snd (work_round ops env poll w)) = wk_streams w @ new)"
proof -
  let ?w1 = "drain_inbound env (wk_inbound w) (w\<lparr>wk_inbound := []\<rparr>)"
  obtain p1 w2 where w2: "poll_iface poll ?w1 = (p1, w2)" by force
  define w4 where "w4 = socket_pass (prune_socket ops) (socket_pass (io_pass ops) w2)"
  obtain p2 w5 where w5: "poll_iface poll w4 = (p2, w5)" by force
  have "wk_inbound w4 = wk_inbound w2" "wk_streams w4 = wk_streams w2" by (simp_all add: w4_def socket_pass_def)
  then have "wk_inbound w5 = wk_inbound ?w1" "wk_streams w5 = wk_streams ?w1"
    using poll_iface_frame [of poll ?w1] poll_iface_frame [of poll w4] by (simp_all add: w2 w5)
  moreover have "snd (work_round ops env poll w) = w5" by (simp add: work_round_def Let_def w2 w5 flip: w4_def)
  ultimately show ?thesis using drain_inbound_frame [of env "wk_inbound w" "w\<lparr>wk_inbound := []\<rparr>"] by simp
qed

section \<open>The invariant\<close>

abbreviation sent_to :: "'k tcp_connection_env \<Rightarrow> 'k tcp_connection \<Rightarrow> nat \<Rightarrow> bytes list" where
  "sent_to env s i \<equiv> filter (\<lambda>p. index_of env s p = Some i) (tc_received s)"

abbreviation got_by :: "'k tcp_worker \<Rightarrow> bytes list" where
  "got_by tw \<equiv> tw_log tw @ wk_inbound (tw_worker tw)"

text \<open>What the dispatcher holds for a worker; when it has ended, it may have lost what came last.\<close>

definition order_ok :: "'k tcp_connection_env \<Rightarrow> 'k tcp_connection \<Rightarrow> nat \<Rightarrow> 'k tcp_worker \<Rightarrow> bool" where
  "order_ok env s i tw \<longleftrightarrow>
     (case tc_dispatch s of
        DispatchRecv \<Rightarrow> sent_to env s i = got_by tw
      | DispatchSend j p \<Rightarrow> sent_to env s i = got_by tw @ (if j = i then [p] else [])
      | DispatchEnded \<Rightarrow> \<exists>rest. sent_to env s i = got_by tw @ rest)"

definition worker_ok :: "'k tcp_connection_env \<Rightarrow> 'k tcp_connection \<Rightarrow> nat \<Rightarrow> 'k tcp_worker \<Rightarrow> bool" where
  "worker_ok env s i tw \<longleftrightarrow>
     order_ok env s i tw \<and> length (wk_inbound (tw_worker tw)) \<le> tce_channel_size env \<and> worker_inv (tw_worker tw) \<and>
     map snd (filter (\<lambda>x. fst x = i) (tc_taken s @ tc_streams s)) = wk_streams (tw_worker tw)"

definition tcp_connection_inv :: "'k tcp_connection_env \<Rightarrow> nat \<Rightarrow> 'k tcp_connection \<Rightarrow> bool" where
  "tcp_connection_inv env n s \<longleftrightarrow>
     length (tc_workers s) = n \<and> (\<forall>i < n. worker_ok env s i (tc_workers s ! i)) \<and>
     (\<forall>j p. tc_dispatch s = DispatchSend j p \<longrightarrow> j < n) \<and> length (tc_streams s) \<le> tce_channel_size env"

lemma tcp_connection_inv_new: "tcp_connection_inv env n (tcp_connection_new n cap)"
  by (simp add: tcp_connection_inv_def tcp_connection_new_def worker_ok_def order_ok_def worker_new_inv)
    (simp add: worker_new_def)

lemma order_ok_same:
  assumes "order_ok env s i tw" and "tc_dispatch s' = tc_dispatch s" and "tc_received s' = tc_received s"
    and "length (tc_workers s') = length (tc_workers s)" and "got_by tw' = got_by tw"
  shows "order_ok env s' i tw'"
  using assms(1) unfolding order_ok_def assms(2-5) .

lemma worker_ok_same:
  assumes "worker_ok env s i tw" and "tc_dispatch s' = tc_dispatch s \<or> tc_dispatch s = DispatchRecv \<and> tc_dispatch s' = DispatchEnded"
    and "tc_received s' = tc_received s" and "length (tc_workers s') = length (tc_workers s)"
    and "tc_taken s' @ tc_streams s' = tc_taken s @ tc_streams s"
  shows "worker_ok env s' i tw"
proof -
  have ok: "order_ok env s i tw" using assms(1) by (simp add: worker_ok_def)
  have "order_ok env s' i tw"
    using assms(2)
  proof
    assume "tc_dispatch s' = tc_dispatch s"
    from order_ok_same [OF ok this assms(3,4) refl] show ?thesis .
  next
    assume "tc_dispatch s = DispatchRecv \<and> tc_dispatch s' = DispatchEnded"
    with ok assms(3,4) show ?thesis by (simp add: order_ok_def)
  qed
  with assms(1) show ?thesis unfolding worker_ok_def assms(5) by blast
qed

text \<open>Replacing one worker.\<close>

lemma worker_replaced:
  assumes inv: "tcp_connection_inv env n s" and i: "i < n" and len: "length (tc_workers s') = n"
    and ws: "tc_workers s' = (tc_workers s)[i := tw']" and ok: "worker_ok env s' i tw'"
    and same: "\<And>j tw. j < n \<Longrightarrow> j \<noteq> i \<Longrightarrow> worker_ok env s j tw \<Longrightarrow> worker_ok env s' j tw"
    and "\<forall>j p. tc_dispatch s' = DispatchSend j p \<longrightarrow> j < n" and "length (tc_streams s') \<le> tce_channel_size env"
  shows "tcp_connection_inv env n s'"
proof -
  have "worker_ok env s' j (tc_workers s' ! j)" if j: "j < n" for j
  proof (cases "j = i")
    case True
    with ws ok i len show ?thesis by simp
  next
    case False
    with inv j same ws show ?thesis by (simp add: tcp_connection_inv_def)
  qed
  with assms show ?thesis by (simp add: tcp_connection_inv_def)
qed

lemma emit_streams_inv:
  assumes inv: "tcp_connection_inv env n s" and i: "i < n" and tw: "tw = tc_workers s ! i"
    and e: "emit_streams env i tw tw' s = Some s'"
    and got: "got_by tw' = got_by tw" and len: "length (wk_inbound (tw_worker tw')) \<le> tce_channel_size env"
    and w: "worker_inv (tw_worker tw')" and new: "\<exists>new. wk_streams (tw_worker tw') = wk_streams (tw_worker tw) @ new"
  shows "tcp_connection_inv env n s'"
proof -
  obtain emitted where emitted: "wk_streams (tw_worker tw') = wk_streams (tw_worker tw) @ emitted" using new by blast
  have s': "s' = s\<lparr>tc_workers := (tc_workers s)[i := tw'], tc_streams := tc_streams s @ map (Pair i) emitted\<rparr>"
    and room: "length (tc_streams s) + length emitted \<le> tce_channel_size env"
    using e inv by (auto simp: emit_streams_def emitted Let_def tcp_connection_inv_def split: if_splits)
  have ok: "worker_ok env s i tw" using inv i tw by (simp add: tcp_connection_inv_def)
  have fi: "filter (\<lambda>x. fst x = j) (map (Pair i) emitted) = (if j = i then map (Pair i) emitted else [])" for j
    by (auto simp: filter_map comp_def)
  show ?thesis
  proof (rule worker_replaced [OF inv i])
    show "length (tc_workers s') = n" using inv by (simp add: s' tcp_connection_inv_def)
    show "tc_workers s' = (tc_workers s)[i := tw']" by (simp add: s')
    from ok have o: "order_ok env s i tw" by (simp add: worker_ok_def)
    have "order_ok env s' i tw'" by (rule order_ok_same [OF o _ _ _ got]) (simp_all add: s')
    with ok len w emitted show "worker_ok env s' i tw'" by (simp add: worker_ok_def s' fi comp_def)
    show "worker_ok env s' j tw2" if "j < n" "j \<noteq> i" "worker_ok env s j tw2" for j tw2
    proof -
      from that(3) have "order_ok env s j tw2" by (simp add: worker_ok_def)
      then have "order_ok env s' j tw2" by (rule order_ok_same) (simp_all add: s')
      with that(2,3) show ?thesis by (simp add: worker_ok_def s' fi)
    qed
    show "\<forall>j p. tc_dispatch s' = DispatchSend j p \<longrightarrow> j < n" using inv by (simp add: s' tcp_connection_inv_def)
    show "length (tc_streams s') \<le> tce_channel_size env" using room by (simp add: s')
  qed
qed

lemma dispatch_packet_inv:
  assumes inv: "tcp_connection_inv env n s" and st: "dispatch_packet env s = Some s'"
  shows "tcp_connection_inv env n s'"
proof -
  obtain packet rest where p: "tc_dispatch s = DispatchRecv" "tc_inbound s = packet # rest"
    using st by (auto simp: dispatch_packet_def split: dispatch_phase.splits list.splits)
  define d where "d = (case index_of env s packet of
      None \<Rightarrow> DispatchEnded | Some i \<Rightarrow> if i < length (tc_workers s) then DispatchSend i packet else DispatchEnded)"
  have s': "s' = s\<lparr>tc_inbound := rest, tc_received := tc_received s @ [packet], tc_dispatch := d\<rparr>"
    using st p by (simp add: dispatch_packet_def d_def)
  have n: "length (tc_workers s) = n" using inv by (simp add: tcp_connection_inv_def)
  have "worker_ok env s' i tw" if "i < n" "worker_ok env s i tw" for i tw
  proof -
    have "sent_to env s i = got_by tw" using that(2) p by (simp add: worker_ok_def order_ok_def)
    then have "order_ok env s' i tw"
      using that(1) n by (auto simp: order_ok_def s' d_def split: option.split)
    with that(2) show ?thesis by (simp add: worker_ok_def s')
  qed
  moreover have "\<forall>j p. d = DispatchSend j p \<longrightarrow> j < n" using n by (auto simp: d_def split: option.split)
  ultimately show ?thesis using inv by (simp add: tcp_connection_inv_def s')
qed

lemma dispatch_send_inv:
  assumes inv: "tcp_connection_inv env n s" and st: "dispatch_send env s = Some s'"
  shows "tcp_connection_inv env n s'"
proof -
  obtain i packet where d: "tc_dispatch s = DispatchSend i packet"
    using st by (auto simp: dispatch_send_def split: dispatch_phase.splits)
  let ?tw = "tc_workers s ! i" and ?w = "tw_worker (tc_workers s ! i)"
  have i: "i < n" and n: "length (tc_workers s) = n" using inv d by (auto simp: tcp_connection_inv_def)
  have ok: "worker_ok env s j (tc_workers s ! j)" if "j < n" for j using inv that by (simp add: tcp_connection_inv_def)
  show ?thesis
  proof (cases "tw_phase ?tw = WorkerStopped")
    case True
    with st d have s': "s' = s\<lparr>tc_dispatch := DispatchEnded\<rparr>" by (simp add: dispatch_send_def)
    have "worker_ok env s' j tw" if "worker_ok env s j tw" for j tw
      using that d by (auto simp: worker_ok_def order_ok_def s')
    with inv show ?thesis by (simp add: tcp_connection_inv_def s')
  next
    case False
    let ?tw' = "?tw\<lparr>tw_worker := ?w\<lparr>wk_inbound := wk_inbound ?w @ [packet]\<rparr>\<rparr>"
    from False st d have s': "s' = s\<lparr>tc_dispatch := DispatchRecv, tc_workers := (tc_workers s)[i := ?tw']\<rparr>"
      and room: "length (wk_inbound ?w) < tce_channel_size env"
      by (auto simp: dispatch_send_def Let_def split: if_splits)
    show ?thesis
    proof (rule worker_replaced [OF inv i])
      show "worker_ok env s' i ?tw'" using ok [OF i] room d by (simp add: worker_ok_def order_ok_def s')
      show "worker_ok env s' j tw" if "j < n" "j \<noteq> i" "worker_ok env s j tw" for j tw
        using that d by (simp add: worker_ok_def order_ok_def s')
    qed (use inv in \<open>simp_all add: s' tcp_connection_inv_def\<close>)
  qed
qed

lemma drain_round_inv:
  assumes inv: "tcp_connection_inv env n s" and st: "drain_round env room poll i s = Some s'"
  shows "tcp_connection_inv env n s'"
proof -
  let ?tw = "tc_workers s ! i"
  let ?env = "(tce_worker_env env)\<lparr>we_try_emit := room\<rparr>"
  obtain progress w where w: "work_round (tce_socket env) ?env poll (tw_worker ?tw) = (progress, w)" by force
  let ?tw' = "\<lparr>tw_worker = w, tw_phase = (if progress then WorkerDraining else WorkerIdle), tw_log = tw_log ?tw @ wk_inbound (tw_worker ?tw)\<rparr>"
  have i: "i < n" and e: "emit_streams env i ?tw ?tw' s = Some s'"
    using st inv w by (auto simp: drain_round_def tcp_connection_inv_def Let_def split: if_splits)
  have ok: "worker_ok env s i ?tw" using inv i by (simp add: tcp_connection_inv_def)
  have frame: "wk_inbound w = []" "\<exists>new. wk_streams w = wk_streams (tw_worker ?tw) @ new"
    using work_round_frame [of "tce_socket env" ?env poll "tw_worker ?tw"] by (simp_all add: w)
  have "worker_inv w" using work_round_inv [of "tw_worker ?tw" "tce_socket env" ?env poll] ok by (simp add: w worker_ok_def)
  with frame show ?thesis by (intro emit_streams_inv [OF inv i refl e]) simp_all
qed

lemma worker_phase_inv:
  assumes inv: "tcp_connection_inv env n s" and i: "i < n"
    and s': "s' = s\<lparr>tc_workers := (tc_workers s)[i := (tc_workers s ! i)\<lparr>tw_phase := ph\<rparr>]\<rparr>"
  shows "tcp_connection_inv env n s'"
proof (rule worker_replaced [OF inv i])
  have "worker_ok env s i (tc_workers s ! i)" using inv i by (simp add: tcp_connection_inv_def)
  then show "worker_ok env s' i ((tc_workers s ! i)\<lparr>tw_phase := ph\<rparr>)"
    using order_ok_same [of env s i "tc_workers s ! i" s' "(tc_workers s ! i)\<lparr>tw_phase := ph\<rparr>"] by (simp add: worker_ok_def s')
  show "worker_ok env s' j tw" if "worker_ok env s j tw" for j tw
    by (rule worker_ok_same [OF that]) (simp_all add: s')
qed (use inv in \<open>simp_all add: s' tcp_connection_inv_def\<close>)

lemma idle_select_inv:
  assumes inv: "tcp_connection_inv env n s" and st: "idle_select env room i s = Some s'"
  shows "tcp_connection_inv env n s'"
proof -
  let ?tw = "tc_workers s ! i" and ?env = "(tce_worker_env env)\<lparr>we_try_emit := room\<rparr>"
  let ?w = "tw_worker ?tw"
  have i: "i < n" using st inv by (auto simp: idle_select_def tcp_connection_inv_def split: if_splits)
  have ok: "worker_ok env s i ?tw" using inv i by (simp add: tcp_connection_inv_def)
  show ?thesis
  proof (cases "tc_alive s \<and> wk_inbound ?w \<noteq> []")
    case True
    then obtain f fs where fs: "wk_inbound ?w = f # fs" by (cases "wk_inbound ?w") auto
    let ?w' = "snd (process_inbound_frame ?env f (?w\<lparr>wk_inbound := fs\<rparr>))"
    have e: "emit_streams env i ?tw \<lparr>tw_worker = ?w', tw_phase = WorkerDraining, tw_log = tw_log ?tw @ [f]\<rparr> s = Some s'"
      using st True fs by (simp add: idle_select_def Let_def split: if_splits)
    have frame: "wk_inbound ?w' = fs" "\<exists>new. wk_streams ?w' = wk_streams ?w @ new"
      using process_frame_frame [of ?env f "?w\<lparr>wk_inbound := fs\<rparr>"] by simp_all
    have "worker_inv ?w'" using process_inv [of "?w\<lparr>wk_inbound := fs\<rparr>" ?env f] ok by (simp add: worker_ok_def)
    moreover have "length fs \<le> tce_channel_size env" using ok fs by (simp add: worker_ok_def)
    ultimately show ?thesis using frame fs by (intro emit_streams_inv [OF inv i refl e]) simp_all
  next
    case False
    then obtain ph where "s' = s\<lparr>tc_workers := (tc_workers s)[i := ?tw\<lparr>tw_phase := ph\<rparr>]\<rparr>"
      using st by (auto simp: idle_select_def Let_def split: if_splits list.splits)
    with worker_phase_inv [OF inv i] show ?thesis by blast
  qed
qed

lemma tcp_connection_step_inv:
  assumes inv: "tcp_connection_inv env n s" and st: "tcp_connection_step env e s = Some s'"
  shows "tcp_connection_inv env n s'"
proof -
  have frame: ?thesis if "tc_workers s' = tc_workers s" "tc_received s' = tc_received s" "tc_taken s' @ tc_streams s' = tc_taken s @ tc_streams s"
    "tc_dispatch s' = tc_dispatch s \<or> tc_dispatch s = DispatchRecv \<and> tc_dispatch s' = DispatchEnded"
    "length (tc_streams s') \<le> length (tc_streams s)"
    using that inv worker_ok_same [of env s _ _ s'] by (auto simp: tcp_connection_inv_def)
  show ?thesis
  proof (cases e)
    case DispatchPacket
    with st dispatch_packet_inv [OF inv] show ?thesis by (simp add: tcp_connection_step_def)
  next
    case DispatchRoom
    with st dispatch_send_inv [OF inv] show ?thesis by (simp add: tcp_connection_step_def)
  next
    case (DrainRound room poll i)
    with st drain_round_inv [OF inv] show ?thesis by (simp add: tcp_connection_step_def)
  next
    case (IdleSelect room i)
    with st idle_select_inv [OF inv] show ?thesis by (simp add: tcp_connection_step_def)
  qed (use st frame in \<open>auto simp: tcp_connection_step_def dispatch_stop_def next_stream_def connection_drop_def
      split: if_splits list.splits\<close>)
qed

interpretation tcp_connection: invariant_machine "tcp_connection_step env" "tcp_connection_inv env n" for env n
  by unfold_locales (rule tcp_connection_step_inv)

text \<open>The streams of a worker, and the bounds.\<close>

lemma streams_of_worker:
  assumes inv: "tcp_connection_inv env n s" and "i < n"
  shows "length (wk_inbound (tw_worker (tc_workers s ! i))) \<le> tce_channel_size env \<and> length (tc_streams s) \<le> tce_channel_size env \<and>
    map snd (filter (\<lambda>x. fst x = i) (tc_taken s @ tc_streams s)) = wk_streams (tw_worker (tc_workers s ! i)) \<and>
    distinct (wk_streams (tw_worker (tc_workers s ! i))) \<and>
    (\<forall>h \<in> set (wk_streams (tw_worker (tc_workers s ! i))). \<exists>c. wk_conns (tw_worker (tc_workers s ! i)) h = Some c \<and> bytes_ok c)"
proof -
  have ok: "worker_ok env s i (tc_workers s ! i)" and streams: "length (tc_streams s) \<le> tce_channel_size env"
    using assms by (simp_all add: tcp_connection_inv_def)
  then have w: "worker_inv (tw_worker (tc_workers s ! i))" by (simp add: worker_ok_def)
  have "\<exists>c. wk_conns (tw_worker (tc_workers s ! i)) h = Some c \<and> bytes_ok c" if h: "h \<in> set (wk_streams (tw_worker (tc_workers s ! i)))" for h
  proof -
    have "h \<in> dom (wk_conns (tw_worker (tc_workers s ! i)))" using w h by (simp add: worker_inv_def)
    then obtain c where "wk_conns (tw_worker (tc_workers s ! i)) h = Some c" by blast
    with w show ?thesis by (auto simp: worker_inv_def conn_inv_def ran_def)
  qed
  moreover have "distinct (wk_streams (tw_worker (tc_workers s ! i)))" using w by (simp add: worker_inv_def)
  ultimately show ?thesis using ok streams by (simp add: worker_ok_def)
qed

text \<open>
  From the stack to the application, over the dispatcher and all workers: each worker has taken or holds in its bounded channel
  exactly the packets of its index that the dispatcher has received, in their order, except at most what follows the end of
  the dispatcher. Every stream a worker has emitted was taken by the application or waits in the shared channel, once and
  in the worker's order; it has a connection of its own, whose buffers are in order and within their bounds.
\<close>

theorem tcp_connection_end_to_end:
  assumes "run_steps (tcp_connection_step env) es (tcp_connection_new n cap) = Some s" and "i < n" and "tw = tc_workers s ! i"
    and "mine = filter (\<lambda>p. worker_index (we_wire (tce_worker_env env)) (tce_hash env) n p = Some i) (tc_received s)"
  shows "(tc_dispatch s = DispatchRecv \<longrightarrow> mine = tw_log tw @ wk_inbound (tw_worker tw)) \<and>
    (\<exists>rest. mine = tw_log tw @ wk_inbound (tw_worker tw) @ rest \<and> (tc_dispatch s \<noteq> DispatchEnded \<longrightarrow> length rest \<le> 1)) \<and>
    length (wk_inbound (tw_worker tw)) \<le> tce_channel_size env \<and> length (tc_streams s) \<le> tce_channel_size env \<and>
    map snd (filter (\<lambda>x. fst x = i) (tc_taken s @ tc_streams s)) = wk_streams (tw_worker tw) \<and> distinct (wk_streams (tw_worker tw)) \<and>
    (\<forall>h \<in> set (wk_streams (tw_worker tw)). \<exists>c. wk_conns (tw_worker tw) h = Some c \<and> bytes_ok c)"
proof -
  have inv: "tcp_connection_inv env n s" by (rule tcp_connection.run_inv [OF tcp_connection_inv_new assms(1)])
  then have order: "order_ok env s i tw" and len: "length (tc_workers s) = n"
    using assms(2,3) by (simp_all add: tcp_connection_inv_def worker_ok_def)
  then have "(tc_dispatch s = DispatchRecv \<longrightarrow> mine = tw_log tw @ wk_inbound (tw_worker tw)) \<and>
    (\<exists>rest. mine = tw_log tw @ wk_inbound (tw_worker tw) @ rest \<and> (tc_dispatch s \<noteq> DispatchEnded \<longrightarrow> length rest \<le> 1))"
    using assms(4) by (cases "tc_dispatch s") (auto simp: order_ok_def)
  with streams_of_worker [OF inv assms(2)] show ?thesis by (simp add: assms(3))
qed

definition tiny_tcp_env :: "(bytes \<times> bool) tcp_connection_env" where
  "tiny_tcp_env = \<lparr>tce_worker_env = tiny_worker_env, tce_socket = tiny_socket, tce_hash = (\<lambda>a b. 1), tce_channel_size = 4\<rparr>"

definition one_opening :: "(bytes \<times> bool) tcp_connection_event list" where
  "one_opening =
     [PacketArrives [0], DispatchPacket, DispatchRoom, DrainRound (\<lambda>_. True) (\<lambda>w. (False, \<lambda>h k. k, [])) 1, NextStream]"

theorem tcp_connection_end_to_end_witness:
  "\<exists>s. run_steps (tcp_connection_step tiny_tcp_env) one_opening (tcp_connection_new 2 4) = Some s \<and> tc_taken s = [(1, 0)] \<and>
     distinct (wk_streams (tw_worker (tc_workers s ! 1))) \<and> tw_log (tc_workers s ! 1) = [[0]]"
proof -
  obtain s where s: "run_steps (tcp_connection_step tiny_tcp_env) one_opening (tcp_connection_new 2 4) = Some s"
    and st: "tc_taken s = [(1, 0)]" "tw_log (tc_workers s ! 1) = [[0]]"
    by (simp add: one_opening_def tcp_connection_step_def dispatch_packet_def dispatch_send_def drain_round_def emit_streams_def
        next_stream_def tcp_connection_new_def worker_index_def work_round_def poll_iface_def socket_pass_def
        process_inbound_frame_def is_opening_def accept_new_connection_def inject_def tiny_tcp_env_def tiny_worker_env_def
        tiny_wire_def worker_new_def Let_def eval_nat_numeral split_def)
  have "(1::nat) < 2" by simp
  from tcp_connection_end_to_end [OF s this refl refl] s st show ?thesis by blast
qed

end
