(* ===== verification/Net_Stack.thy ===== *)
theory Net_Stack
  imports Ombrac_Prelude Machine
begin

text \<open>
  The edges of the user-space network stack: the sink that routes the packets of the device (\<open>stack.rs\<close>), the UDP
  tunnel that takes packets apart and builds them (\<open>udp.rs\<close>), the buffer pool (\<open>buffer.rs\<close>) and the device the workers
  poll (\<open>device.rs\<close>), all in \<open>crates/ombrac-netstack/src\<close>. The parsers of \<open>smoltcp::wire\<close>, the builder of \<open>etherparse\<close> and
  the growth of a \<open>BytesMut\<close> are arguments.
\<close>

section \<open>Configuration\<close>

record net_stack_config =
  mtu :: nat
  channel_size :: nat
  number_workers :: nat
  tcp_send_buffer_size :: nat
  tcp_recv_buffer_size :: nat
  buffer_pool_size :: nat
  buffer_pool_default_buffer_size :: nat
  stack_ipv4_addr :: ipv4_addr
  ipv4_prefix_len :: u8
  stack_ipv6_addr :: ipv6_addr
  ipv6_prefix_len :: u8
  tcp_keep_alive :: duration
  tcp_timeout :: duration
  packet_batch_size :: nat
  ip_ttl :: u8

definition net_stack_config_default :: "nat option \<Rightarrow> net_stack_config" where
  "net_stack_config_default available_parallelism =
     \<lparr>mtu = 1500, channel_size = 4096, number_workers = (case available_parallelism of None \<Rightarrow> 4 | Some n \<Rightarrow> n),
      tcp_send_buffer_size = 16 * 1024, tcp_recv_buffer_size = 16 * 1024, buffer_pool_size = 32,
      buffer_pool_default_buffer_size = 2 * 1024, stack_ipv4_addr = Ipv4 10 0 0 1, ipv4_prefix_len = 24,
      stack_ipv6_addr = Ipv6 0 0xfac 0 0 0 0 0 1, ipv6_prefix_len = 64, tcp_keep_alive = 28 * 1000000000,
      tcp_timeout = 60 * 1000000000, packet_batch_size = 32, ip_ttl = 64\<rparr>"

section \<open>The buffer pool\<close>

text \<open>
  A \<open>BytesMut\<close> by its capacity and its content. \<open>reserve additional\<close> leaves a buffer with enough spare room as it
  is and otherwise gives it room for \<open>additional\<close> more bytes than it holds; \<open>grow\<close> is the new capacity.
\<close>

record bytes_mut =
  bm_capacity :: nat
  bm_data :: bytes

definition bm_reserve :: "(nat \<Rightarrow> nat) \<Rightarrow> nat \<Rightarrow> bytes_mut \<Rightarrow> bytes_mut" where
  "bm_reserve grow additional b =
     (if length (bm_data b) + additional \<le> bm_capacity b then b
      else b\<lparr>bm_capacity := grow (length (bm_data b) + additional)\<rparr>)"

record buffer_pool =
  pool :: "bytes_mut list"
  max_pool_size :: nat
  default_buffer_size :: nat

definition buffer_pool_new :: "nat \<Rightarrow> nat \<Rightarrow> buffer_pool" where
  "buffer_pool_new m d = \<lparr>pool = [], max_pool_size = m, default_buffer_size = d\<rparr>"

definition pool_get :: "(nat \<Rightarrow> nat) \<Rightarrow> nat \<Rightarrow> buffer_pool \<Rightarrow> bytes_mut \<times> buffer_pool" where
  "pool_get grow capacity p =
     (let required_capacity = max capacity (default_buffer_size p);
          (buffer, p1) = (case pool p of
             [] \<Rightarrow> (\<lparr>bm_capacity = grow required_capacity, bm_data = []\<rparr>, p)
           | b # bs \<Rightarrow> (b, p\<lparr>pool := bs\<rparr>));
          buffer1 = (if bm_capacity buffer < required_capacity
                     then bm_reserve grow (required_capacity - bm_capacity buffer) buffer else buffer)
      in (buffer1\<lparr>bm_data := []\<rparr>, p1))"

definition pool_release :: "bytes_mut \<Rightarrow> buffer_pool \<Rightarrow> buffer_pool" where
  "pool_release buffer p =
     (if length (pool p) < max_pool_size p then p\<lparr>pool := pool p @ [buffer]\<rparr> else p)"

text \<open>
  The pool never holds more buffers than its limit, and the buffer it hands out is empty. A new one, or one that was
  returned full, has the capacity asked for; but \<open>get\<close> reserves what is missing to the capacity on top of the
  content, so a buffer that comes back with room to spare is handed out as small as it was.
\<close>

theorem pool_get_spec:
  assumes "\<forall>n. n \<le> grow n" and "pool_get grow capacity p = (b, p')" and "length (pool p) \<le> max_pool_size p"
  shows "bm_data b = [] \<and> length (pool p') \<le> max_pool_size p' \<and> length (pool (pool_release c p')) \<le> max_pool_size p' \<and>
    (case pool p of
       [] \<Rightarrow> max capacity (default_buffer_size p) \<le> bm_capacity b
     | x # _ \<Rightarrow>
         (length (bm_data x) = bm_capacity x \<longrightarrow> max capacity (default_buffer_size p) \<le> bm_capacity b) \<and>
         (max capacity (default_buffer_size p) \<le> 2 * bm_capacity x - length (bm_data x) \<longrightarrow> bm_capacity b = bm_capacity x))"
proof -
  have "bm_data b = []" and "length (pool p') \<le> max_pool_size p'" and "length (pool (pool_release c p')) \<le> max_pool_size p'"
    using assms(2,3) by (auto simp: pool_get_def pool_release_def Let_def split: list.splits)
  moreover have "case pool p of
       [] \<Rightarrow> max capacity (default_buffer_size p) \<le> bm_capacity b
     | x # _ \<Rightarrow>
         (length (bm_data x) = bm_capacity x \<longrightarrow> max capacity (default_buffer_size p) \<le> bm_capacity b) \<and>
         (max capacity (default_buffer_size p) \<le> 2 * bm_capacity x - length (bm_data x) \<longrightarrow> bm_capacity b = bm_capacity x)"
  proof (cases "pool p")
    case Nil
    have "\<not> grow n < n" for n using assms(1) by (simp add: not_less)
    with Nil assms(2) have "bm_capacity b = grow (max capacity (default_buffer_size p))"
      by (auto simp: pool_get_def Let_def)
    with Nil assms(1) show ?thesis by simp
  next
    case (Cons x xs)
    define r where "r = max capacity (default_buffer_size p)"
    have b: "bm_capacity b = (if bm_capacity x < r \<and> bm_capacity x < length (bm_data x) + (r - bm_capacity x)
        then grow (length (bm_data x) + (r - bm_capacity x)) else bm_capacity x)"
      using assms(2) Cons by (auto simp: pool_get_def bm_reserve_def Let_def r_def split: if_splits)
    have "r \<le> bm_capacity b" if "length (bm_data x) = bm_capacity x"
      using that b spec [OF assms(1), of "length (bm_data x) + (r - bm_capacity x)"] by (auto split: if_splits)
    moreover have "bm_capacity b = bm_capacity x" if "r \<le> 2 * bm_capacity x - length (bm_data x)"
      using that b by (auto split: if_splits)
    ultimately show ?thesis using Cons by (simp add: r_def)
  qed
  ultimately show ?thesis by blast
qed

theorem pool_get_spec_witness:
  "bm_capacity (fst (pool_get (\<lambda>n. n) 3 \<lparr>pool = [\<lparr>bm_capacity = 2, bm_data = []\<rparr>], max_pool_size = 1, default_buffer_size = 1\<rparr>)) = 2"
proof -
  let ?p = "\<lparr>pool = [\<lparr>bm_capacity = 2, bm_data = []\<rparr>], max_pool_size = 1, default_buffer_size = 1\<rparr>"
  obtain b p' where g: "pool_get (\<lambda>n. n) 3 ?p = (b, p')" by force
  from pool_get_spec [OF _ g, of b] have "bm_capacity b = 2" by simp
  then show ?thesis by (simp only: g fst_conv)
qed

section \<open>The sink\<close>

text \<open>\<open>IpProtocol\<close>, as far as the sink distinguishes it.\<close>

datatype ip_protocol = ProtoTcp | ProtoUdp | ProtoIcmp | ProtoIcmpv6 | ProtoOther u8

text \<open>
  A channel to the stack: its capacity, what waits in it, whether its receiver lives; \<open>sc_taken\<close> is what the
  receiver has got.
\<close>

record stack_channel =
  sc_capacity :: nat
  sc_queue :: "bytes list"
  sc_open :: bool
  sc_taken :: "bytes list"

record stack_sink =
  udp_inbound :: stack_channel
  tcp_inbound :: stack_channel
  packet_container :: "(bytes \<times> ip_protocol) option"

datatype 'a poll = Pending | Ready 'a

definition channel_push :: "bytes \<Rightarrow> stack_channel \<Rightarrow> unit io_result poll \<times> stack_channel" where
  "channel_push item ch =
     (if \<not> sc_open ch then (Ready (Inl (io_err KBrokenPipe ''Failed to send packet: channel closed'')), ch)
      else if length (sc_queue ch) < sc_capacity ch then (Ready (Inr ()), ch\<lparr>sc_queue := sc_queue ch @ [item]\<rparr>)
      else (Pending, ch))"

definition sink_poll_flush :: "stack_sink \<Rightarrow> unit io_result poll \<times> stack_sink" where
  "sink_poll_flush s0 =
     (case packet_container s0 of
        None \<Rightarrow> (Ready (Inr ()), s0)
      | Some (item, proto) \<Rightarrow>
          (let s = s0\<lparr>packet_container := None\<rparr>;
               keep = (\<lambda>r s'. (r, if r = Pending then s'\<lparr>packet_container := Some (item, proto)\<rparr> else s'))
           in case proto of
                ProtoUdp \<Rightarrow> (let (r, ch) = channel_push item (udp_inbound s) in keep r (s\<lparr>udp_inbound := ch\<rparr>))
              | ProtoOther _ \<Rightarrow> (Ready (Inr ()), s)
              | _ \<Rightarrow> (let (r, ch) = channel_push item (tcp_inbound s) in keep r (s\<lparr>tcp_inbound := ch\<rparr>))))"

definition sink_poll_ready :: "stack_sink \<Rightarrow> unit io_result poll \<times> stack_sink" where
  "sink_poll_ready s = (if packet_container s \<noteq> None then sink_poll_flush s else (Ready (Inr ()), s))"

text \<open>\<open>start_send\<close>; \<open>proto_of\<close> is \<open>IpPacket::new_checked\<close> with \<open>protocol\<close>.\<close>

definition sink_start_send :: "(bytes \<Rightarrow> ip_protocol io_result) \<Rightarrow> bytes \<Rightarrow> stack_sink \<Rightarrow> unit io_result \<times> stack_sink" where
  "sink_start_send proto_of item s =
     (if item = [] then (Inr (), s)
      else (case proto_of item of
              Inl e \<Rightarrow> (Inl (io_err KInvalidData (err_msg e)), s)
            | Inr protocol \<Rightarrow>
                (case protocol of
                   ProtoOther _ \<Rightarrow> (Inr (), s)
                 | _ \<Rightarrow> (Inr (), s\<lparr>packet_container := Some (item, protocol)\<rparr>))))"

text \<open>
  The sink in use: an item is started after \<open>poll_ready\<close> was ready, the sink is flushed, and the two receivers take from
  their channels or go away.
\<close>

datatype sink_event = SinkSend bytes | SinkFlush | TakeUdp | TakeTcp

definition channel_take :: "stack_channel \<Rightarrow> stack_channel option" where
  "channel_take ch =
     (case sc_queue ch of [] \<Rightarrow> None | x # xs \<Rightarrow> Some (ch\<lparr>sc_queue := xs, sc_taken := sc_taken ch @ [x]\<rparr>))"

definition sink_step :: "(bytes \<Rightarrow> ip_protocol io_result) \<Rightarrow> sink_event \<Rightarrow> stack_sink \<Rightarrow> stack_sink option" where
  "sink_step proto_of e s =
     (case e of
        SinkSend p \<Rightarrow>
          (case sink_poll_ready s of
             (Ready (Inr _), s1) \<Rightarrow> Some (snd (sink_start_send proto_of p s1))
           | _ \<Rightarrow> None)
      | SinkFlush \<Rightarrow> Some (snd (sink_poll_flush s))
      | TakeUdp \<Rightarrow> map_option (\<lambda>ch. s\<lparr>udp_inbound := ch\<rparr>) (channel_take (udp_inbound s))
      | TakeTcp \<Rightarrow> map_option (\<lambda>ch. s\<lparr>tcp_inbound := ch\<rparr>) (channel_take (tcp_inbound s)))"

definition sink_new :: "nat \<Rightarrow> stack_sink" where
  "sink_new cap =
     \<lparr>udp_inbound = \<lparr>sc_capacity = cap, sc_queue = [], sc_open = True, sc_taken = []\<rparr>,
      tcp_inbound = \<lparr>sc_capacity = cap, sc_queue = [], sc_open = True, sc_taken = []\<rparr>, packet_container = None\<rparr>"

text \<open>What one of the two receivers has got, will get, and what the container still holds for it.\<close>

definition is_udp :: "ip_protocol \<Rightarrow> bool" where
  "is_udp p \<longleftrightarrow> p = ProtoUdp"

definition is_tcp_side :: "ip_protocol \<Rightarrow> bool" where
  "is_tcp_side p \<longleftrightarrow> p \<in> {ProtoTcp, ProtoIcmp, ProtoIcmpv6}"

definition held :: "(ip_protocol \<Rightarrow> bool) \<Rightarrow> stack_sink \<Rightarrow> bytes list" where
  "held P s = (case packet_container s of None \<Rightarrow> [] | Some (p, proto) \<Rightarrow> if P proto then [p] else [])"

definition udp_side :: "stack_sink \<Rightarrow> bytes list" where
  "udp_side s = sc_taken (udp_inbound s) @ sc_queue (udp_inbound s) @ held is_udp s"

definition tcp_side :: "stack_sink \<Rightarrow> bytes list" where
  "tcp_side s = sc_taken (tcp_inbound s) @ sc_queue (tcp_inbound s) @ held is_tcp_side s"

definition sink_inv :: "stack_sink \<Rightarrow> bool" where
  "sink_inv s \<longleftrightarrow> sc_open (udp_inbound s) \<and> sc_open (tcp_inbound s) \<and>
     (\<forall>p b. packet_container s \<noteq> Some (p, ProtoOther b)) \<and>
     length (sc_queue (udp_inbound s)) \<le> sc_capacity (udp_inbound s) \<and> length (sc_queue (tcp_inbound s)) \<le> sc_capacity (tcp_inbound s)"

definition for_side :: "(bytes \<Rightarrow> ip_protocol io_result) \<Rightarrow> (ip_protocol \<Rightarrow> bool) \<Rightarrow> sink_event \<Rightarrow> bytes list" where
  "for_side proto_of P e =
     (case e of
        SinkSend p \<Rightarrow> if p = [] then [] else (case proto_of p of Inl _ \<Rightarrow> [] | Inr proto \<Rightarrow> if P proto then [p] else [])
      | _ \<Rightarrow> [])"

lemma sink_flush_ok:
  assumes "sink_inv s" and "sink_poll_flush s = (r, s')"
  shows "sink_inv s' \<and> udp_side s' = udp_side s \<and> tcp_side s' = tcp_side s \<and> (r \<noteq> Pending \<longrightarrow> packet_container s' = None)"
proof (cases "packet_container s")
  case None
  with assms show ?thesis by (auto simp: sink_poll_flush_def)
next
  case (Some x)
  then obtain p proto where x: "packet_container s = Some (p, proto)" by (cases x) auto
  show ?thesis
    using assms x
    by (cases proto)
      (auto simp: sink_poll_flush_def channel_push_def sink_inv_def udp_side_def tcp_side_def held_def is_udp_def
        is_tcp_side_def Let_def split: if_splits)
qed

lemma sink_start_ok:
  assumes "sink_inv s" and "packet_container s = None" and "sink_start_send proto_of p s = (r, s')"
  shows "sink_inv s' \<and> udp_side s' = udp_side s @ for_side proto_of is_udp (SinkSend p) \<and>
    tcp_side s' = tcp_side s @ for_side proto_of is_tcp_side (SinkSend p)"
proof (cases "p = [] \<or> (\<exists>e. proto_of p = Inl e)")
  case True
  with assms show ?thesis by (auto simp: sink_start_send_def for_side_def split: if_splits)
next
  case False
  then obtain proto where "p \<noteq> []" "proto_of p = Inr proto" by (cases "proto_of p") auto
  with assms show ?thesis
    by (cases proto)
      (auto simp: sink_start_send_def for_side_def sink_inv_def udp_side_def tcp_side_def held_def is_udp_def is_tcp_side_def)
qed

lemma sink_step_ok:
  assumes inv: "sink_inv s" and st: "sink_step proto_of e s = Some s'"
  shows "sink_inv s' \<and> udp_side s' = udp_side s @ for_side proto_of is_udp e \<and>
    tcp_side s' = tcp_side s @ for_side proto_of is_tcp_side e"
proof (cases e)
  case (SinkSend p)
  with st obtain u s1 where r: "sink_poll_ready s = (Ready (Inr u), s1)" and s': "s' = snd (sink_start_send proto_of p s1)"
    by (auto simp: sink_step_def split: prod.splits poll.splits sum.splits)
  have "sink_inv s1 \<and> udp_side s1 = udp_side s \<and> tcp_side s1 = tcp_side s \<and> packet_container s1 = None"
  proof (cases "packet_container s")
    case None
    with r inv show ?thesis by (simp add: sink_poll_ready_def)
  next
    case (Some x)
    with r have "sink_poll_flush s = (Ready (Inr u), s1)" by (simp add: sink_poll_ready_def)
    from sink_flush_ok [OF inv this] show ?thesis by simp
  qed
  with sink_start_ok [of s1 proto_of p] s' SinkSend show ?thesis by (metis prod.collapse)
next
  case SinkFlush
  with st sink_flush_ok [OF inv, of "fst (sink_poll_flush s)" s'] show ?thesis by (simp add: sink_step_def for_side_def prod_eq_iff)
qed (use inv st in \<open>auto simp: sink_step_def channel_take_def sink_inv_def udp_side_def tcp_side_def held_def for_side_def
      split: list.splits\<close>)

interpretation sink_machine: invariant_machine "sink_step proto_of" sink_inv for proto_of
  by unfold_locales (use sink_step_ok in blast)

lemma sink_run:
  "sink_inv s \<Longrightarrow> run_steps (sink_step proto_of) es s = Some t \<Longrightarrow>
   udp_side t = udp_side s @ concat (map (for_side proto_of is_udp) es) \<and>
   tcp_side t = tcp_side s @ concat (map (for_side proto_of is_tcp_side) es)"
proof (induction es arbitrary: s)
  case (Cons e es)
  then obtain s1 where s1: "sink_step proto_of e s = Some s1" "run_steps (sink_step proto_of) es s1 = Some t"
    by (auto split: option.splits)
  with sink_step_ok [OF Cons.prems(1) s1(1)] Cons.IH [of s1] show ?case by simp
qed simp

text \<open>
  The sink loses, duplicates and reorders nothing while its receivers live: what the UDP receiver has got, what is
  queued for it and what the sink still holds for it are together the UDP packets that were sent, in order; the same for the
  TCP receiver with the TCP and ICMP packets. Other protocols, malformed and empty packets go nowhere.
\<close>

theorem sink_routes:
  assumes "run_steps (sink_step proto_of) es (sink_new cap) = Some s"
  shows "sc_taken (udp_inbound s) @ sc_queue (udp_inbound s) @ held is_udp s = concat (map (for_side proto_of is_udp) es) \<and>
    sc_taken (tcp_inbound s) @ sc_queue (tcp_inbound s) @ held is_tcp_side s = concat (map (for_side proto_of is_tcp_side) es)"
proof -
  have i: "sink_inv (sink_new cap)" by (simp add: sink_inv_def sink_new_def)
  have "udp_side (sink_new cap) = []" "tcp_side (sink_new cap) = []"
    by (simp_all add: udp_side_def tcp_side_def held_def sink_new_def)
  with sink_run [OF i assms] show ?thesis by (simp add: udp_side_def tcp_side_def)
qed

definition tiny_proto :: "bytes \<Rightarrow> ip_protocol io_result" where
  "tiny_proto p = (if p = [0] then Inl (io_err KOther []) else Inr (if hd p = 17 then ProtoUdp else if hd p = 6 then ProtoTcp else ProtoOther 1))"

theorem sink_routes_witness:
  "\<exists>s. run_steps (sink_step tiny_proto) [SinkSend [17, 1], SinkSend [6], SinkSend [0], SinkSend [9], SinkFlush, TakeUdp, SinkSend [17, 2]]
         (sink_new 1) = Some s \<and> sc_taken (udp_inbound s) = [[17, 1]] \<and>
       sc_taken (udp_inbound s) @ sc_queue (udp_inbound s) @ held is_udp s = [[17, 1], [17, 2]]"
proof -
  let ?es = "[SinkSend [17, 1], SinkSend [6], SinkSend [0], SinkSend [9], SinkFlush, TakeUdp, SinkSend [17, 2]]"
  obtain s where s: "run_steps (sink_step tiny_proto) ?es (sink_new 1) = Some s" and t: "sc_taken (udp_inbound s) = [[17, 1]]"
    by (simp add: sink_step_def sink_poll_ready_def sink_poll_flush_def sink_start_send_def channel_push_def channel_take_def
        sink_new_def tiny_proto_def Let_def)
  have "concat (map (for_side tiny_proto is_udp) ?es) = [[17, 1], [17, 2]]"
    by (simp add: for_side_def tiny_proto_def is_udp_def)
  with sink_routes [OF s] s t show ?thesis by metis
qed

section \<open>The UDP tunnel\<close>

text \<open>
  \<open>SplitRead::recv\<close> on one packet. \<open>ip_view\<close> is what the checked IP parser says of it: the length of the header and the
  two addresses; \<open>udp_view\<close> what the checked UDP parser says of the rest: the ports and the length of the payload.
\<close>

record stack_udp_packet =
  su_data :: bytes
  su_src :: socket_addr
  su_dst :: socket_addr

definition UDP_HEADER_LEN :: nat where
  "UDP_HEADER_LEN = 8"

definition split_read_parse ::
    "(bytes \<Rightarrow> (nat \<times> ip_addr \<times> ip_addr) option) \<Rightarrow> (bytes \<Rightarrow> (u16 \<times> u16 \<times> nat) option) \<Rightarrow> bytes \<Rightarrow> stack_udp_packet option" where
  "split_read_parse ip_view udp_view original_bytes =
     (case ip_view original_bytes of
        None \<Rightarrow> None
      | Some (ip_header_len, src_ip, dst_ip) \<Rightarrow>
          if length original_bytes < ip_header_len + UDP_HEADER_LEN then None
          else (case udp_view (drop ip_header_len original_bytes) of
                  None \<Rightarrow> None
                | Some (src_port, dst_port, payload_len) \<Rightarrow>
                    (let payload_start = ip_header_len + UDP_HEADER_LEN; payload_end = payload_start + payload_len
                     in if length original_bytes < payload_end then None
                        else Some \<lparr>su_data = take payload_len (drop payload_start original_bytes),
                                   su_src = socket_addr_new src_ip src_port, su_dst = socket_addr_new dst_ip dst_port\<rparr>)))"

text \<open>\<open>recv\<close>: the next packet of the channel through \<open>and_then\<close>; \<open>None\<close> as well when the channel has ended.\<close>

definition split_read_recv ::
    "(bytes \<Rightarrow> (nat \<times> ip_addr \<times> ip_addr) option) \<Rightarrow> (bytes \<Rightarrow> (u16 \<times> u16 \<times> nat) option) \<Rightarrow> bytes list \<Rightarrow>
     stack_udp_packet option \<times> bytes list" where
  "split_read_recv ip_view udp_view channel =
     (case channel of [] \<Rightarrow> (None, []) | p # ps \<Rightarrow> (split_read_parse ip_view udp_view p, ps))"

text \<open>\<open>SplitWrite::send\<close>: \<open>build\<close> is the packet builder, \<open>deliver\<close> the sending to the stack.\<close>

definition split_write_send ::
    "(socket_addr \<Rightarrow> socket_addr \<Rightarrow> u8 \<Rightarrow> bytes \<Rightarrow> bytes io_result) \<Rightarrow> (bytes \<Rightarrow> unit io_result) \<Rightarrow> u8 \<Rightarrow> stack_udp_packet \<Rightarrow>
     unit io_result" where
  "split_write_send build deliver ttl packet =
     (let go = (case build (su_src packet) (su_dst packet) ttl (su_data packet) of
                  Inl e \<Rightarrow> Inl (io_err KOther (err_msg e))
                | Inr final_bytes \<Rightarrow>
                    (case deliver final_bytes of Inr _ \<Rightarrow> Inr () | Inl err \<Rightarrow> Inl (io_err KOther (''send error: '' @ err_msg err))))
      in case (su_src packet, su_dst packet) of
           (SAV4 _, SAV4 _) \<Rightarrow> go
         | (SAV6 _, SAV6 _) \<Rightarrow> go
         | _ \<Rightarrow> Inl (io_err KInvalidInput ''UDP socket only supports IPv4 and IPv6''))"

text \<open>
  What the tunnel writes, it reads back: if the built frame is an IP header that the parser recognises, with the two
  addresses, followed by a UDP header that gives the ports and the length, and the payload, then the packet that is sent
  arrives with its addresses and its payload. Packets between the two address families are refused.
\<close>

theorem udp_tunnel_roundtrip:
  assumes "build src dst ttl payload = Inr (ip_header @ udp_header @ payload)"
    and "ip_view (ip_header @ udp_header @ payload) = Some (length ip_header, sa_ip src, sa_ip dst)"
    and "udp_view (udp_header @ payload) = Some (sa_port src, sa_port dst, length payload)"
    and "length udp_header = 8" and "src = socket_addr_new (sa_ip src) (sa_port src)" and "dst = socket_addr_new (sa_ip dst) (sa_port dst)"
    and "deliver = (\<lambda>b. if b = ip_header @ udp_header @ payload then Inr () else Inl e)"
  shows "(case (src, dst) of
       (SAV4 _, SAV6 _) \<Rightarrow> \<exists>e. split_write_send build deliver ttl \<lparr>su_data = payload, su_src = src, su_dst = dst\<rparr> = Inl e \<and> err_kind e = KInvalidInput
     | (SAV6 _, SAV4 _) \<Rightarrow> \<exists>e. split_write_send build deliver ttl \<lparr>su_data = payload, su_src = src, su_dst = dst\<rparr> = Inl e \<and> err_kind e = KInvalidInput
     | _ \<Rightarrow> split_write_send build deliver ttl \<lparr>su_data = payload, su_src = src, su_dst = dst\<rparr> = Inr ()) \<and>
    split_read_recv ip_view udp_view ((ip_header @ udp_header @ payload) # rest) =
      (Some \<lparr>su_data = payload, su_src = src, su_dst = dst\<rparr>, rest)"
proof
  show "case (src, dst) of
       (SAV4 _, SAV6 _) \<Rightarrow> \<exists>e. split_write_send build deliver ttl \<lparr>su_data = payload, su_src = src, su_dst = dst\<rparr> = Inl e \<and> err_kind e = KInvalidInput
     | (SAV6 _, SAV4 _) \<Rightarrow> \<exists>e. split_write_send build deliver ttl \<lparr>su_data = payload, su_src = src, su_dst = dst\<rparr> = Inl e \<and> err_kind e = KInvalidInput
     | _ \<Rightarrow> split_write_send build deliver ttl \<lparr>su_data = payload, su_src = src, su_dst = dst\<rparr> = Inr ()"
    using assms(1,7) by (cases src; cases dst) (simp_all add: split_write_send_def Let_def)
  have "split_read_parse ip_view udp_view (ip_header @ udp_header @ payload) = Some \<lparr>su_data = payload, su_src = src, su_dst = dst\<rparr>"
    using assms(2-6) by (simp add: split_read_parse_def UDP_HEADER_LEN_def Let_def)
  then show "split_read_recv ip_view udp_view ((ip_header @ udp_header @ payload) # rest) =
      (Some \<lparr>su_data = payload, su_src = src, su_dst = dst\<rparr>, rest)"
    by (simp add: split_read_recv_def)
qed

theorem udp_tunnel_roundtrip_witness:
  "split_read_recv (\<lambda>p. Some (1, IpV4 (Ipv4 10 0 0 (hd p)), IpV4 (Ipv4 8 8 8 8))) (\<lambda>p. Some (9, 53, length p - 8))
     [[7, 0, 0, 0, 0, 0, 0, 0, 0, 5, 6], [1]] =
   (Some \<lparr>su_data = [5, 6], su_src = socket_addr_new (IpV4 (Ipv4 10 0 0 7)) 9, su_dst = socket_addr_new (IpV4 (Ipv4 8 8 8 8)) 53\<rparr>, [[1]])"
proof -
  let ?src = "socket_addr_new (IpV4 (Ipv4 10 0 0 7)) 9" and ?dst = "socket_addr_new (IpV4 (Ipv4 8 8 8 8)) 53"
  have "split_read_recv (\<lambda>p. Some (1, IpV4 (Ipv4 10 0 0 (hd p)), IpV4 (Ipv4 8 8 8 8))) (\<lambda>p. Some (9, 53, length p - 8))
     (([7] @ [0, 0, 0, 0, 0, 0, 0, 0] @ [5, 6]) # [[1]]) = (Some \<lparr>su_data = [5, 6], su_src = ?src, su_dst = ?dst\<rparr>, [[1]])"
    by (rule udp_tunnel_roundtrip [where build = "\<lambda>s d t p. Inr ([7] @ [0, 0, 0, 0, 0, 0, 0, 0] @ p)" and ttl = 64
          and e = "io_err KOther []", THEN conjunct2]) (rule refl | simp)+
  then show ?thesis by simp
qed

section \<open>The device\<close>

text \<open>
  The queue of injected packets and the channel towards the TUN device, with the permits it has left. \<open>receive\<close> takes a
  packet first and asks for a permit second.
\<close>

record netstack_device =
  rx_queue :: "bytes list"
  tx_capacity :: nat
  tx_queue :: "bytes list"

definition tx_permit :: "netstack_device \<Rightarrow> bool" where
  "tx_permit d \<longleftrightarrow> length (tx_queue d) < tx_capacity d"

definition device_receive :: "netstack_device \<Rightarrow> bytes option \<times> netstack_device" where
  "device_receive d =
     (case rx_queue d of
        [] \<Rightarrow> (None, d)
      | packet # ps \<Rightarrow> (if tx_permit d then Some packet else None, d\<lparr>rx_queue := ps\<rparr>))"

definition device_transmit :: "netstack_device \<Rightarrow> bool" where
  "device_transmit d = tx_permit d"

text \<open>\<open>TxToken::consume\<close>: \<open>f\<close> fills a zeroed buffer of the length; the copy is sent with the permit.\<close>

definition tx_consume :: "nat \<Rightarrow> (bytes \<Rightarrow> bytes) \<Rightarrow> netstack_device \<Rightarrow> netstack_device" where
  "tx_consume len f d = d\<lparr>tx_queue := tx_queue d @ [f (replicate len 0)]\<rparr>"

text \<open>
  The device hands packets to the interface in order, one per call; but while the channel towards the TUN device is
  full, every call takes a packet from the queue and gives nothing: those packets are lost. What was transmitted on a permit
  stays within the channel.
\<close>

theorem device_receive_drops:
  "(tx_permit d \<longrightarrow> (case rx_queue d of [] \<Rightarrow> fst (device_receive d) = None | p # ps \<Rightarrow> device_receive d = (Some p, d\<lparr>rx_queue := ps\<rparr>))) \<and>
   (\<not> tx_permit d \<longrightarrow> fst (device_receive d) = None \<and> rx_queue (((\<lambda>d. snd (device_receive d)) ^^ length (rx_queue d)) d) = []) \<and>
   (device_transmit d \<longrightarrow> length (tx_queue (tx_consume n f d)) \<le> tx_capacity d)"
proof (intro conjI impI)
  assume no: "\<not> tx_permit d"
  show "fst (device_receive d) = None" using no by (simp add: device_receive_def split: list.split)
  have "\<not> tx_permit d \<Longrightarrow> length (rx_queue d) = k \<Longrightarrow> rx_queue (((\<lambda>d. snd (device_receive d)) ^^ k) d) = []" for k
  proof (induction k arbitrary: d)
    case (Suc k)
    then obtain p ps where r: "rx_queue d = p # ps" by (cases "rx_queue d") auto
    have "snd (device_receive d) = d\<lparr>rx_queue := ps\<rparr>" using r by (simp add: device_receive_def)
    moreover have "\<not> tx_permit (d\<lparr>rx_queue := ps\<rparr>)" using Suc.prems(1) by (simp add: tx_permit_def)
    ultimately show ?case using Suc.IH [of "d\<lparr>rx_queue := ps\<rparr>"] Suc.prems(2) r by (simp del: funpow.simps add: funpow_Suc_right)
  qed simp
  with no show "rx_queue (((\<lambda>d. snd (device_receive d)) ^^ length (rx_queue d)) d) = []" by simp
qed (auto simp: device_receive_def device_transmit_def tx_permit_def tx_consume_def split: list.split)

end
