(* ===== verification/Net_Inbound.thy ===== *)
theory Net_Inbound
  imports Net_Dispatch Net_Stack
begin

text \<open>
  The way into the network stack as \<open>NetStack::new\<close> and \<open>split\<close> build it (\<open>crates/ombrac-netstack/src/stack.rs\<close>): the sink
  that routes the packets of the device, its two bounded channels, and behind the TCP channel the tasks of \<open>TcpConnection\<close>.
  The reader of the UDP tunnel stays; the way out is a channel the sources only read.
\<close>

section \<open>State\<close>

record 'k net_stack =
  ns_sink :: stack_sink
  ns_sink_alive :: bool
  ns_tcp :: "'k tcp_connection"

definition net_stack_new :: "net_stack_config \<Rightarrow> 'k net_stack" where
  "net_stack_new config =
     \<lparr>ns_sink = sink_new (channel_size config), ns_sink_alive = True,
      ns_tcp = tcp_connection_new (number_workers config) (channel_size config)\<rparr>"

datatype 'k net_stack_event =
    IntoSink sink_event
  | SinkDropped
  | DispatcherRecv
  | TcpTasks "'k tcp_connection_event"

text \<open>A dispatcher that ends drops the receiving end of its channel.\<close>

definition with_tcp :: "'k tcp_connection \<Rightarrow> 'k net_stack \<Rightarrow> 'k net_stack" where
  "with_tcp t s =
     s\<lparr>ns_tcp := t,
       ns_sink := (if tc_dispatch t = DispatchEnded
                   then (ns_sink s)\<lparr>tcp_inbound := (tcp_inbound (ns_sink s))\<lparr>sc_open := False\<rparr>\<rparr> else ns_sink s)\<rparr>"

text \<open>The dispatcher's \<open>inbound\<close> is the sink's channel: it receives from there, and sees the end once that is empty and the sink gone.\<close>

definition dispatcher_recv :: "'k tcp_connection_env \<Rightarrow> 'k net_stack \<Rightarrow> 'k net_stack option" where
  "dispatcher_recv env s =
     (case (sc_queue (tcp_inbound (ns_sink s)), channel_take (tcp_inbound (ns_sink s))) of
        (p # _, Some ch) \<Rightarrow>
          map_option (\<lambda>t. with_tcp t (s\<lparr>ns_sink := (ns_sink s)\<lparr>tcp_inbound := ch\<rparr>\<rparr>))
            (run_steps (tcp_connection_step env) [PacketArrives p, DispatchPacket] (ns_tcp s))
      | _ \<Rightarrow> None)"

definition own_tcp_event :: "'k tcp_connection_event \<Rightarrow> 'k net_stack \<Rightarrow> bool" where
  "own_tcp_event e s \<longleftrightarrow>
     (case e of
        PacketArrives _ \<Rightarrow> False
      | DispatchPacket \<Rightarrow> False
      | InboundCloses \<Rightarrow> \<not> ns_sink_alive s \<and> sc_queue (tcp_inbound (ns_sink s)) = []
      | _ \<Rightarrow> True)"

definition net_stack_step ::
    "(bytes \<Rightarrow> ip_protocol io_result) \<Rightarrow> 'k tcp_connection_env \<Rightarrow> 'k net_stack_event \<Rightarrow> 'k net_stack \<Rightarrow> 'k net_stack option" where
  "net_stack_step proto_of env e s =
     (case e of
        IntoSink se \<Rightarrow>
          if ns_sink_alive s \<and> se \<noteq> TakeTcp then map_option (\<lambda>k. s\<lparr>ns_sink := k\<rparr>) (sink_step proto_of se (ns_sink s)) else None
      | SinkDropped \<Rightarrow> Some (s\<lparr>ns_sink_alive := False\<rparr>)
      | DispatcherRecv \<Rightarrow> dispatcher_recv env s
      | TcpTasks te \<Rightarrow>
          if own_tcp_event te s then map_option (\<lambda>t. with_tcp t s) (tcp_connection_step env te (ns_tcp s)) else None)"

section \<open>What is where\<close>

text \<open>The packets of one side that were given to the sink.\<close>

definition given :: "(bytes \<Rightarrow> ip_protocol io_result) \<Rightarrow> (ip_protocol \<Rightarrow> bool) \<Rightarrow> 'k net_stack_event list \<Rightarrow> bytes list" where
  "given proto_of P es = concat (map (\<lambda>e. case e of IntoSink se \<Rightarrow> for_side proto_of P se | _ \<Rightarrow> []) es)"

lemma given_simps [simp]:
  "given proto_of P [] = []"
  "given proto_of P (IntoSink se # es) = for_side proto_of P se @ given proto_of P es"
  "given proto_of P (SinkDropped # es) = given proto_of P es"
  "given proto_of P (DispatcherRecv # es) = given proto_of P es"
  "given proto_of P (TcpTasks te # es) = given proto_of P es"
  by (simp_all add: given_def)

definition net_stack_inv :: "'k tcp_connection_env \<Rightarrow> nat \<Rightarrow> bytes list \<Rightarrow> bytes list \<Rightarrow> 'k net_stack \<Rightarrow> bool" where
  "net_stack_inv env n us ts s \<longleftrightarrow>
     tcp_connection_inv env n (ns_tcp s) \<and> tc_inbound (ns_tcp s) = [] \<and>
     tc_received (ns_tcp s) = sc_taken (tcp_inbound (ns_sink s)) \<and>
     (tc_dispatch (ns_tcp s) \<noteq> DispatchEnded \<longrightarrow> sink_inv (ns_sink s) \<and> udp_side (ns_sink s) = us \<and> tcp_side (ns_sink s) = ts)"

lemma net_stack_new_inv: "net_stack_inv env (number_workers config) [] [] (net_stack_new config)"
  using tcp_connection_inv_new [of env "number_workers config" "channel_size config"]
  by (simp add: net_stack_inv_def net_stack_new_def sink_inv_def sink_new_def udp_side_def tcp_side_def held_def)
    (simp add: tcp_connection_new_def)

text \<open>The steps of the TCP side other than receiving leave what was received, and an ended dispatcher stays ended.\<close>

lemma tcp_connection_step_frame:
  assumes "tcp_connection_step env e t = Some t'" and "\<And>p. e \<noteq> PacketArrives p" and "e \<noteq> DispatchPacket"
  shows "tc_inbound t' = tc_inbound t \<and> tc_received t' = tc_received t \<and> (tc_dispatch t = DispatchEnded \<longrightarrow> tc_dispatch t' = DispatchEnded)"
  using assms
  by (cases e)
    (auto simp: tcp_connection_step_def dispatch_send_def dispatch_stop_def drain_round_def idle_select_def emit_streams_def next_stream_def
      connection_drop_def Let_def split: dispatch_phase.splits if_splits prod.splits list.splits)

lemma receive_frame:
  assumes "run_steps (tcp_connection_step env) [PacketArrives p, DispatchPacket] t = Some t'" and "tc_inbound t = []"
  shows "tc_inbound t' = [] \<and> tc_received t' = tc_received t @ [p] \<and> tc_dispatch t = DispatchRecv"
  using assms
  by (auto simp: tcp_connection_step_def dispatch_packet_def split: if_splits dispatch_phase.splits)

lemma net_stack_step_inv:
  assumes inv: "net_stack_inv env n us ts s" and st: "net_stack_step proto_of env e s = Some s'"
  shows "net_stack_inv env n (us @ given proto_of is_udp [e]) (ts @ given proto_of is_tcp_side [e]) s'"
proof (cases e)
  case (IntoSink se)
  with st obtain k where k: "se \<noteq> TakeTcp" "sink_step proto_of se (ns_sink s) = Some k" "s' = s\<lparr>ns_sink := k\<rparr>"
    by (auto simp: net_stack_step_def split: if_splits)
  have "sc_taken (tcp_inbound k) = sc_taken (tcp_inbound (ns_sink s))"
    using k(1,2)
    by (auto simp: sink_step_def sink_poll_ready_def sink_poll_flush_def sink_start_send_def channel_push_def channel_take_def Let_def
        split: sink_event.splits prod.splits poll.splits sum.splits option.splits ip_protocol.splits if_splits list.splits)
  with inv sink_step_ok [OF _ k(2)] k(3) IntoSink show ?thesis by (auto simp: net_stack_inv_def)
next
  case SinkDropped
  with inv st show ?thesis by (auto simp: net_stack_step_def net_stack_inv_def)
next
  case DispatcherRecv
  with st obtain p ps ch t where q: "sc_queue (tcp_inbound (ns_sink s)) = p # ps" "channel_take (tcp_inbound (ns_sink s)) = Some ch"
    "run_steps (tcp_connection_step env) [PacketArrives p, DispatchPacket] (ns_tcp s) = Some t"
    "s' = with_tcp t (s\<lparr>ns_sink := (ns_sink s)\<lparr>tcp_inbound := ch\<rparr>\<rparr>)"
    by (auto simp: net_stack_step_def dispatcher_recv_def split: list.splits option.splits)
  have ch: "ch = (tcp_inbound (ns_sink s))\<lparr>sc_queue := ps, sc_taken := sc_taken (tcp_inbound (ns_sink s)) @ [p]\<rparr>"
    using q(1,2) by (simp add: channel_take_def)
  have "tc_inbound (ns_tcp s) = []" using inv by (simp add: net_stack_inv_def)
  from receive_frame [OF q(3) this] tcp_connection.run_inv [OF _ q(3)] inv q(1) DispatcherRecv show ?thesis
    by (auto simp: net_stack_inv_def q(4) with_tcp_def ch sink_inv_def udp_side_def tcp_side_def held_def)
next
  case (TcpTasks te)
  with st obtain t where t: "own_tcp_event te s" "tcp_connection_step env te (ns_tcp s) = Some t" "s' = with_tcp t s"
    by (auto simp: net_stack_step_def split: if_splits)
  have "te \<noteq> PacketArrives p" "te \<noteq> DispatchPacket" for p using t(1) by (auto simp: own_tcp_event_def)
  from tcp_connection_step_frame [OF t(2) this] tcp_connection.step_inv [OF _ t(2)] inv TcpTasks show ?thesis
    by (auto simp: net_stack_inv_def t(3) with_tcp_def)
qed

lemma net_stack_run_inv:
  "net_stack_inv env n us ts s \<Longrightarrow> run_steps (net_stack_step proto_of env) es s = Some t \<Longrightarrow>
   net_stack_inv env n (us @ given proto_of is_udp es) (ts @ given proto_of is_tcp_side es) t"
proof (induction es arbitrary: s us ts)
  case (Cons e es)
  from Cons.prems(2) obtain s1 where s1: "net_stack_step proto_of env e s = Some s1" "run_steps (net_stack_step proto_of env) es s1 = Some t"
    by (rule run_steps_Cons_SomeE)
  from Cons.IH [OF net_stack_step_inv [OF Cons.prems(1) s1(1)] s1(2)] show ?case by (simp add: given_def)
qed simp

text \<open>The packet the dispatcher holds, and what still waits before it.\<close>

definition with_dispatcher :: "'k tcp_connection \<Rightarrow> bytes list" where
  "with_dispatcher t = (case tc_dispatch t of DispatchSend _ p \<Rightarrow> [p] | _ \<Rightarrow> [])"

definition tcp_waiting :: "'k net_stack \<Rightarrow> bytes list" where
  "tcp_waiting s = with_dispatcher (ns_tcp s) @ sc_queue (tcp_inbound (ns_sink s)) @ held is_tcp_side (ns_sink s)"

lemma received_by_worker:
  assumes inv: "tcp_connection_inv env n t" and i: "i < n" and run: "tc_dispatch t \<noteq> DispatchEnded"
    and mine: "mine = (\<lambda>p. worker_index (we_wire (tce_worker_env env)) (tce_hash env) n p = Some i)"
  shows "filter mine (tc_received t) = got_by (tc_workers t ! i) @ filter mine (with_dispatcher t)"
proof -
  have len: "length (tc_workers t) = n" and ok: "\<And>j. j < n \<Longrightarrow> order_ok env t j (tc_workers t ! j)"
    using inv by (simp_all add: tcp_connection_inv_def worker_ok_def)
  show ?thesis
  proof (cases "tc_dispatch t")
    case (DispatchSend j p)
    then have "j < n" using inv by (simp add: tcp_connection_inv_def)
    from ok [OF this] DispatchSend len have "p \<in> set (sent_to env t j)" by (simp add: order_ok_def)
    then have "mine p \<longleftrightarrow> j = i" using len by (auto simp: mine)
    with ok [OF i] DispatchSend len show ?thesis by (simp add: order_ok_def with_dispatcher_def mine)
  qed (use ok [OF i] len run in \<open>simp_all add: order_ok_def with_dispatcher_def mine\<close>)
qed

text \<open>
  C40. From the device to the application. While the dispatcher runs, the TCP and ICMP packets given to the sink whose index is that of a worker
  are, in their order, those the worker has taken, those in its channel, and those on the way: with the dispatcher, in the sink's channel, in
  the sink. The UDP packets likewise have gone to the UDP tunnel or are on the way. Every channel keeps its bound. Every stream a
  worker has emitted was taken by the application or waits in the shared channel, once and in the worker's order, and has a connection of
  its own, whose buffers are in order and within their bounds.
\<close>

theorem stack_end_to_end:
  assumes "run_steps (net_stack_step proto_of env) es (net_stack_new config) = Some s" and "i < number_workers config"
    and "tw = tc_workers (ns_tcp s) ! i"
    and "mine = (\<lambda>p. worker_index (we_wire (tce_worker_env env)) (tce_hash env) (number_workers config) p = Some i)"
  shows "(tc_dispatch (ns_tcp s) \<noteq> DispatchEnded \<longrightarrow>
      filter mine (given proto_of is_tcp_side es) = tw_log tw @ wk_inbound (tw_worker tw) @ filter mine (tcp_waiting s) \<and>
      given proto_of is_udp es = sc_taken (udp_inbound (ns_sink s)) @ sc_queue (udp_inbound (ns_sink s)) @ held is_udp (ns_sink s) \<and>
      length (sc_queue (tcp_inbound (ns_sink s))) \<le> sc_capacity (tcp_inbound (ns_sink s))) \<and>
    length (wk_inbound (tw_worker tw)) \<le> tce_channel_size env \<and> length (tc_streams (ns_tcp s)) \<le> tce_channel_size env \<and>
    map snd (filter (\<lambda>x. fst x = i) (tc_taken (ns_tcp s) @ tc_streams (ns_tcp s))) = wk_streams (tw_worker tw) \<and>
    distinct (wk_streams (tw_worker tw)) \<and>
    (\<forall>h \<in> set (wk_streams (tw_worker tw)). \<exists>c. wk_conns (tw_worker tw) h = Some c \<and> bytes_ok c)"
proof -
  let ?n = "number_workers config"
  have inv: "net_stack_inv env ?n (given proto_of is_udp es) (given proto_of is_tcp_side es) s"
    using net_stack_run_inv [OF net_stack_new_inv assms(1)] by simp
  then have tcp: "tcp_connection_inv env ?n (ns_tcp s)" by (simp add: net_stack_inv_def)
  have "filter mine (given proto_of is_tcp_side es) = tw_log tw @ wk_inbound (tw_worker tw) @ filter mine (tcp_waiting s) \<and>
      given proto_of is_udp es = sc_taken (udp_inbound (ns_sink s)) @ sc_queue (udp_inbound (ns_sink s)) @ held is_udp (ns_sink s) \<and>
      length (sc_queue (tcp_inbound (ns_sink s))) \<le> sc_capacity (tcp_inbound (ns_sink s))"
    if run: "tc_dispatch (ns_tcp s) \<noteq> DispatchEnded"
  proof -
    have side: "given proto_of is_tcp_side es = tc_received (ns_tcp s) @ sc_queue (tcp_inbound (ns_sink s)) @ held is_tcp_side (ns_sink s)"
      "given proto_of is_udp es = udp_side (ns_sink s)" "sink_inv (ns_sink s)"
      using inv run by (simp_all add: net_stack_inv_def tcp_side_def)
    with received_by_worker [OF tcp assms(2) run assms(4)] show ?thesis
      by (simp add: tcp_waiting_def assms(3) udp_side_def sink_inv_def)
  qed
  with streams_of_worker [OF tcp assms(2)] show ?thesis by (simp add: assms(3))
qed

definition small_stack :: net_stack_config where
  "small_stack = (net_stack_config_default None)\<lparr>channel_size := 4, number_workers := 2\<rparr>"

definition quiet_poll :: "(bytes \<times> bool) iface_poll" where
  "quiet_poll = (\<lambda>w. (False, \<lambda>h k. k, []))"

definition opening_through_stack :: "(bytes \<times> bool) net_stack_event list" where
  "opening_through_stack =
     [IntoSink (SinkSend [0]), IntoSink SinkFlush, DispatcherRecv, TcpTasks DispatchRoom,
      TcpTasks (DrainRound (\<lambda>_. True) quiet_poll 1), TcpTasks NextStream, IntoSink (SinkSend [0])]"

text \<open>The dispatcher has given a packet to the second worker.\<close>

definition opening_dispatched :: "(bytes \<times> bool) tcp_connection" where
  "opening_dispatched = (tcp_connection_new 2 4)
     \<lparr>tc_received := [[0]],
      tc_workers := [\<lparr>tw_worker = worker_new 4, tw_phase = WorkerDraining, tw_log = []\<rparr>,
                     \<lparr>tw_worker = (worker_new 4)\<lparr>wk_inbound := [[0]]\<rparr>, tw_phase = WorkerDraining, tw_log = []\<rparr>]\<rparr>"

lemma opening_received:
  "run_steps (tcp_connection_step tiny_tcp_env) [PacketArrives [0], DispatchPacket] (tcp_connection_new 2 4) =
     Some ((tcp_connection_new 2 4)\<lparr>tc_received := [[0]], tc_dispatch := DispatchSend 1 [0]\<rparr>)"
  by (simp add: tcp_connection_step_def dispatch_packet_def tcp_connection_new_def worker_index_def tiny_tcp_env_def tiny_worker_env_def
      tiny_wire_def Let_def eval_nat_numeral split_def)

lemma opening_sent:
  "tcp_connection_step tiny_tcp_env DispatchRoom ((tcp_connection_new 2 4)\<lparr>tc_received := [[0]], tc_dispatch := DispatchSend 1 [0]\<rparr>) =
     Some opening_dispatched"
  by (simp add: tcp_connection_step_def dispatch_send_def tcp_connection_new_def tiny_tcp_env_def opening_dispatched_def worker_new_def
      Let_def eval_nat_numeral)

lemma opening_accepted:
  "\<exists>t. tcp_connection_step tiny_tcp_env (DrainRound (\<lambda>_. True) quiet_poll 1) opening_dispatched = Some t \<and>
     tc_streams t = [(1, 0)] \<and> tc_taken t = [] \<and> tc_alive t \<and> tc_dispatch t = DispatchRecv \<and> tw_log (tc_workers t ! 1) = [[0]]"
  by (simp add: tcp_connection_step_def drain_round_def emit_streams_def opening_dispatched_def quiet_poll_def tcp_connection_new_def
      work_round_def poll_iface_def socket_pass_def process_inbound_frame_def is_opening_def accept_new_connection_def inject_def
      tiny_tcp_env_def tiny_worker_env_def tiny_wire_def worker_new_def Let_def split_def)

theorem stack_end_to_end_witness:
  "\<exists>s. run_steps (net_stack_step (\<lambda>_. Inr ProtoTcp) tiny_tcp_env) opening_through_stack (net_stack_new small_stack) = Some s \<and>
     tc_taken (ns_tcp s) = [(1, 0)] \<and> tw_log (tc_workers (ns_tcp s) ! 1) = [[0]] \<and> tcp_waiting s = [[0]] \<and>
     distinct (wk_streams (tw_worker (tc_workers (ns_tcp s) ! 1)))"
proof -
  obtain t where t: "tcp_connection_step tiny_tcp_env (DrainRound (\<lambda>_. True) quiet_poll 1) opening_dispatched = Some t"
    "tc_streams t = [(1, 0)]" "tc_taken t = []" "tc_alive t" "tc_dispatch t = DispatchRecv" "tw_log (tc_workers t ! 1) = [[0]]"
    using opening_accepted by blast
  have next_st: "tcp_connection_step tiny_tcp_env NextStream t = Some (t\<lparr>tc_streams := [], tc_taken := [(1, 0)]\<rparr>)"
    using t(2-4) by (simp add: tcp_connection_step_def next_stream_def)
  let ?step = "net_stack_step (\<lambda>_. Inr ProtoTcp) tiny_tcp_env"
  let ?st = "\<lambda>q tk c a. \<lparr>ns_sink = \<lparr>udp_inbound = \<lparr>sc_capacity = 4, sc_queue = [], sc_open = True, sc_taken = []\<rparr>,
    tcp_inbound = \<lparr>sc_capacity = 4, sc_queue = q, sc_open = True, sc_taken = tk\<rparr>, packet_container = c\<rparr>, ns_sink_alive = True, ns_tcp = a\<rparr>"
  have new: "net_stack_new small_stack = ?st [] [] None (tcp_connection_new 2 4)"
    by (simp add: net_stack_new_def small_stack_def sink_new_def)
  have send: "?step (IntoSink (SinkSend [0])) (?st q tk None a) = Some (?st q tk (Some ([0], ProtoTcp)) a)" for q tk a
    by (simp add: net_stack_step_def sink_step_def sink_poll_ready_def sink_start_send_def)
  have flush: "?step (IntoSink SinkFlush) (?st [] tk (Some ([0], ProtoTcp)) a) = Some (?st [[0]] tk None a)" for tk a
    by (simp add: net_stack_step_def sink_step_def sink_poll_flush_def channel_push_def Let_def)
  have recv: "?step DispatcherRecv (?st [[0]] [] None a) = Some (?st [] [[0]] None b)"
    if "run_steps (tcp_connection_step tiny_tcp_env) [PacketArrives [0], DispatchPacket] a = Some b" "tc_dispatch b \<noteq> DispatchEnded" for a b
    using that by (simp add: net_stack_step_def dispatcher_recv_def channel_take_def with_tcp_def del: run_steps.simps)
  have tcp: "?step (TcpTasks e) (?st q tk c a) = Some (?st q tk c b)"
    if "tcp_connection_step tiny_tcp_env e a = Some b" "tc_dispatch b \<noteq> DispatchEnded" "\<And>s. own_tcp_event e s" for e q tk c a b
    using that by (simp add: net_stack_step_def with_tcp_def)
  have recv': "?step DispatcherRecv (?st [[0]] [] None (tcp_connection_new 2 4)) =
      Some (?st [] [[0]] None ((tcp_connection_new 2 4)\<lparr>tc_received := [[0]], tc_dispatch := DispatchSend 1 [0]\<rparr>))"
    by (rule recv [OF opening_received]) simp
  have room: "?step (TcpTasks DispatchRoom) (?st [] [[0]] None ((tcp_connection_new 2 4)\<lparr>tc_received := [[0]], tc_dispatch := DispatchSend 1 [0]\<rparr>)) =
      Some (?st [] [[0]] None opening_dispatched)"
    by (rule tcp [OF opening_sent]) (simp_all add: opening_dispatched_def tcp_connection_new_def own_tcp_event_def)
  have drain: "?step (TcpTasks (DrainRound (\<lambda>_. True) quiet_poll 1)) (?st [] [[0]] None opening_dispatched) = Some (?st [] [[0]] None t)"
    by (rule tcp [OF t(1)]) (simp_all add: t(5) own_tcp_event_def)
  let ?t = "t\<lparr>tc_streams := [], tc_taken := [(1, 0)]\<rparr>"
  have next_st': "?step (TcpTasks NextStream) (?st [] [[0]] None t) = Some (?st [] [[0]] None ?t)"
    by (rule tcp [OF next_st]) (simp_all add: t(5) own_tcp_event_def)
  let ?fin = "?st [] [[0]] (Some ([0], ProtoTcp)) ?t"
  have s: "run_steps ?step opening_through_stack (net_stack_new small_stack) = Some ?fin"
    by (simp only: opening_through_stack_def new run_steps.simps send flush recv' room drain next_st' option.simps)
  have st: "tc_taken (ns_tcp ?fin) = [(1, 0)]" "tw_log (tc_workers (ns_tcp ?fin) ! 1) = [[0]]" "tcp_waiting ?fin = [[0]]"
    using t(5,6) by (simp_all add: tcp_waiting_def with_dispatcher_def held_def is_tcp_side_def)
  have "(1::nat) < number_workers small_stack" by (simp add: small_stack_def)
  from stack_end_to_end [OF s this refl refl] s st show ?thesis by blast
qed

end
