(* ===== verification/Net_Fifo.thy ===== *)
theory Net_Fifo
  imports Net_Tcp
begin

text \<open>
  What a connection of \<open>crates/ombrac-netstack/src/tcp.rs\<close> promises, as an abstract machine: two bounded first-in-first-out
  channels, one from the socket to the application and one back. The rings, wakers and interleavings of \<open>Net_Tcp\<close>
  refine it, step by step.
\<close>

section \<open>Bounded channels\<close>

text \<open>The bytes that went in, and of those the bytes that came out; at most \<open>cap\<close> are on the way.\<close>

record channel =
  ch_in :: bytes
  ch_out :: bytes

inductive channel_step :: "nat \<Rightarrow> channel \<Rightarrow> channel \<Rightarrow> bool" for cap where
  enter: "length (ch_in s @ xs) \<le> cap + length (ch_out s) \<Longrightarrow> channel_step cap s (s\<lparr>ch_in := ch_in s @ xs\<rparr>)"
| leave: "ch_in s = ch_out s @ ys @ zs \<Longrightarrow> channel_step cap s (s\<lparr>ch_out := ch_out s @ ys\<rparr>)"

inductive_simps channel_step_iff: "channel_step cap s s'"

definition inbound :: "'k conn \<Rightarrow> channel" where
  "inbound c = \<lparr>ch_in = taken c, ch_out = got c\<rparr>"

definition outbound :: "'k conn \<Rightarrow> channel" where
  "outbound c = \<lparr>ch_in = put c, ch_out = handed c\<rparr>"

section \<open>What a step does to the histories\<close>

text \<open>One end of a channel has moved, or none.\<close>

definition one_end :: "channel \<Rightarrow> channel \<Rightarrow> bool" where
  "one_end s s' \<longleftrightarrow> (\<exists>xs. s' = s\<lparr>ch_in := ch_in s @ xs\<rparr>) \<or> (\<exists>ys. s' = s\<lparr>ch_out := ch_out s @ ys\<rparr>)"

lemma one_end_refl [simp]: "one_end s s"
  by (auto simp: one_end_def intro: exI [of _ "[]"])

lemma one_end_in [intro]: "one_end \<lparr>ch_in = a, ch_out = b\<rparr> \<lparr>ch_in = a @ xs, ch_out = b\<rparr>"
  by (auto simp: one_end_def)

lemma one_end_out [intro]: "one_end \<lparr>ch_in = a, ch_out = b\<rparr> \<lparr>ch_in = a, ch_out = b @ ys\<rparr>"
  by (auto simp: one_end_def)

lemma one_end_channel_step:
  assumes "one_end s s'" and "ch_in s = ch_out s @ q" and "ch_in s' = ch_out s' @ q'" and "length q' \<le> cap"
  shows "channel_step cap s s'"
  using assms(1) unfolding one_end_def
proof (elim disjE exE)
  fix xs assume s': "s' = s\<lparr>ch_in := ch_in s @ xs\<rparr>"
  with assms(3,4) have "length (ch_in s @ xs) \<le> cap + length (ch_out s)" by simp
  then show ?thesis unfolding s' by (rule channel_step.enter)
next
  fix ys assume s': "s' = s\<lparr>ch_out := ch_out s @ ys\<rparr>"
  with assms(3) have "ch_in s = ch_out s @ ys @ q'" by simp
  then show ?thesis unfolding s' by (rule channel_step.leave)
qed

definition step_moves :: "'k conn \<Rightarrow> 'k conn \<Rightarrow> bool" where
  "step_moves c c' \<longleftrightarrow> recv_cap c' = recv_cap c \<and> send_cap c' = send_cap c \<and>
     one_end (inbound c) (inbound c') \<and> one_end (outbound c) (outbound c')"

lemmas moves_defs = step_moves_def inbound_def outbound_def

lemma read_poll_moves:
  "step_moves c (poll_read_start n c)" "step_moves c (poll_read_register c)" "step_moves c (poll_read_recheck n c)"
  by (simp_all add: moves_defs poll_read_start_def poll_read_register_def poll_read_recheck_def take_recv_def Let_def one_end_out)

lemma write_poll_moves:
  "step_moves c (poll_write_start op c)" "step_moves c (poll_write_register op c)" "step_moves c (poll_write_recheck op c)"
  by (cases op; simp add: moves_defs poll_write_start_def poll_write_register_def poll_write_recheck_def perform_def Let_def one_end_in)+

lemma drop_moves: "step_moves c (stream_drop c)" "step_moves c (prune_socket ops c)"
  by (simp_all add: moves_defs stream_drop_def prune_socket_def Let_def)

lemma worker_moves: "step_moves c (c\<lparr>sock := k\<rparr>)" "step_moves c c"
  by (simp_all add: moves_defs)

lemmas poll_moves = read_poll_moves write_poll_moves drop_moves worker_moves

lemma handle_socket_io_moves: "step_moves c (handle_socket_io ops c)"
proof -
  obtain nr c1 where r: "io_closed ops (io_recv ops c) = (nr, c1)" by force
  define c2 where "c2 = (if nr then wake_recv c1 else c1)"
  obtain nw c3 where w: "io_send ops False c2 = (nw, c3)" by force
  obtain n0 c0 where r0: "io_recv ops c = (n0, c0)" by force
  from io_recv_spec [OF r0] obtain bs j rc where
    "c0 = c\<lparr>recv_rb := recv_rb c @ bs, taken := taken c @ bs, sock := j, read_closed := rc\<rparr>" by blast
  then have c0: "taken c0 = taken c @ bs" "got c0 = got c" "put c0 = put c" "handed c0 = handed c"
    "recv_cap c0 = recv_cap c" "send_cap c0 = send_cap c" by simp_all
  have c1: "\<exists>b. c1 = c0\<lparr>read_closed := b\<rparr>" using r by (auto simp: r0 io_closed_def split: if_splits intro: exI [of _ "read_closed c0"])
  from c0 c1 have c2: "taken c2 = taken c @ bs" "got c2 = got c" "put c2 = put c" "handed c2 = handed c"
    "recv_cap c2 = recv_cap c" "send_cap c2 = send_cap c" by (auto simp: c2_def wake_recv_def)
  from io_send_spec [OF w] obtain k where k: "c3 = c2\<lparr>send_rb := drop k (send_rb c2), handed := handed c2 @ take k (send_rb c2), sock := sock c3\<rparr>"
    by auto
  then obtain q where c3: "c3 = c2\<lparr>send_rb := drop k (send_rb c2), handed := handed c2 @ take k (send_rb c2), sock := q\<rparr>" by blast
  show ?thesis
    using c2 by (auto simp: handle_socket_io_def r w c2_def [symmetric] c3 moves_defs wake_send_def)
qed

lemma conn_step_moves: "conn_step ops e c = Some c' \<Longrightarrow> step_moves c c'"
  by (cases e) (auto simp: conn_step_def stream_step_def worker_step_def io_pass_def poll_moves handle_socket_io_moves
      split: poll_pc.splits if_splits)

section \<open>Refinement\<close>

lemma conn_step_channels:
  assumes "conn_inv c" and "conn_step ops e c = Some c'"
  shows "channel_step (recv_cap c) (inbound c) (inbound c') \<and> channel_step (send_cap c) (outbound c) (outbound c')"
proof -
  from assms conn_step_inv have "bytes_ok c" "bytes_ok c'" by (auto simp: conn_inv_def)
  with conn_step_moves [OF assms(2)] show ?thesis
    by (auto simp: step_moves_def bytes_ok_def inbound_def outbound_def intro: one_end_channel_step)
qed

lemma run_channels:
  "conn_inv c \<Longrightarrow> run_steps (conn_step ops) es c = Some c' \<Longrightarrow>
   (channel_step (recv_cap c))\<^sup>*\<^sup>* (inbound c) (inbound c') \<and> (channel_step (send_cap c))\<^sup>*\<^sup>* (outbound c) (outbound c') \<and>
   recv_cap c' = recv_cap c \<and> send_cap c' = send_cap c"
proof (induction es arbitrary: c)
  case (Cons e es)
  then obtain c1 where c1: "conn_step ops e c = Some c1" and rest: "run_steps (conn_step ops) es c1 = Some c'"
    by (auto split: option.splits)
  have "recv_cap c1 = recv_cap c" "send_cap c1 = send_cap c" using conn_step_moves [OF c1] by (auto simp: step_moves_def)
  with Cons.IH [OF conn_step_inv [OF Cons.prems(1) c1] rest] conn_step_channels [OF Cons.prems(1) c1] show ?case
    by (auto intro: converse_rtranclp_into_rtranclp)
qed simp

text \<open>
  C15. A connection implements two bounded channels: every run of its polls, its worker and its socket is, for the bytes of
  each direction, a run of a first-in-first-out channel of the ring's capacity from the empty channel, and every further
  step of the connection is one step of each channel, on which at most one end moves.
\<close>

theorem tcp_stream_refines_channels:
  assumes "run_steps (conn_step ops) es (conn_new src dst rcap scap k) = Some c" and "conn_step ops e c = Some c'"
  shows "(channel_step rcap)\<^sup>*\<^sup>* \<lparr>ch_in = [], ch_out = []\<rparr> (inbound c) \<and> channel_step rcap (inbound c) (inbound c') \<and>
    (channel_step scap)\<^sup>*\<^sup>* \<lparr>ch_in = [], ch_out = []\<rparr> (outbound c) \<and> channel_step scap (outbound c) (outbound c')"
proof -
  have new: "inbound (conn_new src dst rcap scap k) = \<lparr>ch_in = [], ch_out = []\<rparr>"
    "outbound (conn_new src dst rcap scap k) = \<lparr>ch_in = [], ch_out = []\<rparr>"
    "recv_cap (conn_new src dst rcap scap k) = rcap" "send_cap (conn_new src dst rcap scap k) = scap"
    by (simp_all add: inbound_def outbound_def conn_new_def)
  show ?thesis
    using run_channels [OF conn_inv_new assms(1)] conn_step_channels [OF conn_machine.run_inv [OF conn_inv_new assms(1)] assms(2)]
    by (simp add: new)
qed

theorem tcp_stream_refines_channels_witness:
  "\<exists>c c'. run_steps (conn_step tiny_socket) [Smoltcp (\<lambda>_. ([1, 2, 3], True)), IoPass] (tiny_conn ([], True)) = Some c \<and>
     conn_step tiny_socket (ReadStart 1) c = Some c' \<and>
     inbound c = \<lparr>ch_in = [1, 2], ch_out = []\<rparr> \<and> channel_step 2 (inbound c) (inbound c') \<and> inbound c' = \<lparr>ch_in = [1, 2], ch_out = [1]\<rparr>"
proof -
  obtain c where c: "run_steps (conn_step tiny_socket) [Smoltcp (\<lambda>_. ([1, 2, 3], True)), IoPass] (tiny_conn ([], True)) = Some c"
    by (simp add: conn_eval io_send.simps)
  obtain c' where c': "conn_step tiny_socket (ReadStart 1) c = Some c'"
    using c by (auto simp: conn_eval io_send.simps)
  have "inbound c = \<lparr>ch_in = [1, 2], ch_out = []\<rparr>" "inbound c' = \<lparr>ch_in = [1, 2], ch_out = [1]\<rparr>"
    using c c' by (auto simp: conn_eval io_send.simps inbound_def)
  with c c' tcp_stream_refines_channels [OF c [unfolded tiny_conn_def] c'] show ?thesis by blast
qed

end
