(* ===== verification/Overlay.thy ===== *)
theory Overlay
  imports Ombrac_Prelude
begin

text \<open>
  Layers of configuration. The builders of the client and the server merge a base with an override, field by field with
  \<open>Option::or\<close>: what the later layer sets wins, what it leaves open falls through. The locale states what this gives for
  any such merge and any field read from it; every merge of the two configurations interprets it.
\<close>

text \<open>\<open>Result::and_then\<close> and the \<open>?\<close> operator, \<open>Option::ok_or\<close>.\<close>

definition and_then :: "'e + 'a \<Rightarrow> ('a \<Rightarrow> 'e + 'b) \<Rightarrow> 'e + 'b" where
  "and_then r f = (case r of Inl e \<Rightarrow> Inl e | Inr x \<Rightarrow> f x)"

lemma and_then_simps [simp]: "and_then (Inl e) f = Inl e" "and_then (Inr x) f = f x"
  by (simp_all add: and_then_def)

lemma and_then_Inr_iff: "and_then r f = Inr y \<longleftrightarrow> (\<exists>x. r = Inr x \<and> f x = Inr y)"
  by (cases r) auto

definition ok_or :: "'a option \<Rightarrow> 'e \<Rightarrow> 'e + 'a" where
  "ok_or x e = (case x of None \<Rightarrow> Inl e | Some v \<Rightarrow> Inr v)"

lemma ok_or_simps [simp]: "ok_or None e = Inl e" "ok_or (Some v) e = Inr v"
  by (simp_all add: ok_or_def)

lemma ok_or_Inr_iff [simp]: "ok_or x e = Inr v \<longleftrightarrow> x = Some v"
  by (cases x) auto

lemma option_or_same [simp]: "option_or x x = x"
  by (cases x) simp_all

locale overlay =
  fixes merge :: "'c \<Rightarrow> 'c \<Rightarrow> 'c"
  assumes merge_assoc: "merge (merge a b) c = merge a (merge b c)"
    and merge_idem: "merge a a = a"
begin

text \<open>Merging the layers one after the other is merging their combination, and repeating the last changes nothing.\<close>

lemma layers: "foldl merge a (b # ls) = merge a (foldl merge b ls)"
  by (induction ls arbitrary: b) (simp_all add: merge_assoc)

lemma merge_again: "merge (merge a b) b = merge a b"
  by (simp add: merge_assoc merge_idem)

lemma merge_twice: "merge (merge (merge a b) c) (merge b c) = merge (merge a b) c"
  by (metis merge_assoc merge_idem)

end

text \<open>A field of such a configuration: the override's value if it has one, else the base's.\<close>

locale overlay_field = overlay merge for merge :: "'c \<Rightarrow> 'c \<Rightarrow> 'c" +
  fixes field :: "'c \<Rightarrow> 'v option"
  assumes field_merge: "field (merge a b) = option_or (field b) (field a)"
begin

lemma field_override: "field b = Some v \<Longrightarrow> field (merge a b) = Some v"
  by (simp add: field_merge)

lemma field_fallthrough: "field b = None \<Longrightarrow> field (merge a b) = field a"
  by (simp add: field_merge)

lemma field_layers: "field (merge (merge a b) c) = option_or (field c) (option_or (field b) (field a))"
  by (simp add: field_merge)

text \<open>A field that the defaults set stays set.\<close>

lemma field_stays_set: "field a \<noteq> None \<Longrightarrow> field (merge (merge a b) c) \<noteq> None"
  by (simp add: field_layers) (cases "field c"; cases "field b"; simp)

end

end
