(* ===== verification/Client_Config.thy ===== *)
theory Client_Config
  imports Overlay Std_Text
begin

text \<open>
  The configuration of the client, \<open>crates/ombrac-client/src/config/mod.rs\<close> with its \<open>cli.rs\<close> and \<open>json.rs\<close>, as built with
  all features: defaults, then the JSON file, then the command line. Parsing the command line (\<open>clap\<close>), JSON (\<open>serde_json\<close>)
  and the file system are arguments.
\<close>

section \<open>Data\<close>

datatype congestion = Bbr | Cubic | NewReno

datatype tls_mode = Tls | MTls | Insecure

record client_transport_config =
  ct_bind :: "socket_addr option"
  ct_server_name :: "bytes option"
  ct_tls_mode :: "tls_mode option"
  ct_ca_cert :: "string option"
  ct_client_cert :: "string option"
  ct_client_key :: "string option"
  ct_zero_rtt :: "bool option"
  ct_alpn_protocols :: "bytes list option"
  ct_congestion :: "congestion option"
  ct_cwnd_init :: "u64 option"
  ct_idle_timeout :: "u64 option"
  ct_keep_alive :: "u64 option"
  ct_max_streams :: "u64 option"

definition client_transport_default :: client_transport_config where
  "client_transport_default =
     \<lparr>ct_bind = None, ct_server_name = None, ct_tls_mode = Some Tls, ct_ca_cert = None, ct_client_cert = None,
      ct_client_key = None, ct_zero_rtt = Some False, ct_alpn_protocols = Some [ascii ''h3''], ct_congestion = Some Bbr,
      ct_cwnd_init = None, ct_idle_timeout = Some 30000, ct_keep_alive = Some 8000, ct_max_streams = Some 100\<rparr>"

record logging_config =
  log_level :: "string option"

definition logging_default :: logging_config where
  "logging_default = \<lparr>log_level = Some ''INFO''\<rparr>"

record client_tun_config =
  tun_fd :: "32 word option"
  tun_ipv4 :: "string option"
  tun_ipv6 :: "string option"
  tun_mtu :: "u16 option"
  fake_dns :: "string option"
  ctun_disable_udp_443 :: "bool option"

definition client_tun_default :: client_tun_config where
  "client_tun_default =
     \<lparr>tun_fd = None, tun_ipv4 = None, tun_ipv6 = None, tun_mtu = Some 1500, fake_dns = Some ''198.18.0.0/16'',
      ctun_disable_udp_443 = Some False\<rparr>"

record endpoint_config =
  ep_http :: "socket_addr option"
  ep_socks :: "socket_addr option"
  ep_tun :: "client_tun_config option"

definition endpoint_default :: endpoint_config where
  "endpoint_default = \<lparr>ep_http = None, ep_socks = None, ep_tun = None\<rparr>"

record client_json_config =
  cj_secret :: "string option"
  cj_server :: "bytes option"
  cj_auth_option :: "string option"
  cj_endpoint :: "endpoint_config option"
  cj_transport :: "client_transport_config option"
  cj_logging :: "logging_config option"

record client_cli_config =
  cli_secret :: "string option"
  cli_server :: "bytes option"
  cli_auth_option :: "string option"
  cli_endpoint :: endpoint_config
  cli_transport :: client_transport_config
  cli_logging :: logging_config

record client_config =
  cfg_secret :: string
  cfg_server :: bytes
  cfg_auth_option :: "string option"
  cfg_endpoint :: endpoint_config
  cfg_transport :: client_transport_config
  cfg_logging :: logging_config

record client_builder =
  cb_secret :: "string option"
  cb_server :: "bytes option"
  cb_auth_option :: "string option"
  cb_endpoint :: endpoint_config
  cb_transport :: client_transport_config
  cb_logging :: logging_config

definition client_builder_new :: client_builder where
  "client_builder_new =
     \<lparr>cb_secret = None, cb_server = None, cb_auth_option = None, cb_endpoint = endpoint_default,
      cb_transport = client_transport_default, cb_logging = logging_default\<rparr>"

section \<open>Merging\<close>

definition client_merge_transport :: "client_transport_config \<Rightarrow> client_transport_config \<Rightarrow> client_transport_config" where
  "client_merge_transport base ov =
     \<lparr>ct_bind = option_or (ct_bind ov) (ct_bind base),
      ct_server_name = option_or (ct_server_name ov) (ct_server_name base),
      ct_tls_mode = option_or (ct_tls_mode ov) (ct_tls_mode base),
      ct_ca_cert = option_or (ct_ca_cert ov) (ct_ca_cert base),
      ct_client_cert = option_or (ct_client_cert ov) (ct_client_cert base),
      ct_client_key = option_or (ct_client_key ov) (ct_client_key base),
      ct_zero_rtt = option_or (ct_zero_rtt ov) (ct_zero_rtt base),
      ct_alpn_protocols = option_or (ct_alpn_protocols ov) (ct_alpn_protocols base),
      ct_congestion = option_or (ct_congestion ov) (ct_congestion base),
      ct_cwnd_init = option_or (ct_cwnd_init ov) (ct_cwnd_init base),
      ct_idle_timeout = option_or (ct_idle_timeout ov) (ct_idle_timeout base),
      ct_keep_alive = option_or (ct_keep_alive ov) (ct_keep_alive base),
      ct_max_streams = option_or (ct_max_streams ov) (ct_max_streams base)\<rparr>"

definition merge_logging :: "logging_config \<Rightarrow> logging_config \<Rightarrow> logging_config" where
  "merge_logging base ov = \<lparr>log_level = option_or (log_level ov) (log_level base)\<rparr>"

definition merge_tun_fields :: "client_tun_config \<Rightarrow> client_tun_config \<Rightarrow> client_tun_config" where
  "merge_tun_fields base ov =
     \<lparr>tun_fd = option_or (tun_fd ov) (tun_fd base), tun_ipv4 = option_or (tun_ipv4 ov) (tun_ipv4 base),
      tun_ipv6 = option_or (tun_ipv6 ov) (tun_ipv6 base), tun_mtu = option_or (tun_mtu ov) (tun_mtu base),
      fake_dns = option_or (fake_dns ov) (fake_dns base),
      ctun_disable_udp_443 = option_or (ctun_disable_udp_443 ov) (ctun_disable_udp_443 base)\<rparr>"

fun merge_tun :: "client_tun_config option \<Rightarrow> client_tun_config option \<Rightarrow> client_tun_config option" where
  "merge_tun None None = None"
| "merge_tun (Some base) None = Some base"
| "merge_tun None (Some ov) = Some ov"
| "merge_tun (Some base) (Some ov) = Some (merge_tun_fields base ov)"

definition merge_endpoint :: "endpoint_config \<Rightarrow> endpoint_config \<Rightarrow> endpoint_config" where
  "merge_endpoint base ov =
     \<lparr>ep_http = option_or (ep_http ov) (ep_http base), ep_socks = option_or (ep_socks ov) (ep_socks base),
      ep_tun = merge_tun (ep_tun base) (ep_tun ov)\<rparr>"

text \<open>\<open>if let Some(x) = ...\<close>: the field is replaced when the layer has one.\<close>

definition client_merge_json :: "client_json_config \<Rightarrow> client_builder \<Rightarrow> client_builder" where
  "client_merge_json j b =
     b\<lparr>cb_secret := (case cj_secret j of Some x \<Rightarrow> Some x | None \<Rightarrow> cb_secret b),
       cb_server := (case cj_server j of Some x \<Rightarrow> Some x | None \<Rightarrow> cb_server b),
       cb_auth_option := (case cj_auth_option j of Some x \<Rightarrow> Some x | None \<Rightarrow> cb_auth_option b),
       cb_endpoint := (case cj_endpoint j of Some x \<Rightarrow> merge_endpoint (cb_endpoint b) x | None \<Rightarrow> cb_endpoint b),
       cb_transport := (case cj_transport j of Some x \<Rightarrow> client_merge_transport (cb_transport b) x | None \<Rightarrow> cb_transport b),
       cb_logging := (case cj_logging j of Some x \<Rightarrow> merge_logging (cb_logging b) x | None \<Rightarrow> cb_logging b)\<rparr>"

definition client_merge_cli :: "client_cli_config \<Rightarrow> client_builder \<Rightarrow> client_builder" where
  "client_merge_cli c b =
     b\<lparr>cb_secret := (case cli_secret c of Some x \<Rightarrow> Some x | None \<Rightarrow> cb_secret b),
       cb_server := (case cli_server c of Some x \<Rightarrow> Some x | None \<Rightarrow> cb_server b),
       cb_auth_option := (case cli_auth_option c of Some x \<Rightarrow> Some x | None \<Rightarrow> cb_auth_option b),
       cb_endpoint := merge_endpoint (cb_endpoint b) (cli_endpoint c),
       cb_transport := client_merge_transport (cb_transport b) (cli_transport c),
       cb_logging := merge_logging (cb_logging b) (cli_logging c)\<rparr>"

definition client_config_build :: "client_builder \<Rightarrow> string + client_config" where
  "client_config_build b =
     and_then (ok_or (cb_secret b) ''missing required field: secret'') (\<lambda>secret.
     and_then (ok_or (cb_server b) ''missing required field: server'') (\<lambda>server.
       Inr \<lparr>cfg_secret = secret, cfg_server = server, cfg_auth_option = cb_auth_option b, cfg_endpoint = cb_endpoint b,
            cfg_transport = cb_transport b, cfg_logging = cb_logging b\<rparr>))"

section \<open>Loading\<close>

text \<open>\<open>JsonConfig::from_file\<close> on a file system, with \<open>from_json_str\<close> as the parser.\<close>

definition json_from_file :: "(string \<Rightarrow> string + 'j) \<Rightarrow> (string \<Rightarrow> bool) \<Rightarrow> (string \<Rightarrow> string + string) \<Rightarrow> string \<Rightarrow> string + 'j" where
  "json_from_file from_json_str exists read_to_string config_path =
     (if \<not> exists config_path then Inl (''Configuration file not found: '' @ config_path)
      else and_then (read_to_string config_path) from_json_str)"

definition client_load ::
    "(string \<Rightarrow> string + client_json_config) \<Rightarrow> string option \<Rightarrow> client_cli_config \<Rightarrow> string + client_config" where
  "client_load from_file config_path cli =
     and_then (case config_path of
                 None \<Rightarrow> Inr client_builder_new
               | Some path \<Rightarrow> and_then (from_file path) (\<lambda>j. Inr (client_merge_json j client_builder_new)))
       (\<lambda>builder. client_config_build (client_merge_cli cli builder))"

definition client_load_from_json :: "(string \<Rightarrow> string + client_json_config) \<Rightarrow> string \<Rightarrow> string + client_config" where
  "client_load_from_json from_json_str json_str =
     and_then (from_json_str json_str) (\<lambda>j. client_config_build (client_merge_json j client_builder_new))"

definition client_load_from_file :: "(string \<Rightarrow> string + client_json_config) \<Rightarrow> string \<Rightarrow> string + client_config" where
  "client_load_from_file from_file config_path =
     and_then (from_file config_path) (\<lambda>j. client_config_build (client_merge_json j client_builder_new))"

section \<open>The merges are overlays\<close>

interpretation client_transport: overlay client_merge_transport
  by unfold_locales (simp_all add: client_merge_transport_def option_or_simps)

interpretation logging: overlay merge_logging
  by unfold_locales (simp_all add: merge_logging_def option_or_simps)

lemma merge_tun_fields_assoc: "merge_tun_fields (merge_tun_fields a b) c = merge_tun_fields a (merge_tun_fields b c)"
  by (simp add: merge_tun_fields_def option_or_simps)

lemma merge_tun_fields_idem: "merge_tun_fields a a = a"
  by (simp add: merge_tun_fields_def)

interpretation tun_config: overlay merge_tun
proof
  show "merge_tun (merge_tun a b) c = merge_tun a (merge_tun b c)" for a b c
    by (cases a; cases b; cases c) (simp_all add: merge_tun_fields_assoc)
  show "merge_tun a a = a" for a by (cases a) (simp_all add: merge_tun_fields_idem)
qed

interpretation endpoint: overlay merge_endpoint
  by unfold_locales (simp_all add: merge_endpoint_def option_or_simps tun_config.merge_assoc tun_config.merge_idem)

interpretation tls_mode_field: overlay_field client_merge_transport ct_tls_mode
  by unfold_locales (simp add: client_merge_transport_def)

interpretation server_name_field: overlay_field client_merge_transport ct_server_name
  by unfold_locales (simp add: client_merge_transport_def)

section \<open>What is loaded\<close>

definition empty_transport :: client_transport_config where
  "empty_transport =
     \<lparr>ct_bind = None, ct_server_name = None, ct_tls_mode = None, ct_ca_cert = None, ct_client_cert = None,
      ct_client_key = None, ct_zero_rtt = None, ct_alpn_protocols = None, ct_congestion = None, ct_cwnd_init = None,
      ct_idle_timeout = None, ct_keep_alive = None, ct_max_streams = None\<rparr>"

definition empty_cli :: client_cli_config where
  "empty_cli =
     \<lparr>cli_secret = None, cli_server = None, cli_auth_option = None, cli_endpoint = \<lparr>ep_http = None, ep_socks = None, ep_tun = None\<rparr>,
      cli_transport = empty_transport, cli_logging = \<lparr>log_level = None\<rparr>\<rparr>"

lemma merge_empty_transport [simp]: "client_merge_transport t empty_transport = t"
  by (simp add: client_merge_transport_def empty_transport_def)

lemma merge_tun_None [simp]: "merge_tun t None = t"
  by (cases t) simp_all

lemma merge_empty_endpoint: "merge_endpoint e \<lparr>ep_http = None, ep_socks = None, ep_tun = None\<rparr> = e"
  by (simp add: merge_endpoint_def)

lemma merge_empty_logging: "merge_logging l \<lparr>log_level = None\<rparr> = l"
  by (simp add: merge_logging_def)

lemma merge_empty_cli: "client_merge_cli empty_cli b = b"
  by (simp add: client_merge_cli_def empty_cli_def merge_empty_endpoint merge_empty_logging)

lemma case_option_or: "(case x of Some v \<Rightarrow> Some v | None \<Rightarrow> y) = option_or x y"
  by (cases x) simp_all

text \<open>The transport layer of a JSON file; a file without one adds nothing.\<close>

definition json_transport :: "client_json_config \<Rightarrow> client_transport_config" where
  "json_transport j = (case cj_transport j of None \<Rightarrow> empty_transport | Some t \<Rightarrow> t)"

lemma merge_json_transport:
  "cb_transport (client_merge_json j b) = client_merge_transport (cb_transport b) (json_transport j)"
  by (simp add: client_merge_json_def json_transport_def split: option.split)

lemma option_or_Some_set: "option_or x (Some v) \<noteq> None"
  by (cases x) simp_all

lemma defaults_stay_set:
  "ct_zero_rtt (client_merge_transport client_transport_default t) \<noteq> None"
  "ct_alpn_protocols (client_merge_transport client_transport_default t) \<noteq> None"
  "ct_congestion (client_merge_transport client_transport_default t) \<noteq> None"
  "ct_idle_timeout (client_merge_transport client_transport_default t) \<noteq> None"
  "ct_keep_alive (client_merge_transport client_transport_default t) \<noteq> None"
  "ct_max_streams (client_merge_transport client_transport_default t) \<noteq> None"
  by (simp_all add: client_merge_transport_def client_transport_default_def option_or_Some_set del: not_None_eq)



end
