(* ===== verification/Quic_Transport.thy ===== *)
theory Quic_Transport
  imports Client_Config
begin

text \<open>
  The QUIC transport as far as it is the sources' own: \<open>crates/ombrac-transport/src/quic/\<close> (\<open>mod.rs\<close>, \<open>client.rs\<close>,
  \<open>server.rs\<close>, \<open>error.rs\<close>). It turns a configuration into the TLS and transport settings given to \<open>quinn\<close> and \<open>rustls\<close>,
  and the errors of \<open>quinn\<close> into \<open>io::Error\<close>. Reading files, the PEM parser, and the checks that \<open>rustls\<close> and \<open>quinn\<close> make
  are arguments.
\<close>

section \<open>Errors\<close>

text \<open>The variants that carry an error of a library carry its text.\<close>

datatype quic_error =
    QIo io_error
  | QRustls string
  | QRcgen string
  | QuinnRustls string
  | QuinnConnect string
  | QuinnConnection string
  | QuinnSendDatagram string
  | QuinnVarInt string
  | ServerMissingCertificate
  | InvalidCongestion
  | QConnectionClosed

fun quic_error_text :: "quic_error \<Rightarrow> string" where
  "quic_error_text (QIo e) = err_msg e"
| "quic_error_text (QRustls t) = t"
| "quic_error_text (QRcgen t) = t"
| "quic_error_text (QuinnRustls t) = t"
| "quic_error_text (QuinnConnect t) = t"
| "quic_error_text (QuinnConnection t) = t"
| "quic_error_text (QuinnSendDatagram t) = t"
| "quic_error_text (QuinnVarInt t) = t"
| "quic_error_text ServerMissingCertificate = ''Certificate or Key must be provided when TLS is enabled''"
| "quic_error_text InvalidCongestion = ''Invalid congestion algorithm''"
| "quic_error_text QConnectionClosed = ''ConnectionClosed''"

fun io_from_quic_error :: "quic_error \<Rightarrow> io_error" where
  "io_from_quic_error (QIo e) = e"
| "io_from_quic_error err = io_err KOther (quic_error_text err)"

text \<open>The variants of \<open>quinn::ConnectionError\<close> and \<open>quinn::SendDatagramError\<close>.\<close>

datatype quinn_connection_error =
    VersionMismatch | TransportErr | ConnectionClosed | ApplicationClosed | Reset | TimedOut | LocallyClosed | CidsExhausted

datatype quinn_send_datagram_error = UnsupportedByPeer | Disabled | TooLarge | ConnectionLost quinn_connection_error

datatype connection_error = ConnErr quinn_connection_error | SendErr quinn_send_datagram_error

fun io_from_connection_error :: "(connection_error \<Rightarrow> string) \<Rightarrow> connection_error \<Rightarrow> io_error" where
  "io_from_connection_error text (ConnErr error) =
     io_err (case error of
               LocallyClosed \<Rightarrow> KConnectionReset
             | ConnectionClosed \<Rightarrow> KConnectionReset
             | ApplicationClosed \<Rightarrow> KConnectionReset
             | Reset \<Rightarrow> KConnectionReset
             | TimedOut \<Rightarrow> KTimedOut
             | _ \<Rightarrow> KOther) (text (ConnErr error))"
| "io_from_connection_error text (SendErr error) =
     io_err (case error of ConnectionLost _ \<Rightarrow> KConnectionReset | _ \<Rightarrow> KOther) (text (SendErr error))"

section \<open>Transport settings\<close>

definition ascii_lower :: "u8 \<Rightarrow> u8" where
  "ascii_lower b = (if 0x41 \<le> b \<and> b \<le> 0x5A then b + 0x20 else b)"

text \<open>\<open>Congestion::from_str\<close>; \<open>to_lowercase\<close> maps no other letter to one of the names' letters.\<close>

definition congestion_from_str :: "bytes \<Rightarrow> quic_error + congestion" where
  "congestion_from_str v =
     (let l = map ascii_lower v
      in if l = ascii ''bbr'' then Inr Bbr
         else if l = ascii ''cubic'' then Inr Cubic
         else if l = ascii ''newreno'' then Inr NewReno
         else Inl InvalidCongestion)"

record quic_transport_config =
  qt_max_idle_timeout :: "u64 option"
  qt_keep_alive :: "u64 option"
  qt_max_bidi_streams :: "u64 option"
  qt_congestion :: "(congestion \<times> u64 option) option"

definition quic_transport_default :: quic_transport_config where
  "quic_transport_default = \<lparr>qt_max_idle_timeout = None, qt_keep_alive = None, qt_max_bidi_streams = None, qt_congestion = None\<rparr>"

text \<open>\<open>varint\<close> is \<open>VarInt::try_from\<close>, which \<open>IdleTimeout::try_from\<close> applies to the milliseconds: the error, if any.\<close>

definition set_congestion :: "congestion \<Rightarrow> u64 option \<Rightarrow> quic_transport_config \<Rightarrow> quic_error + quic_transport_config" where
  "set_congestion c initial_window t = Inr (t\<lparr>qt_congestion := Some (c, initial_window)\<rparr>)"

definition set_max_idle_timeout :: "(u64 \<Rightarrow> quic_error option) \<Rightarrow> u64 \<Rightarrow> quic_transport_config \<Rightarrow> quic_error + quic_transport_config" where
  "set_max_idle_timeout varint ms t =
     (case varint ms of Some e \<Rightarrow> Inl e | None \<Rightarrow> Inr (t\<lparr>qt_max_idle_timeout := Some ms\<rparr>))"

definition set_keep_alive_period :: "u64 \<Rightarrow> quic_transport_config \<Rightarrow> quic_error + quic_transport_config" where
  "set_keep_alive_period ms t = Inr (t\<lparr>qt_keep_alive := Some ms\<rparr>)"

definition set_max_open_bidirectional_streams ::
    "(u64 \<Rightarrow> quic_error option) \<Rightarrow> u64 \<Rightarrow> quic_transport_config \<Rightarrow> quic_error + quic_transport_config" where
  "set_max_open_bidirectional_streams varint n t =
     (case varint n of Some e \<Rightarrow> Inl e | None \<Rightarrow> Inr (t\<lparr>qt_max_bidi_streams := Some n\<rparr>))"

section \<open>Certificates\<close>

text \<open>
  What loading takes from outside: the files, whether a path has the extension \<open>der\<close>, the PEM parsers, and the checks that
  \<open>rustls\<close> makes of a certificate chain with its key and of the roots that verify clients.
\<close>

record ('c, 'k) cert_env =
  ce_read :: "string \<Rightarrow> bytes io_result"
  ce_is_der :: "string \<Rightarrow> bool"
  ce_der_cert :: "bytes \<Rightarrow> 'c"
  ce_der_key :: "bytes \<Rightarrow> 'k"
  ce_pem_certs :: "bytes \<Rightarrow> 'c list io_result"
  ce_pem_key :: "bytes \<Rightarrow> 'k option io_result"
  ce_chain_ok :: "'c list \<Rightarrow> 'k \<Rightarrow> quic_error option"
  ce_verifier_ok :: "'c list \<Rightarrow> io_error option"
  ce_self_signed :: "quic_error + ('c \<times> 'k)"

definition load_certificates :: "('c, 'k) cert_env \<Rightarrow> string \<Rightarrow> 'c list io_result" where
  "load_certificates env path =
     and_then (ce_read env path) (\<lambda>content.
       if ce_is_der env path then Inr [ce_der_cert env content] else ce_pem_certs env content)"

definition load_private_key :: "('c, 'k) cert_env \<Rightarrow> string \<Rightarrow> 'k io_result" where
  "load_private_key env path =
     and_then (ce_read env path) (\<lambda>content.
       if ce_is_der env path then Inr (ce_der_key env content)
       else and_then (ce_pem_key env content) (\<lambda>key. ok_or key (io_err KNotFound ''no private key found in PEM file'')))"

definition via_io :: "'a io_result \<Rightarrow> quic_error + 'a" where
  "via_io r = (case r of Inl e \<Rightarrow> Inl (QIo e) | Inr x \<Rightarrow> Inr x)"

lemma via_io_Inr_iff [simp]: "via_io r = Inr x \<longleftrightarrow> r = Inr x"
  by (cases r) (auto simp: via_io_def)

definition check :: "'e option \<Rightarrow> 'a \<Rightarrow> 'e + 'a" where
  "check e x = (case e of Some err \<Rightarrow> Inl err | None \<Rightarrow> Inr x)"

lemma check_Inr_iff [simp]: "check e x = Inr y \<longleftrightarrow> e = None \<and> y = x"
  by (cases e) (auto simp: check_def)

section \<open>The client's TLS configuration\<close>

record quic_client_config =
  qc_bind_addr :: socket_addr
  qc_server_name :: bytes
  qc_server_addr :: socket_addr
  qc_enable_zero_rtt :: bool
  qc_alpn_protocols :: "bytes list"
  qc_skip_server_verification :: bool
  qc_root_ca_path :: "string option"
  qc_client_cert_key_paths :: "(string \<times> string) option"
  qc_transport :: quic_transport_config

definition quic_client_config_new :: "socket_addr \<Rightarrow> bytes \<Rightarrow> quic_client_config" where
  "quic_client_config_new server_addr server_name =
     \<lparr>qc_bind_addr = (case server_addr of
        SAV4 _ \<Rightarrow> socket_addr_new (IpV4 (Ipv4 0 0 0 0)) 0 | SAV6 _ \<Rightarrow> socket_addr_new (IpV6 (Ipv6 0 0 0 0 0 0 0 0)) 0),
      qc_server_name = server_name, qc_server_addr = server_addr, qc_enable_zero_rtt = False, qc_alpn_protocols = [],
      qc_skip_server_verification = False, qc_root_ca_path = None, qc_client_cert_key_paths = None,
      qc_transport = quic_transport_default\<rparr>"

text \<open>Roots: those of \<open>webpki_roots\<close>, or the certificates of a file.\<close>

datatype 'c root_store = WebpkiRoots | RootsFrom "'c list"

record ('c, 'k) client_tls =
  ctls_roots :: "'c root_store"
  ctls_client_auth :: "('c list \<times> 'k) option"
  ctls_alpn :: "bytes list"
  ctls_null_verifier :: bool
  ctls_early_data :: bool

definition build_client_tls :: "('c, 'k) cert_env \<Rightarrow> quic_client_config \<Rightarrow> quic_error + ('c, 'k) client_tls" where
  "build_client_tls env c =
     and_then (case qc_root_ca_path c of
                 Some path \<Rightarrow> and_then (via_io (load_certificates env path)) (\<lambda>certs. Inr (RootsFrom certs))
               | None \<Rightarrow> Inr WebpkiRoots) (\<lambda>roots.
     and_then (case qc_client_cert_key_paths c of
                 Some (cert_path, key_path) \<Rightarrow>
                   and_then (via_io (load_certificates env cert_path)) (\<lambda>certs.
                   and_then (via_io (load_private_key env key_path)) (\<lambda>key.
                     check (ce_chain_ok env certs key) (Some (certs, key))))
               | None \<Rightarrow> Inr None) (\<lambda>auth.
       Inr \<lparr>ctls_roots = roots, ctls_client_auth = auth, ctls_alpn = qc_alpn_protocols c,
            ctls_null_verifier = qc_skip_server_verification c, ctls_early_data = qc_enable_zero_rtt c\<rparr>))"

section \<open>The server's TLS configuration\<close>

record quic_server_config =
  qs_enable_zero_rtt :: bool
  qs_enable_self_signed :: bool
  qs_alpn_protocols :: "bytes list"
  qs_root_ca_path :: "string option"
  qs_tls_cert_key_paths :: "(string \<times> string) option"
  qs_transport :: quic_transport_config

definition quic_server_config_new :: quic_server_config where
  "quic_server_config_new =
     \<lparr>qs_enable_zero_rtt = False, qs_enable_self_signed = False, qs_alpn_protocols = [], qs_root_ca_path = None,
      qs_tls_cert_key_paths = None, qs_transport = quic_transport_default\<rparr>"

record ('c, 'k) server_tls =
  stls_chain :: "'c list"
  stls_key :: 'k
  stls_client_roots :: "'c list option"
  stls_alpn :: "bytes list"
  stls_half_rtt :: bool
  stls_early_data_size :: u32

definition build_server_tls :: "('c, 'k) cert_env \<Rightarrow> quic_server_config \<Rightarrow> quic_error + ('c, 'k) server_tls" where
  "build_server_tls env c =
     and_then (if qs_enable_self_signed c
               then and_then (ce_self_signed env) (\<lambda>(cert, key). Inr ([cert], key))
               else and_then (ok_or (qs_tls_cert_key_paths c) ServerMissingCertificate) (\<lambda>(cert, key).
                    and_then (via_io (load_certificates env cert)) (\<lambda>certs.
                    and_then (via_io (load_private_key env key)) (\<lambda>k. Inr (certs, k))))) (\<lambda>(certs, key).
     and_then (case qs_root_ca_path c of
                 Some ca_path \<Rightarrow>
                   and_then (via_io (load_certificates env ca_path)) (\<lambda>ca_certs.
                   and_then (via_io (check (ce_verifier_ok env ca_certs) ())) (\<lambda>_. Inr (Some ca_certs)))
               | None \<Rightarrow> Inr None) (\<lambda>client_roots.
     and_then (check (ce_chain_ok env certs key) ()) (\<lambda>_.
       Inr \<lparr>stls_chain = certs, stls_key = key, stls_client_roots = client_roots, stls_alpn = qs_alpn_protocols c,
            stls_half_rtt = qs_enable_zero_rtt c,
            stls_early_data_size = (if qs_enable_zero_rtt c then - 1 else 0)\<rparr>)))"

text \<open>What the two builders make of each part of a configuration.\<close>

lemma build_client_tls_spec:
  assumes "build_client_tls env c = Inr tls"
  shows "ctls_null_verifier tls = qc_skip_server_verification c" and "ctls_alpn tls = qc_alpn_protocols c"
    and "ctls_early_data tls = qc_enable_zero_rtt c"
    and "qc_client_cert_key_paths c = None \<Longrightarrow> ctls_client_auth tls = None"
    and "qc_client_cert_key_paths c = Some (cp, kp) \<Longrightarrow>
           \<exists>certs key. load_certificates env cp = Inr certs \<and> load_private_key env kp = Inr key \<and> ctls_client_auth tls = Some (certs, key)"
    and "qc_root_ca_path c = None \<Longrightarrow> ctls_roots tls = WebpkiRoots"
    and "qc_root_ca_path c = Some p \<Longrightarrow> \<exists>certs. load_certificates env p = Inr certs \<and> ctls_roots tls = RootsFrom certs"
  using assms by (auto simp: build_client_tls_def and_then_Inr_iff)

lemma build_server_tls_spec:
  assumes "build_server_tls env c = Inr tls"
  shows "qs_root_ca_path c = None \<Longrightarrow> stls_client_roots tls = None"
    and "qs_root_ca_path c = Some p \<Longrightarrow> \<exists>certs. load_certificates env p = Inr certs \<and> stls_client_roots tls = Some certs"
    and "qs_enable_self_signed c \<Longrightarrow> \<exists>cert key. ce_self_signed env = Inr (cert, key) \<and> stls_chain tls = [cert] \<and> stls_key tls = key"
    and "\<not> qs_enable_self_signed c \<Longrightarrow>
           \<exists>cp kp certs key. qs_tls_cert_key_paths c = Some (cp, kp) \<and> load_certificates env cp = Inr certs \<and>
             load_private_key env kp = Inr key \<and> stls_chain tls = certs \<and> stls_key tls = key"
    and "stls_alpn tls = qs_alpn_protocols c" and "stls_half_rtt tls = qs_enable_zero_rtt c"
  using assms by (auto simp: build_server_tls_def and_then_Inr_iff split: if_splits)

end
