(* ===== verification/Quic_Recovery.thy ===== *)
theory Quic_Recovery
  imports Client_Connection Quic_Transport
begin

text \<open>
  The client's reconnection over QUIC: \<open>with_retry\<close> (\<open>crates/ombrac-client/src/connection/mod.rs\<close>) decides by the kind of
  an \<open>io::Error\<close>, and the transport (\<open>crates/ombrac-transport/src/quic/mod.rs\<close>) decides which kind an error of \<open>quinn\<close> gets.
\<close>

lemma recovers_iff:
  "is_connection_error (io_from_connection_error message e) \<longleftrightarrow>
   (case e of
      ConnErr err \<Rightarrow> err \<in> {LocallyClosed, ConnectionClosed, ApplicationClosed, Reset, TimedOut}
    | SendErr err \<Rightarrow> (\<exists>lost. err = ConnectionLost lost))"
  by (cases e rule: connection_error.exhaust)
    (auto simp: is_connection_error_def split: quinn_connection_error.splits quinn_send_datagram_error.splits)

text \<open>The connection that ended with \<open>e\<close>: every operation on it fails with \<open>e\<close>.\<close>

definition dead_step ::
    "(connection_error \<Rightarrow> string) \<Rightarrow> connection_error \<Rightarrow> nat \<times> 'c retry_event \<Rightarrow> 'c retry_state \<Rightarrow> 'c retry_state option" where
  "dead_step message e ev s =
     (case snd ev of
        OpResult r \<Rightarrow> if r = Inl (io_from_connection_error message e) then retry_step ev s else None
      | _ \<Rightarrow> retry_step ev s)"

definition no_recovery :: "'c client_connection \<Rightarrow> io_error \<Rightarrow> 'c retry_state \<Rightarrow> bool" where
  "no_recovery c err s \<longleftrightarrow> shared s = c \<and>
     (\<forall>i. case tasks s i of TIdle \<Rightarrow> True | TLoaded _ \<Rightarrow> True | TFirst _ _ \<Rightarrow> True | TReturn r \<Rightarrow> r = Inl err | _ \<Rightarrow> False)"

lemma no_recovery_set_task:
  assumes "no_recovery c err s" and "case t of TIdle \<Rightarrow> True | TLoaded _ \<Rightarrow> True | TFirst _ _ \<Rightarrow> True | TReturn r \<Rightarrow> r = Inl err | _ \<Rightarrow> False"
  shows "no_recovery c err (set_task i t s)"
  using assms by (simp add: no_recovery_def set_task_def)

lemma no_recovery_step:
  assumes err: "err = io_from_connection_error message e" and lost: "\<not> is_connection_error err"
    and s: "no_recovery c err s" and st: "dead_step message e ev s = Some s'"
  shows "no_recovery c err s'"
proof -
  obtain i event where ev: "ev = (i, event)" by force
  have "\<exists>t. s' = set_task i t s \<and> (case t of TIdle \<Rightarrow> True | TLoaded _ \<Rightarrow> True | TFirst _ _ \<Rightarrow> True | TReturn r \<Rightarrow> r = Inl err | _ \<Rightarrow> False)"
    using s [unfolded no_recovery_def, THEN conjunct2, rule_format, of i] st lost
    by (cases "tasks s i"; cases event)
      (auto simp: ev err dead_step_def retry_step_def with_retry_def reconnect_def split: if_splits)
  then show ?thesis using no_recovery_set_task [OF s] by blast
qed

lemma no_recovery_run:
  assumes "\<not> is_connection_error (io_from_connection_error message e)"
  shows "no_recovery c (io_from_connection_error message e) s \<Longrightarrow> run_steps (dead_step message e) es s = Some s' \<Longrightarrow>
    no_recovery c (io_from_connection_error message e) s'"
  by (induction es arbitrary: s) (auto intro: no_recovery_step [OF refl assms] split: option.splits)



end
