(* ===== verification/Server_Config.thy ===== *)
theory Server_Config
  imports Client_Config
begin

text \<open>
  The configuration of the server, \<open>crates/ombrac-server/src/config/mod.rs\<close> with its \<open>cli.rs\<close> and \<open>json.rs\<close>. It is built
  like the client's, with a listening address, limits for connections, and accessors that give the defaults once more for
  fields that are not set. The types that the sources of the two crates declare alike are shared here.
\<close>

section \<open>Data\<close>

record server_transport_config =
  st_tls_mode :: "tls_mode option"
  st_ca_cert :: "string option"
  st_tls_cert :: "string option"
  st_tls_key :: "string option"
  st_zero_rtt :: "bool option"
  st_alpn_protocols :: "bytes list option"
  st_congestion :: "congestion option"
  st_cwnd_init :: "u64 option"
  st_idle_timeout :: "u64 option"
  st_keep_alive :: "u64 option"
  st_max_streams :: "u64 option"

definition server_transport_default :: server_transport_config where
  "server_transport_default =
     \<lparr>st_tls_mode = Some Tls, st_ca_cert = None, st_tls_cert = None, st_tls_key = None, st_zero_rtt = Some False,
      st_alpn_protocols = Some [ascii ''h3''], st_congestion = Some Bbr, st_cwnd_init = None, st_idle_timeout = Some 30000,
      st_keep_alive = Some 8000, st_max_streams = Some 1000\<rparr>"

definition get_tls_mode :: "server_transport_config \<Rightarrow> tls_mode" where
  "get_tls_mode t = unwrap_or (st_tls_mode t) Tls"

definition get_zero_rtt :: "server_transport_config \<Rightarrow> bool" where
  "get_zero_rtt t = unwrap_or (st_zero_rtt t) False"

definition get_alpn_protocols :: "server_transport_config \<Rightarrow> bytes list" where
  "get_alpn_protocols t = unwrap_or (st_alpn_protocols t) [ascii ''h3'']"

definition get_congestion :: "server_transport_config \<Rightarrow> congestion" where
  "get_congestion t = unwrap_or (st_congestion t) Bbr"

definition get_idle_timeout :: "server_transport_config \<Rightarrow> u64" where
  "get_idle_timeout t = unwrap_or (st_idle_timeout t) 30000"

definition get_keep_alive :: "server_transport_config \<Rightarrow> u64" where
  "get_keep_alive t = unwrap_or (st_keep_alive t) 8000"

definition get_max_streams :: "server_transport_config \<Rightarrow> u64" where
  "get_max_streams t = unwrap_or (st_max_streams t) 1000"

record connection_config =
  max_connections :: "nat option"
  auth_timeout_secs :: "u64 option"
  max_concurrent_streams :: "nat option"
  max_concurrent_datagrams :: "nat option"

definition connection_default :: connection_config where
  "connection_default =
     \<lparr>max_connections = Some 10000, auth_timeout_secs = Some 10, max_concurrent_streams = Some 4096,
      max_concurrent_datagrams = Some 4096\<rparr>"

definition get_max_connections :: "connection_config \<Rightarrow> nat" where
  "get_max_connections c = unwrap_or (max_connections c) 10000"

definition get_auth_timeout_secs :: "connection_config \<Rightarrow> u64" where
  "get_auth_timeout_secs c = unwrap_or (auth_timeout_secs c) 10"

definition get_max_concurrent_streams :: "connection_config \<Rightarrow> nat" where
  "get_max_concurrent_streams c = unwrap_or (max_concurrent_streams c) 4096"

definition get_max_concurrent_datagrams :: "connection_config \<Rightarrow> nat" where
  "get_max_concurrent_datagrams c = unwrap_or (max_concurrent_datagrams c) 4096"

record server_json_config =
  sj_secret :: "string option"
  sj_listen :: "socket_addr option"
  sj_transport :: "server_transport_config option"
  sj_connection :: "connection_config option"
  sj_logging :: "logging_config option"

record server_cli_config =
  scli_secret :: "string option"
  scli_listen :: "socket_addr option"
  scli_transport :: server_transport_config
  scli_logging :: logging_config

record server_config =
  scfg_secret :: string
  scfg_listen :: socket_addr
  scfg_transport :: server_transport_config
  scfg_connection :: connection_config
  scfg_logging :: logging_config

record server_builder =
  sb_secret :: "string option"
  sb_listen :: "socket_addr option"
  sb_transport :: server_transport_config
  sb_connection :: connection_config
  sb_logging :: logging_config

definition server_builder_new :: server_builder where
  "server_builder_new =
     \<lparr>sb_secret = None, sb_listen = None, sb_transport = server_transport_default, sb_connection = connection_default,
      sb_logging = logging_default\<rparr>"

section \<open>Merging and loading\<close>

definition server_merge_transport :: "server_transport_config \<Rightarrow> server_transport_config \<Rightarrow> server_transport_config" where
  "server_merge_transport base ov =
     \<lparr>st_tls_mode = option_or (st_tls_mode ov) (st_tls_mode base),
      st_ca_cert = option_or (st_ca_cert ov) (st_ca_cert base),
      st_tls_cert = option_or (st_tls_cert ov) (st_tls_cert base),
      st_tls_key = option_or (st_tls_key ov) (st_tls_key base),
      st_zero_rtt = option_or (st_zero_rtt ov) (st_zero_rtt base),
      st_alpn_protocols = option_or (st_alpn_protocols ov) (st_alpn_protocols base),
      st_congestion = option_or (st_congestion ov) (st_congestion base),
      st_cwnd_init = option_or (st_cwnd_init ov) (st_cwnd_init base),
      st_idle_timeout = option_or (st_idle_timeout ov) (st_idle_timeout base),
      st_keep_alive = option_or (st_keep_alive ov) (st_keep_alive base),
      st_max_streams = option_or (st_max_streams ov) (st_max_streams base)\<rparr>"

definition merge_connection :: "connection_config \<Rightarrow> connection_config \<Rightarrow> connection_config" where
  "merge_connection base ov =
     \<lparr>max_connections = option_or (max_connections ov) (max_connections base),
      auth_timeout_secs = option_or (auth_timeout_secs ov) (auth_timeout_secs base),
      max_concurrent_streams = option_or (max_concurrent_streams ov) (max_concurrent_streams base),
      max_concurrent_datagrams = option_or (max_concurrent_datagrams ov) (max_concurrent_datagrams base)\<rparr>"

definition server_merge_json :: "server_json_config \<Rightarrow> server_builder \<Rightarrow> server_builder" where
  "server_merge_json j b =
     b\<lparr>sb_secret := (case sj_secret j of Some x \<Rightarrow> Some x | None \<Rightarrow> sb_secret b),
       sb_listen := (case sj_listen j of Some x \<Rightarrow> Some x | None \<Rightarrow> sb_listen b),
       sb_transport := (case sj_transport j of Some x \<Rightarrow> server_merge_transport (sb_transport b) x | None \<Rightarrow> sb_transport b),
       sb_connection := (case sj_connection j of Some x \<Rightarrow> merge_connection (sb_connection b) x | None \<Rightarrow> sb_connection b),
       sb_logging := (case sj_logging j of Some x \<Rightarrow> merge_logging (sb_logging b) x | None \<Rightarrow> sb_logging b)\<rparr>"

definition server_merge_cli :: "server_cli_config \<Rightarrow> server_builder \<Rightarrow> server_builder" where
  "server_merge_cli c b =
     b\<lparr>sb_secret := (case scli_secret c of Some x \<Rightarrow> Some x | None \<Rightarrow> sb_secret b),
       sb_listen := (case scli_listen c of Some x \<Rightarrow> Some x | None \<Rightarrow> sb_listen b),
       sb_transport := server_merge_transport (sb_transport b) (scli_transport c),
       sb_logging := merge_logging (sb_logging b) (scli_logging c)\<rparr>"

definition server_config_build :: "server_builder \<Rightarrow> string + server_config" where
  "server_config_build b =
     and_then (ok_or (sb_secret b) ''missing required field: secret'') (\<lambda>secret.
     and_then (ok_or (sb_listen b) ''missing required field: listen'') (\<lambda>listen.
       Inr \<lparr>scfg_secret = secret, scfg_listen = listen, scfg_transport = sb_transport b, scfg_connection = sb_connection b,
            scfg_logging = sb_logging b\<rparr>))"

definition server_load ::
    "(string \<Rightarrow> string + server_json_config) \<Rightarrow> string option \<Rightarrow> server_cli_config \<Rightarrow> string + server_config" where
  "server_load from_file config_path cli =
     and_then (case config_path of
                 None \<Rightarrow> Inr server_builder_new
               | Some path \<Rightarrow> and_then (from_file path) (\<lambda>j. Inr (server_merge_json j server_builder_new)))
       (\<lambda>builder. server_config_build (server_merge_cli cli builder))"

definition server_load_from_json :: "(string \<Rightarrow> string + server_json_config) \<Rightarrow> string \<Rightarrow> string + server_config" where
  "server_load_from_json from_json_str json_str =
     and_then (from_json_str json_str) (\<lambda>j. server_config_build (server_merge_json j server_builder_new))"

definition server_load_from_file :: "(string \<Rightarrow> string + server_json_config) \<Rightarrow> string \<Rightarrow> string + server_config" where
  "server_load_from_file from_file config_path =
     and_then (from_file config_path) (\<lambda>j. server_config_build (server_merge_json j server_builder_new))"

interpretation server_transport: overlay server_merge_transport
  by unfold_locales (simp_all add: server_merge_transport_def option_or_simps)

interpretation connection: overlay merge_connection
  by unfold_locales (simp_all add: merge_connection_def option_or_simps)

interpretation max_connections_field: overlay_field merge_connection max_connections
  by unfold_locales (simp add: merge_connection_def)

interpretation server_tls_mode_field: overlay_field server_merge_transport st_tls_mode
  by unfold_locales (simp add: server_merge_transport_def)

text \<open>
  The server's limits come from the file alone, field by field over the defaults, and the accessors add nothing to that;
  the command line decides the rest, and the accessors agree with the loaded fields, so reading a field through its accessor
  never differs from the merged layers. Without a secret or a listening address loading fails.
\<close>

theorem server_load_spec:
  assumes "from_file path = Inr j"
  shows "case option_or (scli_secret cli) (sj_secret j) of
       None \<Rightarrow> server_load from_file (Some path) cli = Inl ''missing required field: secret''
     | Some secret \<Rightarrow>
         (case option_or (scli_listen cli) (sj_listen j) of
            None \<Rightarrow> server_load from_file (Some path) cli = Inl ''missing required field: listen''
          | Some listen \<Rightarrow>
              \<exists>cfg. server_load from_file (Some path) cli = Inr cfg \<and> scfg_secret cfg = secret \<and> scfg_listen cfg = listen \<and>
                scfg_connection cfg = (case sj_connection j of None \<Rightarrow> connection_default | Some c \<Rightarrow> merge_connection connection_default c) \<and>
                Some (get_max_connections (scfg_connection cfg)) = max_connections (scfg_connection cfg) \<and>
                Some (get_tls_mode (scfg_transport cfg)) = st_tls_mode (scfg_transport cfg) \<and>
                get_tls_mode (scfg_transport cfg) =
                  unwrap_or (st_tls_mode (scli_transport cli))
                    (case sj_transport j of None \<Rightarrow> Tls | Some t \<Rightarrow> unwrap_or (st_tls_mode t) Tls))"
proof -
  define b where "b = server_merge_cli cli (server_merge_json j server_builder_new)"
  have r: "server_load from_file (Some path) cli = server_config_build b" using assms by (simp add: server_load_def b_def)
  have sec: "sb_secret b = option_or (scli_secret cli) (sj_secret j)" and srv: "sb_listen b = option_or (scli_listen cli) (sj_listen j)"
    by (simp_all add: b_def server_merge_cli_def server_merge_json_def server_builder_new_def case_option_or)
  have conn: "sb_connection b = (case sj_connection j of None \<Rightarrow> connection_default | Some c \<Rightarrow> merge_connection connection_default c)"
    by (simp add: b_def server_merge_cli_def server_merge_json_def server_builder_new_def split: option.split)
  have max: "Some (get_max_connections (sb_connection b)) = max_connections (sb_connection b)"
    unfolding conn get_max_connections_def
    by (cases "sj_connection j"; cases "max_connections (the (sj_connection j))")
      (simp_all add: max_connections_field.field_merge connection_default_def)
  define jt where "jt = (case sj_transport j of None \<Rightarrow> Some Tls | Some t \<Rightarrow> option_or (st_tls_mode t) (Some Tls))"
  have tls: "st_tls_mode (sb_transport b) = option_or (st_tls_mode (scli_transport cli)) jt"
    by (simp add: b_def jt_def server_merge_cli_def server_merge_json_def server_builder_new_def server_tls_mode_field.field_merge
        server_transport_default_def split: option.split)
  have jt: "jt = Some (case sj_transport j of None \<Rightarrow> Tls | Some t \<Rightarrow> unwrap_or (st_tls_mode t) Tls)"
    by (cases "sj_transport j"; cases "st_tls_mode (the (sj_transport j))") (simp_all add: jt_def)
  have mode: "get_tls_mode (sb_transport b) = unwrap_or (st_tls_mode (scli_transport cli))
      (case sj_transport j of None \<Rightarrow> Tls | Some t \<Rightarrow> unwrap_or (st_tls_mode t) Tls)"
    and set: "Some (get_tls_mode (sb_transport b)) = st_tls_mode (sb_transport b)"
    unfolding get_tls_mode_def tls jt by (cases "st_tls_mode (scli_transport cli)"; simp)+
  show ?thesis
    using sec srv conn max mode set
    by (cases "option_or (scli_secret cli) (sj_secret j)"; cases "option_or (scli_listen cli) (sj_listen j)")
      (simp_all add: r server_config_build_def)
qed

theorem server_load_spec_witness:
  "\<exists>cfg. server_load (\<lambda>_. Inr \<lparr>sj_secret = Some ''s'', sj_listen = Some (SAV4 \<lparr>v4_ip = Ipv4 0 0 0 0, v4_port = 443\<rparr>),
           sj_transport = None, sj_connection = Some (connection_default\<lparr>max_connections := Some 7\<rparr>), sj_logging = None\<rparr>) (Some ''f'')
           \<lparr>scli_secret = None, scli_listen = None, scli_transport = server_transport_default\<lparr>st_tls_mode := Some MTls\<rparr>, scli_logging = logging_default\<rparr> = Inr cfg \<and>
         get_max_connections (scfg_connection cfg) = 7 \<and> get_tls_mode (scfg_transport cfg) = MTls"
proof -
  let ?l = "SAV4 \<lparr>v4_ip = Ipv4 0 0 0 0, v4_port = 443\<rparr>" and ?c = "connection_default\<lparr>max_connections := Some 7\<rparr>"
  let ?j = "\<lparr>sj_secret = Some ''s'', sj_listen = Some ?l, sj_transport = None, sj_connection = Some ?c, sj_logging = None\<rparr>"
  let ?cli = "\<lparr>scli_secret = None, scli_listen = None, scli_transport = server_transport_default\<lparr>st_tls_mode := Some MTls\<rparr>, scli_logging = logging_default\<rparr>"
  have f: "(\<lambda>_ :: string. Inr ?j :: string + server_json_config) ''f'' = Inr ?j" by simp
  note l = server_load_spec [where from_file = "\<lambda>_. Inr ?j" and path = "''f''" and cli = ?cli, OF f]
  have sec: "option_or (scli_secret ?cli) (sj_secret ?j) = Some ''s''" and srv: "option_or (scli_listen ?cli) (sj_listen ?j) = Some ?l"
    by simp_all
  have "max_connections (merge_connection connection_default ?c) = Some 7" by (simp add: merge_connection_def)
  with l [unfolded sec srv option.case] show ?thesis
    by (auto simp: get_max_connections_def)
qed

end
