(* ===== verification/Fake_Dns.thy ===== *)
theory Fake_Dns
  imports Ombrac_Prelude Machine
begin

text \<open>
  The fake DNS of the TUN endpoint: the module \<open>fakedns\<close> of \<open>crates/ombrac-client/src/endpoint/tun.rs\<close>. A query
  for a name is answered with an address of a private pool, and the two caches map names to
  addresses and back. The caches are \<open>moka\<close> caches: they may drop an entry at any time, and dropping
  one from \<open>ip_to_domain\<close> runs an asynchronous listener, which here is a pending entry of
  \<open>fd_listeners\<close> until it runs. Queries are handled one at a time by the UDP loop of the endpoint. The DNS
  message codec (\<open>hickory\<close>) and the network arithmetic of \<open>ipnet\<close> are arguments.
\<close>

section \<open>State\<close>

text \<open>What the code asks of the \<open>Ipv4Net\<close>: its network address, the number of its hosts, \<open>contains\<close>.\<close>

record ipv4_net =
  net_network :: u32
  net_hosts :: nat
  net_contains :: "ipv4_addr \<Rightarrow> bool"

record 'n fake_dns =
  ip_net :: ipv4_net
  domain_to_ip :: "'n \<Rightarrow> ipv4_addr option"
  ip_to_domain :: "ipv4_addr \<Rightarrow> 'n option"
  recycled_ips :: "ipv4_addr list"
  cursor :: u32
  max_hosts :: u32
  fd_listeners :: "(ipv4_addr \<times> 'n) list"

definition fake_dns_new :: "ipv4_net \<Rightarrow> 'n fake_dns" where
  "fake_dns_new net =
     \<lparr>ip_net = net, domain_to_ip = Map.empty, ip_to_domain = Map.empty, recycled_ips = [], cursor = 2,
      max_hosts = word_of_nat (net_hosts net), fd_listeners = []\<rparr>"

text \<open>\<open>allocate_unique_ip\<close>: the recycled addresses first, then the next of the pool.\<close>

definition pool_ip :: "ipv4_net \<Rightarrow> u32 \<Rightarrow> ipv4_addr" where
  "pool_ip net current = v4_from_u32 (net_network net + 1 + current)"

definition allocate_unique_ip :: "'n fake_dns \<Rightarrow> (ipv4_addr \<times> 'n fake_dns) option" where
  "allocate_unique_ip s =
     (case recycled_ips s of
        ip # rest \<Rightarrow> Some (ip, s\<lparr>recycled_ips := rest\<rparr>)
      | [] \<Rightarrow>
          (let current = cursor s
           in if max_hosts s \<le> current then None
              else Some (pool_ip (ip_net s) current, s\<lparr>cursor := current + 1\<rparr>)))"

section \<open>Queries\<close>

datatype response_code = NoError | Refused

record 'n dns_message =
  dm_queries :: "('n \<times> nat) list"
  dm_response :: bool
  dm_code :: "response_code option"
  dm_answers :: "('n \<times> nat \<times> ipv4_addr) list"

definition DNS_RESPONSE_TTL :: nat where "DNS_RESPONSE_TTL = 5"

definition record_type_a :: nat where "record_type_a = 1"

definition refused_response :: "'n dns_message \<Rightarrow> 'n dns_message" where
  "refused_response query = query\<lparr>dm_response := True, dm_code := Some Refused\<rparr>"

definition answer_response :: "'n dns_message \<Rightarrow> 'n \<Rightarrow> ipv4_addr \<Rightarrow> 'n dns_message" where
  "answer_response query domain_name fake_ip =
     query\<lparr>dm_response := True, dm_code := Some NoError,
           dm_answers := dm_answers query @ [(domain_name, DNS_RESPONSE_TTL, fake_ip)]\<rparr>"

lemma answer_response_inj: "answer_response q d a = answer_response q d b \<longleftrightarrow> a = b"
  by (auto simp: answer_response_def dest: arg_cong [where f = dm_answers])

definition fake_ip_for :: "'n \<Rightarrow> 'n fake_dns \<Rightarrow> (ipv4_addr \<times> 'n fake_dns) option" where
  "fake_ip_for domain_name s =
     (case domain_to_ip s domain_name of
        Some ip \<Rightarrow> Some (ip, s)
      | None \<Rightarrow>
          (case allocate_unique_ip s of
             None \<Rightarrow> None
           | Some (new_ip, s1) \<Rightarrow>
               Some (new_ip, s1\<lparr>ip_to_domain := (ip_to_domain s1)(new_ip \<mapsto> domain_name),
                                domain_to_ip := (domain_to_ip s1)(domain_name \<mapsto> new_ip)\<rparr>)))"

definition handle_dns_query ::
    "(bytes \<Rightarrow> 'n dns_message option) \<Rightarrow> bytes \<Rightarrow> 'n fake_dns \<Rightarrow> 'n dns_message option \<times> 'n fake_dns" where
  "handle_dns_query parse query_bytes s =
     (case parse query_bytes of
        None \<Rightarrow> (None, s)
      | Some query \<Rightarrow>
          (case dm_queries query of
             [] \<Rightarrow> (None, s)
           | (domain_name, query_type) # _ \<Rightarrow>
               if query_type \<noteq> record_type_a then (Some (refused_response query), s)
               else (case fake_ip_for domain_name s of
                       None \<Rightarrow> (None, s)
                     | Some (fake_ip, s1) \<Rightarrow> (Some (answer_response query domain_name fake_ip), s1))))"

definition get_domain_by_ip :: "ip_addr \<Rightarrow> 'n fake_dns \<Rightarrow> 'n option" where
  "get_domain_by_ip ip s = (case ip of IpV4 v4 \<Rightarrow> ip_to_domain s v4 | IpV6 _ \<Rightarrow> None)"

section \<open>The caches at work\<close>

text \<open>
  The cache drops a name; the cache drops an address, which queues its listener; a queued listener
  runs: it invalidates the name and then recycles the address.
\<close>

definition evict_ip :: "ipv4_addr \<Rightarrow> 'n fake_dns \<Rightarrow> 'n fake_dns option" where
  "evict_ip ip s =
     (case ip_to_domain s ip of
        None \<Rightarrow> None
      | Some d \<Rightarrow> Some (s\<lparr>ip_to_domain := (ip_to_domain s)(ip := None), fd_listeners := fd_listeners s @ [(ip, d)]\<rparr>))"

definition run_listener :: "nat \<Rightarrow> 'n fake_dns \<Rightarrow> 'n fake_dns option" where
  "run_listener i s =
     (if i < length (fd_listeners s) then
        (let (k, v) = fd_listeners s ! i
         in Some (s\<lparr>domain_to_ip := (domain_to_ip s)(v := None), recycled_ips := recycled_ips s @ [k],
                    fd_listeners := take i (fd_listeners s) @ drop (Suc i) (fd_listeners s)\<rparr>))
      else None)"

datatype 'n fake_dns_event =
    Query bytes
  | EvictDomain 'n
  | EvictIp ipv4_addr
  | RunListener nat

definition fake_dns_step ::
    "(bytes \<Rightarrow> 'n dns_message option) \<Rightarrow> 'n fake_dns_event \<Rightarrow> 'n fake_dns \<Rightarrow> 'n fake_dns option" where
  "fake_dns_step parse e s =
     (case e of
        Query b \<Rightarrow> Some (snd (handle_dns_query parse b s))
      | EvictDomain d \<Rightarrow> Some (s\<lparr>domain_to_ip := (domain_to_ip s)(d := None)\<rparr>)
      | EvictIp ip \<Rightarrow> evict_ip ip s
      | RunListener i \<Rightarrow> run_listener i s)"

section \<open>Invariant\<close>

text \<open>
  An address that was taken from the pool is in one place: mapped to a name, in a queued listener, or
  recycled. A name is only mapped to an address that is mapped back to it or whose listener is still queued.
\<close>

definition from_pool :: "'n fake_dns \<Rightarrow> ipv4_addr \<Rightarrow> bool" where
  "from_pool s ip \<longleftrightarrow> (\<exists>i. 2 \<le> i \<and> i < unat (cursor s) \<and> ip = pool_ip (ip_net s) (word_of_nat i))"

definition fake_dns_inv :: "ipv4_net \<Rightarrow> 'n fake_dns \<Rightarrow> bool" where
  "fake_dns_inv net s \<longleftrightarrow>
     ip_net s = net \<and> max_hosts s = word_of_nat (net_hosts net) \<and>
     2 \<le> unat (cursor s) \<and> unat (cursor s) \<le> max 2 (net_hosts net) \<and>
     distinct (recycled_ips s @ map fst (fd_listeners s)) \<and>
     (\<forall>ip \<in> set (recycled_ips s @ map fst (fd_listeners s)). from_pool s ip \<and> ip_to_domain s ip = None) \<and>
     (\<forall>ip d. ip_to_domain s ip = Some d \<longrightarrow> from_pool s ip) \<and>
     (\<forall>d ip. domain_to_ip s d = Some ip \<longrightarrow> ip_to_domain s ip = Some d \<or> (ip, d) \<in> set (fd_listeners s))"

definition net_ok :: "ipv4_net \<Rightarrow> bool" where
  "net_ok net \<longleftrightarrow> unat (net_network net) + net_hosts net < 2 ^ 32"

lemma unat_word_of_nat_u32: "i < 2 ^ 32 \<Longrightarrow> unat (word_of_nat i :: u32) = i"
  by (simp add: unat_of_nat take_bit_nat_eq_self)

lemma unat_add_u32: "unat a + unat b < 2 ^ 32 \<Longrightarrow> unat (a + b :: u32) = unat a + unat b"
  by (simp add: unat_word_ariths)

lemma unat_pool_u32:
  assumes "net_ok net" and "i < net_hosts net"
  shows "unat (net_network net + 1 + word_of_nat i :: u32) = unat (net_network net) + 1 + i"
proof -
  have lt: "unat (net_network net) + 1 + i < 2 ^ 32" using assms unfolding net_ok_def by linarith
  then have i: "unat (word_of_nat i :: u32) = i" by (intro unat_word_of_nat_u32) linarith
  have 1: "unat (net_network net + 1 :: u32) = unat (net_network net) + 1"
    using unat_add_u32 [of "net_network net" 1] lt by fastforce
  show ?thesis using unat_add_u32 [of "net_network net + 1" "word_of_nat i"] lt i 1 by presburger
qed

lemma pool_ip_inj:
  assumes "net_ok net" and "i < net_hosts net" and "j < net_hosts net"
  shows "pool_ip net (word_of_nat i) = pool_ip net (word_of_nat j) \<longleftrightarrow> i = j"
  unfolding pool_ip_def v4_from_u32_inj
  using unat_pool_u32 [OF assms(1,2)] unat_pool_u32 [OF assms(1,3)] by (metis add_left_cancel)

lemma fake_dns_invI:
  assumes "ip_net s = net" and "max_hosts s = word_of_nat (net_hosts net)"
    and "2 \<le> unat (cursor s)" and "unat (cursor s) \<le> max 2 (net_hosts net)"
    and "distinct (recycled_ips s @ map fst (fd_listeners s))"
    and "\<And>ip. ip \<in> set (recycled_ips s @ map fst (fd_listeners s)) \<Longrightarrow> from_pool s ip \<and> ip_to_domain s ip = None"
    and "\<And>ip d. ip_to_domain s ip = Some d \<Longrightarrow> from_pool s ip"
    and "\<And>d ip. domain_to_ip s d = Some ip \<Longrightarrow> ip_to_domain s ip = Some d \<or> (ip, d) \<in> set (fd_listeners s)"
  shows "fake_dns_inv net s"
  using assms by (auto simp: fake_dns_inv_def)

lemma fake_dns_invD:
  assumes "fake_dns_inv net s"
  shows "ip_net s = net" and "max_hosts s = word_of_nat (net_hosts net)"
    and "2 \<le> unat (cursor s)" and "unat (cursor s) \<le> max 2 (net_hosts net)"
    and "distinct (recycled_ips s @ map fst (fd_listeners s))"
    and "ip \<in> set (recycled_ips s @ map fst (fd_listeners s)) \<Longrightarrow> from_pool s ip \<and> ip_to_domain s ip = None"
    and "ip_to_domain s ip = Some d \<Longrightarrow> from_pool s ip"
    and "domain_to_ip s d = Some ip \<Longrightarrow> ip_to_domain s ip = Some d \<or> (ip, d) \<in> set (fd_listeners s)"
  using assms by (auto simp: fake_dns_inv_def)

lemma from_pool_cong: "cursor s' = cursor s \<Longrightarrow> ip_net s' = ip_net s \<Longrightarrow> from_pool s' ip = from_pool s ip"
  by (simp add: from_pool_def)

text \<open>A fresh address comes from the pool and is nowhere in use.\<close>

lemma allocate_fresh:
  assumes ok: "net_ok net" and inv: "fake_dns_inv net s" and al: "allocate_unique_ip s = Some (ip, s1)"
  shows "from_pool s1 ip" and "ip_to_domain s ip = None" and "ip \<notin> set (recycled_ips s1 @ map fst (fd_listeners s1))"
    and "fake_dns_inv net s1" and "ip_to_domain s1 = ip_to_domain s" and "domain_to_ip s1 = domain_to_ip s"
    and "fd_listeners s1 = fd_listeners s"
proof -
  note d = fake_dns_invD [OF inv]
  have all: "from_pool s1 ip \<and> ip_to_domain s ip = None \<and> ip \<notin> set (recycled_ips s1 @ map fst (fd_listeners s1)) \<and>
      fake_dns_inv net s1 \<and> ip_to_domain s1 = ip_to_domain s \<and> domain_to_ip s1 = domain_to_ip s \<and>
      fd_listeners s1 = fd_listeners s"
  proof (cases "recycled_ips s")
    case (Cons r rest)
    with al have ip: "ip = r" and s1: "s1 = s\<lparr>recycled_ips := rest\<rparr>" by (auto simp: allocate_unique_ip_def)
    have fp: "from_pool s1 = from_pool s" by (rule ext, rule from_pool_cong) (simp_all add: s1)
    have "fake_dns_inv net s1"
      by (rule fake_dns_invI, unfold fp) (use d Cons in \<open>auto simp: s1\<close>)
    with d(5) d(6) [of r] Cons ip fp show ?thesis by (simp add: s1)
  next
    case Nil
    with al have lt: "\<not> max_hosts s \<le> cursor s" and ip: "ip = pool_ip net (cursor s)" and
      s1: "s1 = s\<lparr>cursor := cursor s + 1\<rparr>"
      using d(1) by (auto simp: allocate_unique_ip_def Let_def split: if_splits)
    have hosts: "unat (max_hosts s) = net_hosts net"
      using d(2) ok unat_word_of_nat_u32 [of "net_hosts net"] unfolding net_ok_def by simp
    with lt have c: "unat (cursor s) < net_hosts net" by (simp add: word_le_nat_alt)
    then have "unat (cursor s) + 1 < 2 ^ 32" using ok unfolding net_ok_def by linarith
    then have c1: "unat (cursor s1) = Suc (unat (cursor s))"
      using unat_add_u32 [of "cursor s" 1] by (simp add: s1)
    have fp: "from_pool s1 x \<longleftrightarrow> from_pool s x \<or> x = ip" for x
      using d(1,3) c1 ip by (auto simp: from_pool_def s1 less_Suc_eq)
    have "\<not> from_pool s ip"
    proof
      assume "from_pool s ip"
      then obtain i where i: "i < unat (cursor s)" "ip = pool_ip net (word_of_nat i)" using d(1) by (auto simp: from_pool_def)
      with ip pool_ip_inj [OF ok, of i "unat (cursor s)"] c show False by simp
    qed
    then have fresh: "ip_to_domain s ip = None" "ip \<notin> set (recycled_ips s @ map fst (fd_listeners s))"
      using d(6,7) by (metis option.exhaust)+
    have "fake_dns_inv net s1"
      by (rule fake_dns_invI, unfold fp c1) (use d c in \<open>auto simp: s1\<close>)
    with fresh fp show ?thesis by (simp add: s1)
  qed
  then show "from_pool s1 ip" and "ip_to_domain s ip = None" and "ip \<notin> set (recycled_ips s1 @ map fst (fd_listeners s1))"
    and "fake_dns_inv net s1" and "ip_to_domain s1 = ip_to_domain s" and "domain_to_ip s1 = domain_to_ip s"
    and "fd_listeners s1 = fd_listeners s" by blast+
qed

lemma fake_ip_for_inv:
  assumes ok: "net_ok net" and inv: "fake_dns_inv net s" and f: "fake_ip_for d s = Some (ip, s')"
  shows "fake_dns_inv net s' \<and> domain_to_ip s' d = Some ip"
proof (cases "domain_to_ip s d")
  case (Some ip0)
  with f inv show ?thesis by (simp add: fake_ip_for_def)
next
  case None
  with f obtain s1 where al: "allocate_unique_ip s = Some (ip, s1)" and
    s': "s' = s1\<lparr>ip_to_domain := (ip_to_domain s1)(ip \<mapsto> d), domain_to_ip := (domain_to_ip s1)(d \<mapsto> ip)\<rparr>"
    by (auto simp: fake_ip_for_def split: option.splits)
  note a = allocate_fresh [OF ok inv al]
  note i = fake_dns_invD [OF a(4)]
  have fp: "from_pool s' = from_pool s1" by (rule ext, rule from_pool_cong) (simp_all add: s')
  have bck: "ip_to_domain s' x = Some e \<or> (x, e) \<in> set (fd_listeners s')" if "domain_to_ip s' e = Some x" for e x
  proof (cases "e = d")
    case True
    with that show ?thesis by (simp add: s')
  next
    case False
    with that i(8) have "ip_to_domain s1 x = Some e \<or> (x, e) \<in> set (fd_listeners s1)" by (simp add: s')
    moreover have "ip_to_domain s1 ip = None" using a(2,5) by simp
    ultimately show ?thesis by (auto simp: s')
  qed
  have "fake_dns_inv net s'"
    by (rule fake_dns_invI, unfold fp) (use i a(1,3) bck in \<open>auto simp: s' split: if_splits\<close>)
  then show ?thesis by (simp add: s')
qed

lemma set_remove_nth:
  "i < length xs \<Longrightarrow> set xs = insert (xs ! i) (set (take i xs @ drop (Suc i) xs))"
  by (metis id_take_nth_drop list.simps(15) set_append Un_insert_right append.simps)

lemma mset_remove_nth:
  "i < length xs \<Longrightarrow> mset xs = add_mset (xs ! i) (mset (take i xs @ drop (Suc i) xs))"
  by (subst (1) id_take_nth_drop [of i xs]) simp_all

lemma evict_domain_inv: "fake_dns_inv net s \<Longrightarrow> fake_dns_inv net (s\<lparr>domain_to_ip := (domain_to_ip s)(d := None)\<rparr>)"
  by (auto simp: fake_dns_inv_def from_pool_def split: if_splits)

lemma evict_ip_inv:
  assumes inv: "fake_dns_inv net s" and e: "evict_ip ip s = Some s'"
  shows "fake_dns_inv net s'"
proof -
  note i = fake_dns_invD [OF inv]
  obtain d where d: "ip_to_domain s ip = Some d" and
    s': "s' = s\<lparr>ip_to_domain := (ip_to_domain s)(ip := None), fd_listeners := fd_listeners s @ [(ip, d)]\<rparr>"
    using e by (auto simp: evict_ip_def split: option.splits)
  have fp: "from_pool s' = from_pool s" by (rule ext, rule from_pool_cong) (simp_all add: s')
  have new: "ip \<notin> set (recycled_ips s @ map fst (fd_listeners s))" using i(6) [of ip] d by auto
  show ?thesis
  proof (rule fake_dns_invI, unfold fp)
    fix x assume "x \<in> set (recycled_ips s' @ map fst (fd_listeners s'))"
    then have "x = ip \<or> x \<in> set (recycled_ips s @ map fst (fd_listeners s))" by (auto simp: s')
    then show "from_pool s x \<and> ip_to_domain s' x = None" using i(6) [of x] i(7) [OF d] by (auto simp: s')
  next
    fix x e assume "ip_to_domain s' x = Some e"
    then show "from_pool s x" using i(7) [of x e] by (auto simp: s' split: if_splits)
  next
    fix e x assume "domain_to_ip s' e = Some x"
    then show "ip_to_domain s' x = Some e \<or> (x, e) \<in> set (fd_listeners s')"
      using i(8) [of e x] d by (auto simp: s')
  qed (use i(1-5) new in \<open>auto simp: s'\<close>)
qed

lemma run_listener_inv:
  assumes inv: "fake_dns_inv net s" and e: "run_listener n s = Some s'"
  shows "fake_dns_inv net s'"
proof -
  note i = fake_dns_invD [OF inv]
  obtain k v where n: "n < length (fd_listeners s)" and kv: "fd_listeners s ! n = (k, v)"
    using e by (cases "fd_listeners s ! n") (auto simp: run_listener_def split: if_splits)
  define ls where "ls = take n (fd_listeners s) @ drop (Suc n) (fd_listeners s)"
  have s': "s' = s\<lparr>domain_to_ip := (domain_to_ip s)(v := None), recycled_ips := recycled_ips s @ [k], fd_listeners := ls\<rparr>"
    using e n kv by (simp add: run_listener_def ls_def)
  have ms: "mset (fd_listeners s) = add_mset (k, v) (mset ls)"
    using mset_remove_nth [OF n] kv by (simp add: ls_def)
  then have sets: "set (fd_listeners s) = insert (k, v) (set ls)" by (metis set_mset_add_mset_insert set_mset_mset)
  have fp: "from_pool s' = from_pool s" by (rule ext, rule from_pool_cong) (simp_all add: s')
  have m: "mset (recycled_ips s' @ map fst (fd_listeners s')) = mset (recycled_ips s @ map fst (fd_listeners s))"
    using arg_cong [OF ms, of "image_mset fst"] by (simp add: s')
  then have sm: "set (recycled_ips s' @ map fst (fd_listeners s')) = set (recycled_ips s @ map fst (fd_listeners s))"
    by (metis set_mset_mset)
  show ?thesis
  proof (rule fake_dns_invI, unfold fp sm)
    show "distinct (recycled_ips s' @ map fst (fd_listeners s'))" using i(5) m by (metis mset_eq_imp_distinct_iff)
  next
    fix e x assume "domain_to_ip s' e = Some x"
    then have "domain_to_ip s e = Some x" "e \<noteq> v" by (auto simp: s' split: if_splits)
    with i(8) [of e x] show "ip_to_domain s' x = Some e \<or> (x, e) \<in> set (fd_listeners s')" by (auto simp: s' sets)
  qed (use i in \<open>auto simp: s'\<close>)
qed

lemma handle_dns_query_inv:
  assumes "net_ok net" and "fake_dns_inv net s"
  shows "fake_dns_inv net (snd (handle_dns_query parse b s))"
  using assms fake_ip_for_inv [OF assms]
  by (auto simp: handle_dns_query_def split: option.splits list.splits)

definition fake_dns_ok :: "ipv4_net \<Rightarrow> 'n fake_dns \<Rightarrow> bool" where
  "fake_dns_ok net s \<longleftrightarrow> net_ok net \<and> fake_dns_inv net s"

lemma fake_dns_step_ok:
  assumes "fake_dns_ok net s" and "fake_dns_step parse e s = Some s'"
  shows "fake_dns_ok net s'"
proof -
  have ok: "net_ok net" and inv: "fake_dns_inv net s" using assms(1) by (simp_all add: fake_dns_ok_def)
  have "fake_dns_inv net s'"
  proof (cases e)
    case (Query b)
    with assms(2) have "s' = snd (handle_dns_query parse b s)" by (simp add: fake_dns_step_def)
    then show ?thesis by (simp add: handle_dns_query_inv [OF ok inv])
  next
    case (EvictDomain d)
    with assms(2) have "s' = s\<lparr>domain_to_ip := (domain_to_ip s)(d := None)\<rparr>" by (simp add: fake_dns_step_def)
    then show ?thesis by (simp only: evict_domain_inv [OF inv])
  next
    case (EvictIp ip)
    with assms(2) show ?thesis by (intro evict_ip_inv [OF inv]) (simp add: fake_dns_step_def)
  next
    case (RunListener n)
    with assms(2) show ?thesis by (intro run_listener_inv [OF inv]) (simp add: fake_dns_step_def)
  qed
  with ok show ?thesis by (simp add: fake_dns_ok_def)
qed

interpretation fake_dns_machine: invariant_machine "fake_dns_step parse" "fake_dns_ok net" for parse net
  by unfold_locales (rule fake_dns_step_ok)

lemma fake_dns_new_ok: "net_ok net \<Longrightarrow> fake_dns_ok net (fake_dns_new net)"
  by (auto simp: fake_dns_ok_def fake_dns_inv_def fake_dns_new_def)

section \<open>No address is lost\<close>

definition accounted :: "'n fake_dns \<Rightarrow> bool" where
  "accounted s \<longleftrightarrow>
     (\<forall>ip. from_pool s ip \<longrightarrow> ip_to_domain s ip \<noteq> None \<or> ip \<in> set (recycled_ips s @ map fst (fd_listeners s)))"

lemma allocate_accounted:
  assumes "fake_dns_ok net s" and "accounted s" and "allocate_unique_ip s = Some (ip, s1)" and "from_pool s1 x" and "x \<noteq> ip"
  shows "ip_to_domain s1 x \<noteq> None \<or> x \<in> set (recycled_ips s1 @ map fst (fd_listeners s1))"
proof (cases "recycled_ips s")
  case (Cons r rest)
  with assms(3) have s1: "ip = r" "s1 = s\<lparr>recycled_ips := rest\<rparr>" by (auto simp: allocate_unique_ip_def)
  with assms(2,4,5) Cons show ?thesis by (auto simp: accounted_def from_pool_def)
next
  case Nil
  with assms(3) have ip: "ip = pool_ip (ip_net s) (cursor s)" and s1: "s1 = s\<lparr>cursor := cursor s + 1\<rparr>"
    by (auto simp: allocate_unique_ip_def Let_def split: if_splits)
  from assms(4) obtain i where i: "2 \<le> i" "i < unat (cursor s + 1)" "x = pool_ip (ip_net s) (word_of_nat i)"
    by (auto simp: from_pool_def s1)
  have "i \<noteq> unat (cursor s)" using assms(5) i(3) ip by auto
  moreover have "unat (cursor s + 1) \<le> Suc (unat (cursor s))" using unat_word_ariths(1) [of "cursor s" 1] by simp
  ultimately have "from_pool s x" using i by (auto simp: from_pool_def)
  with assms(2) show ?thesis by (auto simp: accounted_def s1)
qed

lemma fake_ip_for_accounted:
  assumes "fake_dns_ok net s" and "accounted s" and f: "fake_ip_for d s = Some (ip, s')"
  shows "accounted s'"
proof (cases "domain_to_ip s d")
  case (Some ip0)
  with f assms show ?thesis by (simp add: fake_ip_for_def)
next
  case None
  with f obtain s1 where al: "allocate_unique_ip s = Some (ip, s1)" and
    s': "s' = s1\<lparr>ip_to_domain := (ip_to_domain s1)(ip \<mapsto> d), domain_to_ip := (domain_to_ip s1)(d \<mapsto> ip)\<rparr>"
    by (auto simp: fake_ip_for_def split: option.splits)
  have fp: "from_pool s' = from_pool s1" by (rule ext, rule from_pool_cong) (simp_all add: s')
  show ?thesis unfolding accounted_def fp using allocate_accounted [OF assms(1,2) al] by (auto simp: s')
qed

lemma run_listener_accounted:
  assumes "accounted s" and e: "run_listener n s = Some s'"
  shows "accounted s'"
proof -
  obtain k v where n: "n < length (fd_listeners s)" and kv: "fd_listeners s ! n = (k, v)"
    using e by (cases "fd_listeners s ! n") (auto simp: run_listener_def split: if_splits)
  then have "set (fd_listeners s) = insert (k, v) (set (take n (fd_listeners s) @ drop (Suc n) (fd_listeners s)))"
    using set_remove_nth [OF n] by simp
  then have "ip \<in> fst ` set (fd_listeners s) \<longleftrightarrow>
      ip = k \<or> ip \<in> fst ` set (take n (fd_listeners s) @ drop (Suc n) (fd_listeners s))" for ip by simp
  note listeners = this
  have s': "s' = s\<lparr>domain_to_ip := (domain_to_ip s)(v := None), recycled_ips := recycled_ips s @ [k],
      fd_listeners := take n (fd_listeners s) @ drop (Suc n) (fd_listeners s)\<rparr>"
    using e n kv by (simp add: run_listener_def)
  have fp: "from_pool s' = from_pool s" by (rule ext, rule from_pool_cong) (simp_all add: s')
  have "set (recycled_ips s' @ map fst (fd_listeners s')) = set (recycled_ips s @ map fst (fd_listeners s))"
    using listeners by (auto simp: s')
  then show ?thesis using assms(1) unfolding accounted_def fp by (simp add: s')
qed

lemma evict_ip_accounted:
  assumes "accounted s" and e: "evict_ip ip s = Some s'"
  shows "accounted s'"
proof -
  obtain d where "ip_to_domain s ip = Some d" and
    s': "s' = s\<lparr>ip_to_domain := (ip_to_domain s)(ip := None), fd_listeners := fd_listeners s @ [(ip, d)]\<rparr>"
    using e by (auto simp: evict_ip_def split: option.splits)
  have fp: "from_pool s' = from_pool s" by (rule ext, rule from_pool_cong) (simp_all add: s')
  show ?thesis using assms(1) unfolding accounted_def fp by (auto simp: s')
qed

lemma fake_dns_step_accounted:
  assumes "fake_dns_ok net s \<and> accounted s" and "fake_dns_step parse e s = Some s'"
  shows "fake_dns_ok net s' \<and> accounted s'"
proof
  show "fake_dns_ok net s'" using assms fake_dns_step_ok by blast
  show "accounted s'"
  proof (cases e)
    case (Query b)
    with assms fake_ip_for_accounted [of net s] show ?thesis
      by (auto simp: fake_dns_step_def handle_dns_query_def split: option.splits list.splits)
  next
    case (EvictDomain d)
    with assms(2) have s': "s' = s\<lparr>domain_to_ip := (domain_to_ip s)(d := None)\<rparr>" by (simp add: fake_dns_step_def)
    have fp: "from_pool s' = from_pool s" by (rule ext, rule from_pool_cong) (simp_all add: s')
    show ?thesis using assms(1) unfolding accounted_def fp by (simp add: s')
  next
    case (EvictIp ip)
    with assms evict_ip_accounted show ?thesis by (auto simp: fake_dns_step_def)
  next
    case (RunListener n)
    with assms run_listener_accounted show ?thesis by (auto simp: fake_dns_step_def)
  qed
qed

interpretation fake_dns_accounts: invariant_machine "fake_dns_step parse" "\<lambda>s. fake_dns_ok net s \<and> accounted s" for parse net
  by unfold_locales (rule fake_dns_step_accounted)

lemma fake_dns_new_accounted: "accounted (fake_dns_new net)"
  by (auto simp: accounted_def from_pool_def fake_dns_new_def)

section \<open>Mappings are stable\<close>

text \<open>While the cache keeps an address, the address keeps its name.\<close>

definition maps_to :: "ipv4_net \<Rightarrow> ipv4_addr \<Rightarrow> 'n \<Rightarrow> 'n fake_dns \<Rightarrow> bool" where
  "maps_to net ip d s \<longleftrightarrow> fake_dns_ok net s \<and> ip_to_domain s ip = Some d"

lemma fake_ip_for_maps:
  assumes "maps_to net ip d s" and "fake_ip_for e s = Some (r, s')"
  shows "ip_to_domain s' ip = Some d"
proof (cases "domain_to_ip s e")
  case (Some ip0)
  with assms show ?thesis by (simp add: fake_ip_for_def maps_to_def)
next
  case None
  with assms(2) obtain s1 where al: "allocate_unique_ip s = Some (r, s1)" and
    s': "s' = s1\<lparr>ip_to_domain := (ip_to_domain s1)(r \<mapsto> e), domain_to_ip := (domain_to_ip s1)(e \<mapsto> r)\<rparr>"
    by (auto simp: fake_ip_for_def split: option.splits)
  have ok: "net_ok net" "fake_dns_inv net s" using assms(1) by (auto simp: maps_to_def fake_dns_ok_def)
  have "ip \<noteq> r" using allocate_fresh(2) [OF ok al] assms(1) by (auto simp: maps_to_def)
  then show ?thesis using allocate_fresh(5) [OF ok al] assms(1) by (simp add: s' maps_to_def)
qed

lemma fake_dns_step_maps:
  assumes m: "maps_to net ip d s" and "fake_dns_step parse e s = Some s'" and "e \<noteq> EvictIp ip"
  shows "maps_to net ip d s'"
proof -
  have "fake_dns_ok net s'" using assms fake_dns_step_ok by (auto simp: maps_to_def)
  moreover have "ip_to_domain s' ip = Some d"
    using assms fake_ip_for_maps [OF m]
    by (cases e)
      (auto simp: maps_to_def fake_dns_step_def handle_dns_query_def evict_ip_def run_listener_def Let_def split_beta
        split: option.splits list.splits if_splits)
  ultimately show ?thesis by (simp add: maps_to_def)
qed

lemma run_maps:
  "maps_to net ip d s \<Longrightarrow> run_steps (fake_dns_step parse) es s = Some t \<Longrightarrow> EvictIp ip \<notin> set es \<Longrightarrow> maps_to net ip d t"
proof (induction es arbitrary: s)
  case (Cons e es)
  then obtain s1 where "fake_dns_step parse e s = Some s1" "run_steps (fake_dns_step parse) es s1 = Some t"
    by (auto split: option.splits)
  with Cons fake_dns_step_maps show ?case by (metis list.set_intros(1) list.set_intros(2))
qed simp

section \<open>Properties\<close>

text \<open>
  C20. In every run of the fake DNS, a name is mapped to an address only if the address is mapped back to that name or
  is being recycled; so, with no recycling under way, two names never share an address. Every mapped address
  lies inside the pool: above the network address and the first two hosts, and not above the last host.
\<close>

theorem fake_dns_sound:
  assumes "net_ok net" and "run_steps (fake_dns_step parse) es (fake_dns_new net) = Some s"
  shows "(\<forall>d ip. domain_to_ip s d = Some ip \<longrightarrow> get_domain_by_ip (IpV4 ip) s = Some d \<or> (ip, d) \<in> set (fd_listeners s)) \<and>
    (\<forall>d e ip. fd_listeners s = [] \<and> domain_to_ip s d = Some ip \<and> domain_to_ip s e = Some ip \<longrightarrow> d = e) \<and>
    (\<forall>ip d. get_domain_by_ip (IpV4 ip) s = Some d \<longrightarrow>
           (\<exists>h. 3 \<le> h \<and> h \<le> net_hosts net \<and> unat (u32_from_v4 ip) = unat (net_network net) + h))"
proof (intro conjI)
  have inv: "fake_dns_inv net s"
    using fake_dns_machine.run_inv [OF fake_dns_new_ok] assms by (auto simp: fake_dns_ok_def)
  note i = fake_dns_invD [OF inv]
  show one: "\<forall>d ip. domain_to_ip s d = Some ip \<longrightarrow> get_domain_by_ip (IpV4 ip) s = Some d \<or> (ip, d) \<in> set (fd_listeners s)"
    using i(8) by (auto simp: get_domain_by_ip_def)
  then show "\<forall>d e ip. fd_listeners s = [] \<and> domain_to_ip s d = Some ip \<and> domain_to_ip s e = Some ip \<longrightarrow> d = e"
    by (metis emptyE list.set(1) option.inject)
  have "\<exists>h. 3 \<le> h \<and> h \<le> net_hosts net \<and> unat (u32_from_v4 ip) = unat (net_network net) + h" if "from_pool s ip" for ip
  proof -
    from that obtain j where j: "2 \<le> j" "j < unat (cursor s)" "ip = pool_ip net (word_of_nat j)"
      using i(1) by (auto simp: from_pool_def)
    with i(4) have "j < net_hosts net" by simp
    then have "unat (u32_from_v4 ip) = unat (net_network net) + (j + 1) \<and> 3 \<le> j + 1 \<and> j + 1 \<le> net_hosts net"
      using unat_pool_u32 [OF assms(1)] j by (simp add: pool_ip_def)
    then show ?thesis by blast
  qed
  then show "\<forall>ip d. get_domain_by_ip (IpV4 ip) s = Some d \<longrightarrow>
           (\<exists>h. 3 \<le> h \<and> h \<le> net_hosts net \<and> unat (u32_from_v4 ip) = unat (net_network net) + h)"
    using i(7) by (auto simp: get_domain_by_ip_def)
qed

text \<open>
  Once a query has been answered with an address, that address resolves to the name of the query until the
  cache drops the address, whatever other queries, evictions and recyclings happen in between: no
  connection is sent to another name than the one that was looked up.
\<close>

theorem fake_dns_mapping_stable:
  assumes "net_ok net" and "run_steps (fake_dns_step parse) es (fake_dns_new net) = Some s"
    and "get_domain_by_ip (IpV4 ip) s = Some d"
    and "run_steps (fake_dns_step parse) fs s = Some t" and "EvictIp ip \<notin> set fs"
  shows "get_domain_by_ip (IpV4 ip) t = Some d"
proof -
  have "fake_dns_ok net s" using fake_dns_machine.run_inv [OF fake_dns_new_ok] assms(1,2) by blast
  then have "maps_to net ip d s" using assms(3) by (simp add: maps_to_def get_domain_by_ip_def)
  from run_maps [OF this assms(4,5)] show ?thesis by (simp add: maps_to_def get_domain_by_ip_def)
qed

text \<open>
  A question for the address of a name goes unanswered only if the name has no address and every address of
  the pool from its third host on is held by a name or is waiting for its listener: no address leaks.
\<close>

theorem fake_dns_exhaustion:
  assumes "net_ok net" and "run_steps (fake_dns_step parse) es (fake_dns_new net) = Some s"
    and "parse b = Some q" and "dm_queries q = (d, record_type_a) # rest"
    and "fst (handle_dns_query parse b s) = None"
  shows "domain_to_ip s d = None \<and>
    (\<forall>h. 3 \<le> h \<and> h \<le> net_hosts net \<longrightarrow>
           (let ip = v4_from_u32 (net_network net + word_of_nat h)
            in ip_to_domain s ip \<noteq> None \<or> ip \<in> fst ` set (fd_listeners s)))"
proof (intro conjI)
  have ok: "fake_dns_ok net s \<and> accounted s"
    using fake_dns_accounts.run_inv [OF _ assms(2)] fake_dns_new_ok fake_dns_new_accounted assms(1) by blast
  then have inv: "fake_dns_inv net s" by (simp add: fake_dns_ok_def)
  note i = fake_dns_invD [OF inv]
  have none: "fake_ip_for d s = None"
    using assms(3-5) by (auto simp: handle_dns_query_def split: option.splits)
  then show "domain_to_ip s d = None" by (auto simp: fake_ip_for_def split: option.splits)
  from none have al: "allocate_unique_ip s = None" by (auto simp: fake_ip_for_def split: option.splits)
  then have empty: "recycled_ips s = []" and full: "max_hosts s \<le> cursor s"
    by (auto simp: allocate_unique_ip_def Let_def split: list.splits if_splits)
  have "unat (max_hosts s) = net_hosts net"
    using i(2) assms(1) unat_word_of_nat_u32 [of "net_hosts net"] unfolding net_ok_def by simp
  with full have c: "net_hosts net \<le> unat (cursor s)" by (simp add: word_le_nat_alt)
  have "from_pool s (v4_from_u32 (net_network net + word_of_nat h))" if h: "3 \<le> h" "h \<le> net_hosts net" for h
  proof -
    have "word_of_nat h = 1 + (word_of_nat (h - 1) :: u32)"
      using h by (metis Suc_diff_1 le_trans not_less numeral_le_iff of_nat_Suc one_le_numeral less_le_trans zero_less_numeral)
    then have "v4_from_u32 (net_network net + word_of_nat h) = pool_ip (ip_net s) (word_of_nat (h - 1))"
      using i(1) by (simp add: pool_ip_def add.assoc)
    then show ?thesis unfolding from_pool_def using h c by (intro exI [of _ "h - 1"]) auto
  qed
  then show "\<forall>h. 3 \<le> h \<and> h \<le> net_hosts net \<longrightarrow>
           (let ip = v4_from_u32 (net_network net + word_of_nat h)
            in ip_to_domain s ip \<noteq> None \<or> ip \<in> fst ` set (fd_listeners s))"
    using ok empty by (auto simp: accounted_def Let_def)
qed

section \<open>Witnesses\<close>

text \<open>Four hosts, so two usable addresses; a message of one octet asks for the name of that octet.\<close>

definition tiny_net :: ipv4_net where
  "tiny_net = \<lparr>net_network = 0x0A000000, net_hosts = 4,
     net_contains = (\<lambda>ip. case ip of Ipv4 a b c d \<Rightarrow> a = 10 \<and> b = 0 \<and> c = 0 \<and> d < 8)\<rparr>"

definition tiny_query :: "bytes \<Rightarrow> u8 dns_message option" where
  "tiny_query b =
     (case b of [] \<Rightarrow> None | x # _ \<Rightarrow> Some \<lparr>dm_queries = [(x, record_type_a)], dm_response = False, dm_code = None, dm_answers = []\<rparr>)"

definition tiny_full :: "u8 fake_dns" where
  "tiny_full = the (run_steps (fake_dns_step tiny_query) [Query [1], Query [2]] (fake_dns_new tiny_net))"

lemma tiny_net_ok: "net_ok tiny_net"
  by (simp add: net_ok_def tiny_net_def)

lemmas tiny_eval = fake_dns_step_def handle_dns_query_def fake_ip_for_def allocate_unique_ip_def tiny_query_def
  record_type_a_def fake_dns_new_def tiny_net_def pool_ip_def v4_from_u32_def Let_def word_le_nat_alt
  evict_ip_def run_listener_def get_domain_by_ip_def

lemma tiny_full_run: "run_steps (fake_dns_step tiny_query) [Query [1], Query [2]] (fake_dns_new tiny_net) = Some tiny_full"
  by (simp add: tiny_full_def tiny_eval)

lemma tiny_full_maps: "get_domain_by_ip (IpV4 (Ipv4 10 0 0 3)) tiny_full = Some 1"
  by (simp add: tiny_full_def tiny_eval)

theorem fake_dns_sound_witness:
  "get_domain_by_ip (IpV4 (Ipv4 10 0 0 3)) tiny_full = Some 1 \<and>
   (\<exists>h. 3 \<le> h \<and> h \<le> net_hosts tiny_net \<and>
      unat (u32_from_v4 (Ipv4 10 0 0 3)) = unat (net_network tiny_net) + h)"
  using fake_dns_sound [OF tiny_net_ok tiny_full_run] tiny_full_maps by blast

theorem fake_dns_mapping_stable_witness:
  "\<exists>t. run_steps (fake_dns_step tiny_query)
         [EvictDomain 1, EvictIp (Ipv4 10 0 0 4), RunListener 0, Query [9], Query [1]] tiny_full = Some t \<and>
       get_domain_by_ip (IpV4 (Ipv4 10 0 0 4)) t = Some 9 \<and> get_domain_by_ip (IpV4 (Ipv4 10 0 0 3)) t = Some 1"
proof -
  let ?fs = "[EvictDomain 1, EvictIp (Ipv4 10 0 0 4), RunListener 0, Query [9], Query [1]]"
  obtain t where t: "run_steps (fake_dns_step tiny_query) ?fs tiny_full = Some t"
    and t4: "get_domain_by_ip (IpV4 (Ipv4 10 0 0 4)) t = Some 9"
    by (simp add: tiny_full_def tiny_eval)
  have "get_domain_by_ip (IpV4 (Ipv4 10 0 0 3)) t = Some 1"
    by (rule fake_dns_mapping_stable [OF tiny_net_ok tiny_full_run tiny_full_maps t]) simp
  with t t4 show ?thesis by blast
qed

theorem fake_dns_exhaustion_witness:
  "fst (handle_dns_query tiny_query [3] tiny_full) = None \<and>
   (let ip = v4_from_u32 (net_network tiny_net + word_of_nat 4)
    in ip_to_domain tiny_full ip \<noteq> None \<or> ip \<in> fst ` set (fd_listeners tiny_full))"
proof -
  have q: "tiny_query [3] = Some \<lparr>dm_queries = [(3, record_type_a)], dm_response = False, dm_code = None, dm_answers = []\<rparr>"
    by (simp add: tiny_query_def)
  have n: "fst (handle_dns_query tiny_query [3] tiny_full) = None"
    by (simp add: tiny_full_def tiny_eval)
  have "3 \<le> (4::nat) \<and> 4 \<le> net_hosts tiny_net" by (simp add: tiny_net_def)
  moreover have "\<forall>h. 3 \<le> h \<and> h \<le> net_hosts tiny_net \<longrightarrow>
      (let ip = v4_from_u32 (net_network tiny_net + word_of_nat h)
       in ip_to_domain tiny_full ip \<noteq> None \<or> ip \<in> fst ` set (fd_listeners tiny_full))"
    by (rule fake_dns_exhaustion [THEN conjunct2, OF tiny_net_ok tiny_full_run q _ n]) simp
  ultimately show ?thesis using n by blast
qed

end
