(* ===== verification/Client_Datagram.thy ===== *)
theory Client_Datagram
  imports Reassembly Machine
begin

text \<open>
  UDP sessions of the client: \<open>crates/ombrac-client/src/connection/datagram.rs\<close> and \<open>open_associate\<close> of
  \<open>client.rs\<close>. The dispatcher maps a session identifier to the sending end of a bounded channel
  (\<open>tokio::sync::mpsc\<close>); the receiving end belongs to the \<open>UdpSession\<close>. Both ends refer to the same
  channel, so channels live in a heap. Sending to a full channel waits: the step is then not
  enabled.
\<close>

section \<open>Dispatcher and sessions\<close>

definition UDP_SESSION_CHANNEL_BUFFER_SIZE :: nat where
  "UDP_SESSION_CHANNEL_BUFFER_SIZE = 128"

type_synonym datagram_msg = "bytes \<times> address"

record channel =
  ch_queue :: "datagram_msg list"
  ch_open :: bool
  ch_received :: "datagram_msg list"

text \<open>\<open>ch_received\<close> is what \<open>recv_from\<close> has returned. \<open>udp_sessions\<close> are the sessions that exist, by the
  channel of their receiver, with their identifier.\<close>

record udp_client =
  session_id_counter :: u64
  dispatch_map :: "u64 \<Rightarrow> nat option"
  channels :: "nat \<Rightarrow> channel"
  next_channel :: nat
  udp_sessions :: "nat \<Rightarrow> u64 option"

definition udp_client_new :: udp_client where
  "udp_client_new =
     \<lparr>session_id_counter = 1, dispatch_map = Map.empty,
      channels = (\<lambda>_. \<lparr>ch_queue = [], ch_open = True, ch_received = []\<rparr>), next_channel = 0,
      udp_sessions = Map.empty\<rparr>"

definition register_session :: "u64 \<Rightarrow> udp_client \<Rightarrow> nat \<times> udp_client" where
  "register_session session_id c =
     (let r = next_channel c
      in (r, c\<lparr>channels := (channels c)(r := \<lparr>ch_queue = [], ch_open = True, ch_received = []\<rparr>),
               next_channel := Suc r, dispatch_map := (dispatch_map c)(session_id \<mapsto> r)\<rparr>))"

definition unregister_session :: "u64 \<Rightarrow> udp_client \<Rightarrow> udp_client" where
  "unregister_session session_id c = c\<lparr>dispatch_map := (dispatch_map c)(session_id := None)\<rparr>"

definition open_associate :: "udp_client \<Rightarrow> udp_client" where
  "open_associate c =
     (let session_id = session_id_counter c;
          c1 = c\<lparr>session_id_counter := session_id + 1\<rparr>;
          (r, c2) = register_session session_id c1
      in c2\<lparr>udp_sessions := (udp_sessions c2)(r \<mapsto> session_id)\<rparr>)"

text \<open>\<open>UdpDispatcher::dispatch\<close>; \<open>None\<close> while the channel is full.\<close>

definition dispatch :: "u64 \<Rightarrow> bytes \<Rightarrow> address \<Rightarrow> udp_client \<Rightarrow> udp_client option" where
  "dispatch session_id data addr c =
     (case dispatch_map c session_id of
        None \<Rightarrow> Some c
      | Some r \<Rightarrow>
          (let ch = channels c r
           in if \<not> ch_open ch then Some (unregister_session session_id c)
              else if length (ch_queue ch) < UDP_SESSION_CHANNEL_BUFFER_SIZE
              then Some (c\<lparr>channels := (channels c)(r := ch\<lparr>ch_queue := ch_queue ch @ [(data, addr)]\<rparr>)\<rparr>)
              else None))"

text \<open>\<open>UdpSession::recv_from\<close> (while a message is there) and \<open>Drop for UdpSession\<close>: the entry of the map goes
  first, the receiver with the session's fields after it.\<close>

definition recv_from :: "nat \<Rightarrow> udp_client \<Rightarrow> udp_client option" where
  "recv_from r c =
     (case ch_queue (channels c r) of
        [] \<Rightarrow> None
      | m # ms \<Rightarrow>
          Some (c\<lparr>channels := (channels c)
            (r := (channels c r)\<lparr>ch_queue := ms, ch_received := ch_received (channels c r) @ [m]\<rparr>)\<rparr>))"

definition session_drop :: "nat \<Rightarrow> u64 \<Rightarrow> udp_client \<Rightarrow> udp_client" where
  "session_drop r session_id c =
     (let c1 = unregister_session session_id c
      in c1\<lparr>channels := (channels c1)(r := (channels c1 r)\<lparr>ch_open := False\<rparr>),
            udp_sessions := (udp_sessions c1)(r := None)\<rparr>)"

datatype udp_event =
    OpenAssociate
  | Dispatch u64 bytes address
  | RecvFrom nat
  | DropSession nat

definition udp_client_step :: "udp_event \<Rightarrow> udp_client \<Rightarrow> udp_client option" where
  "udp_client_step e c =
     (case e of
        OpenAssociate \<Rightarrow> Some (open_associate c)
      | Dispatch session_id data addr \<Rightarrow> dispatch session_id data addr c
      | RecvFrom r \<Rightarrow> if udp_sessions c r = None then None else recv_from r c
      | DropSession r \<Rightarrow>
          (case udp_sessions c r of None \<Rightarrow> None | Some session_id \<Rightarrow> Some (session_drop r session_id c)))"

section \<open>Reading and sending datagrams\<close>

text \<open>
  \<open>read_datagram\<close> on the results that \<open>with_retry\<close> gives one after the other; \<open>None\<close> when they are used
  up and it still waits.
\<close>

fun read_datagram ::
    "('c, cache_key, nat) cache_ops \<Rightarrow> (bytes \<Rightarrow> udp_packet io_result) \<Rightarrow> bytes io_result list \<Rightarrow> 'c reassembler \<Rightarrow>
     ((u64 \<times> address \<times> bytes) io_result \<times> bytes io_result list \<times> 'c reassembler) option" where
  "read_datagram ops decode [] rs = None"
| "read_datagram ops decode (Inl e # inputs) rs = Some (Inl e, inputs, rs)"
| "read_datagram ops decode (Inr packet_bytes # inputs) rs =
     (case decode packet_bytes of
        Inl _ \<Rightarrow> read_datagram ops decode inputs rs
      | Inr packet \<Rightarrow>
          (case process ops rs packet of
             (Inr (Some x), rs') \<Rightarrow> Some (Inr x, inputs, rs')
           | (Inr None, rs') \<Rightarrow> read_datagram ops decode inputs rs'
           | (Inl _, rs') \<Rightarrow> read_datagram ops decode inputs rs'))"

text \<open>\<open>send_datagram\<close>: \<open>send\<close> is the operation under \<open>with_retry\<close>.\<close>

definition send_datagram ::
    "(udp_packet \<Rightarrow> bytes io_result) \<Rightarrow> (bytes \<Rightarrow> unit io_result) \<Rightarrow> u64 \<Rightarrow> address \<Rightarrow> bytes \<Rightarrow> unit io_result" where
  "send_datagram encode send session_id dest_addr data =
     (case encode (Unfragmented session_id dest_addr data) of Inl e \<Rightarrow> Inl e | Inr encoded \<Rightarrow> send encoded)"

text \<open>The dispatcher's loop: the delay before the next read, and what it dispatches.\<close>

definition DATAGRAM_INITIAL_DELAY :: duration where
  "DATAGRAM_INITIAL_DELAY = 1000000000"

definition DATAGRAM_MAX_DELAY :: duration where
  "DATAGRAM_MAX_DELAY = 60000000000"

record dispatcher_loop =
  current_delay :: duration
  slept :: "duration list"
  dispatched :: "(u64 \<times> bytes \<times> address) list"
  loop_ended :: bool

datatype loop_event =
    LoopShutdown
  | LoopRead "(u64 \<times> address \<times> bytes) io_result"

definition dispatcher_init :: dispatcher_loop where
  "dispatcher_init =
     \<lparr>current_delay = DATAGRAM_INITIAL_DELAY, slept = [], dispatched = [], loop_ended = False\<rparr>"

definition dispatcher_run :: "loop_event \<Rightarrow> dispatcher_loop \<Rightarrow> dispatcher_loop option" where
  "dispatcher_run e s =
     (if loop_ended s then None
      else case e of
        LoopShutdown \<Rightarrow> Some (s\<lparr>loop_ended := True\<rparr>)
      | LoopRead (Inr (session_id, addr, data)) \<Rightarrow>
          Some (s\<lparr>current_delay :=
                     (if current_delay s \<noteq> DATAGRAM_INITIAL_DELAY then DATAGRAM_INITIAL_DELAY else current_delay s),
                  dispatched := dispatched s @ [(session_id, data, addr)]\<rparr>)
      | LoopRead (Inl _) \<Rightarrow>
          Some (s\<lparr>slept := slept s @ [current_delay s],
                  current_delay := min (current_delay s * 2) DATAGRAM_MAX_DELAY\<rparr>))"

section \<open>Isolation and order of sessions\<close>

fun messages_for :: "u64 \<Rightarrow> udp_event list \<Rightarrow> datagram_msg list" where
  "messages_for sid [] = []"
| "messages_for sid (Dispatch sid' d a # es) = (if sid' = sid then (d, a) # messages_for sid es else messages_for sid es)"
| "messages_for sid (_ # es) = messages_for sid es"

lemma messages_for_append [simp]: "messages_for sid (es @ fs) = messages_for sid es @ messages_for sid fs"
  by (induction es rule: messages_for.induct) auto

text \<open>
  The invariant: the live sessions are exactly the entries of the map, the identifier of the \<open>r\<close>-th session
  is \<open>r + 1\<close>, and a live session has received or still has queued exactly what was dispatched
  for its identifier since it was opened.
\<close>

definition inbox :: "udp_client \<Rightarrow> nat \<Rightarrow> datagram_msg list" where
  "inbox c r = ch_received (channels c r) @ ch_queue (channels c r)"

definition session_ok :: "udp_event list \<Rightarrow> udp_client \<Rightarrow> nat \<Rightarrow> u64 \<Rightarrow> bool" where
  "session_ok es c r sid \<longleftrightarrow>
     r < next_channel c \<and> sid = word_of_nat (Suc r) \<and> dispatch_map c sid = Some r \<and> ch_open (channels c r) \<and>
     length (ch_queue (channels c r)) \<le> 128 \<and>
     (\<exists>es1 es2. es = es1 @ OpenAssociate # es2 \<and> inbox c r = messages_for sid es2)"

definition udp_client_inv :: "udp_event list \<times> udp_client \<Rightarrow> bool" where
  "udp_client_inv = (\<lambda>(es, c). length es < 2 ^ 64 - 1 \<longrightarrow>
     next_channel c \<le> length es \<and> session_id_counter c = word_of_nat (Suc (next_channel c)) \<and>
     (\<forall>r sid. udp_sessions c r = Some sid \<longrightarrow> session_ok es c r sid) \<and>
     (\<forall>r sid. dispatch_map c sid = Some r \<longrightarrow> udp_sessions c r = Some sid))"

lemma word_of_nat_Suc_inj:
  assumes "Suc i < 2 ^ 64" and "Suc j < 2 ^ 64"
  shows "(word_of_nat (Suc i) :: u64) = word_of_nat (Suc j) \<longleftrightarrow> i = j"
proof
  assume "(word_of_nat (Suc i) :: u64) = word_of_nat (Suc j)"
  then have "unat (word_of_nat (Suc i) :: u64) = unat (word_of_nat (Suc j) :: u64)" by simp
  then show "i = j" using assms by (simp add: unat_of_nat take_bit_nat_eq_self del: of_nat_Suc)
qed simp

lemma session_ok_extend:
  assumes "session_ok es c r sid" and "next_channel c \<le> next_channel c'"
    and "dispatch_map c' sid = dispatch_map c sid" and "ch_open (channels c' r) = ch_open (channels c r)"
    and "length (ch_queue (channels c' r)) \<le> 128" and "inbox c' r = inbox c r @ messages_for sid [e]"
  shows "session_ok (es @ [e]) c' r sid"
proof -
  from assms(1) obtain es1 es2 where "es = es1 @ OpenAssociate # es2" "inbox c r = messages_for sid es2"
    by (auto simp: session_ok_def)
  then have "es @ [e] = es1 @ OpenAssociate # (es2 @ [e]) \<and> inbox c' r = messages_for sid (es2 @ [e])"
    using assms(6) by simp
  with assms show ?thesis unfolding session_ok_def by fastforce
qed

lemma udp_client_invI:
  assumes "length es < 2 ^ 64 - 1 \<Longrightarrow> next_channel c \<le> length es \<and> session_id_counter c = word_of_nat (Suc (next_channel c))"
    and "\<And>r sid. length es < 2 ^ 64 - 1 \<Longrightarrow> udp_sessions c r = Some sid \<Longrightarrow> session_ok es c r sid"
    and "\<And>r sid. length es < 2 ^ 64 - 1 \<Longrightarrow> dispatch_map c sid = Some r \<Longrightarrow> udp_sessions c r = Some sid"
  shows "udp_client_inv (es, c)"
  using assms by (auto simp: udp_client_inv_def)

lemma udp_client_invD:
  assumes "udp_client_inv (es, c)" and "length (es @ [e]) < 2 ^ 64 - 1"
  shows "next_channel c \<le> length es" and "session_id_counter c = word_of_nat (Suc (next_channel c))"
    and "udp_sessions c r = Some sid \<Longrightarrow> session_ok es c r sid"
    and "dispatch_map c sid = Some r \<Longrightarrow> udp_sessions c r = Some sid"
  using assms by (auto simp: udp_client_inv_def)

lemma open_associate_inv:
  assumes inv: "udp_client_inv (es, c)"
  shows "udp_client_inv (es @ [OpenAssociate], open_associate c)"
proof (rule udp_client_invI, goal_cases)
  case 1
  then show ?case using udp_client_invD [OF inv 1]
    by (simp add: open_associate_def register_session_def Let_def)
next
  case (2 r sid)
  note d = udp_client_invD [OF inv 2(1)]
  let ?n = "next_channel c"
  show ?case
  proof (cases "r = ?n")
    case True
    with 2(2) d(2) have "sid = word_of_nat (Suc ?n)"
      by (simp add: open_associate_def register_session_def Let_def)
    moreover have "es @ [OpenAssociate] = es @ OpenAssociate # []" by simp
    ultimately show ?thesis using True d(2)
      unfolding session_ok_def inbox_def
      by (intro conjI exI [of _ es] exI [of _ "[]"])
        (simp_all add: open_associate_def register_session_def Let_def)
  next
    case False
    with 2(2) have old: "udp_sessions c r = Some sid"
      by (simp add: open_associate_def register_session_def Let_def)
    note ok = d(3) [OF old]
    then have r: "r < next_channel c" "length (ch_queue (channels c r)) \<le> 128" by (simp_all add: session_ok_def)
    have "sid \<noteq> word_of_nat (Suc ?n)"
      using ok 2(1) d(1) word_of_nat_Suc_inj [of r ?n] by (simp add: session_ok_def del: of_nat_Suc)
    then have "dispatch_map (open_associate c) sid = dispatch_map c sid"
      using d(2) by (simp add: open_associate_def register_session_def Let_def del: of_nat_Suc)
    moreover have "channels (open_associate c) r = channels c r" "next_channel (open_associate c) = Suc ?n"
      using False by (simp_all add: open_associate_def register_session_def Let_def)
    ultimately show ?thesis using r(2) by (intro session_ok_extend [OF ok]) (simp_all add: inbox_def)
  qed
next
  case (3 r sid)
  note d = udp_client_invD [OF inv 3(1)]
  show ?case
  proof (cases "sid = session_id_counter c")
    case True
    with 3(2) show ?thesis by (simp add: open_associate_def register_session_def Let_def)
  next
    case False
    with 3(2) have "dispatch_map c sid = Some r"
      by (simp add: open_associate_def register_session_def Let_def)
    then have live: "udp_sessions c r = Some sid" by (rule d(4))
    with d(3) [OF live] have "r \<noteq> next_channel c" by (simp add: session_ok_def)
    with live show ?thesis by (simp add: open_associate_def register_session_def Let_def)
  qed
qed

lemma dispatch_inv:
  assumes inv: "udp_client_inv (es, c)" and step: "dispatch sid0 d0 a0 c = Some c'"
  shows "udp_client_inv (es @ [Dispatch sid0 d0 a0], c')"
proof (cases "dispatch_map c sid0")
  case None
  with step have c': "c' = c" by (simp add: dispatch_def)
  show ?thesis
  proof (rule udp_client_invI, goal_cases)
    case (2 r sid)
    note d = udp_client_invD [OF inv 2(1)]
    from 2 c' have ok: "session_ok es c r sid" using d(3) by simp
    with None have "sid \<noteq> sid0" by (auto simp: session_ok_def)
    with ok c' show ?case by (intro session_ok_extend [OF ok]) (auto simp: session_ok_def)
  qed (use udp_client_invD [OF inv] c' in auto)
next
  case (Some r0)
  show ?thesis
  proof (cases "length (es @ [Dispatch sid0 d0 a0]) < 2 ^ 64 - 1")
    case len: True
    note d = udp_client_invD [OF inv len]
    have ok0: "session_ok es c r0 sid0" and live: "udp_sessions c r0 = Some sid0" using d(3,4) Some by blast+
    with step Some have q: "length (ch_queue (channels c r0)) < 128" and
      c': "c' = c\<lparr>channels := (channels c)
        (r0 := (channels c r0)\<lparr>ch_queue := ch_queue (channels c r0) @ [(d0, a0)]\<rparr>)\<rparr>"
      by (auto simp: dispatch_def session_ok_def UDP_SESSION_CHANNEL_BUFFER_SIZE_def Let_def split: if_splits)
    show ?thesis
    proof (rule udp_client_invI, goal_cases)
      case (2 r sid)
      then have ok: "session_ok es c r sid" using d(3) c' by simp
      show ?case
      proof (cases "r = r0")
        case True
        with 2 live c' have "sid = sid0" by simp
        with True ok q c' show ?thesis by (intro session_ok_extend [OF ok]) (simp_all add: inbox_def)
      next
        case False
        with ok Some have "sid \<noteq> sid0" by (auto simp: session_ok_def)
        with False ok c' show ?thesis
          by (intro session_ok_extend [OF ok]) (auto simp: inbox_def session_ok_def)
      qed
    qed (use d c' in auto)
  qed (simp add: udp_client_inv_def)
qed

lemma recv_from_inv:
  assumes inv: "udp_client_inv (es, c)" and step: "recv_from r0 c = Some c'"
  shows "udp_client_inv (es @ [RecvFrom r0], c')"
proof (rule udp_client_invI, goal_cases)
  case (2 r sid)
  note d = udp_client_invD [OF inv 2(1)]
  from step 2 have ok: "session_ok es c r sid" using d(3) by (auto simp: recv_from_def split: list.splits)
  then show ?case using step
    by (intro session_ok_extend [OF ok]) (auto simp: recv_from_def inbox_def session_ok_def split: list.splits)
qed (use udp_client_invD [OF inv] step in \<open>auto simp: recv_from_def split: list.splits\<close>)

lemma session_drop_inv:
  assumes inv: "udp_client_inv (es, c)" and live: "udp_sessions c r0 = Some sid0"
  shows "udp_client_inv (es @ [DropSession r0], session_drop r0 sid0 c)"
proof (rule udp_client_invI, goal_cases)
  case (2 r sid)
  note d = udp_client_invD [OF inv 2(1)]
  from 2 have r: "r \<noteq> r0" and ok: "session_ok es c r sid"
    using d(3) by (auto simp: session_drop_def unregister_session_def Let_def split: if_splits)
  have "sid \<noteq> sid0" using ok d(3) [OF live] r by (auto simp: session_ok_def)
  with r ok show ?case
    by (intro session_ok_extend [OF ok])
      (auto simp: session_drop_def unregister_session_def Let_def inbox_def session_ok_def)
next
  case (3 r sid)
  note d = udp_client_invD [OF inv 3(1)]
  from 3 have "sid \<noteq> sid0" "dispatch_map c sid = Some r"
    by (auto simp: session_drop_def unregister_session_def Let_def split: if_splits)
  then show ?case using d(4) live
    by (auto simp: session_drop_def unregister_session_def Let_def)
qed (use udp_client_invD [OF inv] in \<open>auto simp: session_drop_def unregister_session_def Let_def\<close>)

interpretation udp_client: invariant_machine "logged udp_client_step" udp_client_inv
proof
  fix s e s'
  assume inv: "udp_client_inv s" and step: "logged udp_client_step e s = Some s'"
  obtain es c where s: "s = (es, c)" by fastforce
  from step s obtain c' where c': "udp_client_step e c = Some c'" "s' = (es @ [e], c')"
    by (auto simp: logged_def)
  with inv s show "udp_client_inv s'"
    by (cases e) (auto simp: udp_client_step_def open_associate_inv dispatch_inv recv_from_inv session_drop_inv
        split: option.splits if_splits)
qed

text \<open>
  C16. UDP sessions are isolated and ordered: as long as fewer than \<open>2^64 - 1\<close> events happened, every
  live session has its own identifier, and what it has received followed by what is still queued
  for it is exactly the sequence of packets dispatched for its identifier since it was
  opened: none of another session, none lost, none twice, in order, and at most 128 queued.
\<close>

theorem session_isolation:
  assumes "run_steps udp_client_step es udp_client_new = Some c" and "length es < 2 ^ 64 - 1"
    and "udp_sessions c r = Some sid"
  shows "(\<forall>r'. udp_sessions c r' = Some sid \<longrightarrow> r' = r) \<and> length (ch_queue (channels c r)) \<le> 128 \<and>
    (\<exists>es1 es2. es = es1 @ OpenAssociate # es2 \<and>
       ch_received (channels c r) @ ch_queue (channels c r) = messages_for sid es2)"
proof -
  have "run_steps (logged udp_client_step) es ([], udp_client_new) = Some (es, c)"
    using assms(1) by (simp add: run_logged)
  moreover have "udp_client_inv ([], udp_client_new)" by (simp add: udp_client_inv_def udp_client_new_def)
  ultimately have "udp_client_inv (es, c)" using udp_client.run_inv by blast
  with assms(2) have ok: "udp_sessions c r' = Some sid' \<Longrightarrow> session_ok es c r' sid'" for r' sid'
    by (simp add: udp_client_inv_def)
  have "r' = r" if "udp_sessions c r' = Some sid" for r'
    using ok [OF that] ok [OF assms(3)] unfolding session_ok_def by (metis option.inject)
  with ok [OF assms(3)] show ?thesis by (auto simp: session_ok_def inbox_def)
qed

theorem session_isolation_witness:
  "\<exists>c. run_steps udp_client_step
      [OpenAssociate, OpenAssociate, Dispatch 2 [9] (Domain [97] 1), Dispatch 1 [8] (Domain [97] 1),
       Dispatch 2 [7] (Domain [97] 1), RecvFrom 1] udp_client_new = Some c \<and>
     udp_sessions c 1 = Some 2 \<and> ch_received (channels c 1) = [([9], Domain [97] 1)] \<and>
     ch_queue (channels c 1) = [([7], Domain [97] 1)] \<and> (\<forall>r'. udp_sessions c r' = Some 2 \<longrightarrow> r' = 1)"
proof -
  let ?es = "[OpenAssociate, OpenAssociate, Dispatch 2 [9] (Domain [97] 1), Dispatch 1 [8] (Domain [97] 1),
       Dispatch 2 [7] (Domain [97] 1), RecvFrom 1]"
  have "map_option (\<lambda>c. (udp_sessions c 1, ch_received (channels c 1), ch_queue (channels c 1)))
      (run_steps udp_client_step ?es udp_client_new) =
      Some (Some 2, [([9], Domain [97] 1)], [([7], Domain [97] 1)])" by code_simp
  then obtain c where c: "run_steps udp_client_step ?es udp_client_new = Some c" "udp_sessions c 1 = Some 2"
    "ch_received (channels c 1) = [([9], Domain [97] 1)]" "ch_queue (channels c 1) = [([7], Domain [97] 1)]"
    by auto
  have "length ?es < 2 ^ 64 - 1" by simp
  from session_isolation [OF c(1) this c(2)] c show ?thesis by blast
qed

section \<open>Reading datagrams\<close>

fun decodable :: "(bytes \<Rightarrow> udp_packet io_result) \<Rightarrow> bytes io_result list \<Rightarrow> udp_packet list" where
  "decodable decode [] = []"
| "decodable decode (Inl _ # xs) = decodable decode xs"
| "decodable decode (Inr b # xs) =
     (case decode b of Inl _ \<Rightarrow> decodable decode xs | Inr p \<Rightarrow> p # decodable decode xs)"

definition undelivered :: "(u64 \<times> address \<times> bytes) option io_result \<Rightarrow> bool" where
  "undelivered r \<longleftrightarrow> (\<forall>x. r \<noteq> Inr (Some x))"

text \<open>What a call of \<open>read_datagram\<close> did: the inputs it passed over, and the one that ended it.\<close>

definition reads_first ::
    "('c, cache_key, nat) cache_ops \<Rightarrow> (bytes \<Rightarrow> udp_packet io_result) \<Rightarrow> bytes io_result list \<Rightarrow> 'c reassembler \<Rightarrow>
     (u64 \<times> address \<times> bytes) io_result \<Rightarrow> bytes io_result list \<Rightarrow> 'c reassembler \<Rightarrow> bool" where
  "reads_first ops decode inputs rs r rest rs' \<longleftrightarrow>
     (\<exists>pre l. inputs = pre @ l # rest \<and> (\<forall>x \<in> set pre. \<exists>b. x = Inr b) \<and>
       list_all undelivered (fst (process_all ops rs (decodable decode pre))) \<and>
       (case r of
          Inl e \<Rightarrow> l = Inl e \<and> rs' = snd (process_all ops rs (decodable decode pre))
        | Inr x \<Rightarrow> \<exists>b p. l = Inr b \<and> decode b = Inr p \<and>
            process ops (snd (process_all ops rs (decodable decode pre))) p = (Inr (Some x), rs')))"

lemma reads_first_skip:
  assumes "decode b = Inl e" and "reads_first ops decode inputs rs r rest rs'"
  shows "reads_first ops decode (Inr b # inputs) rs r rest rs'"
proof -
  from assms(2) obtain pre l where "inputs = pre @ l # rest" "\<forall>x \<in> set pre. \<exists>b. x = Inr b"
    "list_all undelivered (fst (process_all ops rs (decodable decode pre)))"
    "case r of
       Inl e \<Rightarrow> l = Inl e \<and> rs' = snd (process_all ops rs (decodable decode pre))
     | Inr x \<Rightarrow> \<exists>b p. l = Inr b \<and> decode b = Inr p \<and>
         process ops (snd (process_all ops rs (decodable decode pre))) p = (Inr (Some x), rs')"
    unfolding reads_first_def by blast
  with assms(1) show ?thesis
    unfolding reads_first_def by (intro exI [of _ "Inr b # pre"] exI [of _ l]) (cases r; simp)
qed

lemma reads_first_feed:
  assumes "decode b = Inr p" and "process ops rs p = (res, rs1)" and "undelivered res"
    and "reads_first ops decode inputs rs1 r rest rs'"
  shows "reads_first ops decode (Inr b # inputs) rs r rest rs'"
proof -
  from assms(4) obtain pre l where pl: "inputs = pre @ l # rest" "\<forall>x \<in> set pre. \<exists>b. x = Inr b"
    "list_all undelivered (fst (process_all ops rs1 (decodable decode pre)))"
    "case r of
       Inl e \<Rightarrow> l = Inl e \<and> rs' = snd (process_all ops rs1 (decodable decode pre))
     | Inr x \<Rightarrow> \<exists>b p. l = Inr b \<and> decode b = Inr p \<and>
         process ops (snd (process_all ops rs1 (decodable decode pre))) p = (Inr (Some x), rs')"
    unfolding reads_first_def by blast
  moreover have "process_all ops rs (decodable decode (Inr b # pre)) =
      (res # fst (process_all ops rs1 (decodable decode pre)), snd (process_all ops rs1 (decodable decode pre)))"
    using assms(1,2) by (simp add: split_def Let_def)
  ultimately show ?thesis
    using assms(3) unfolding reads_first_def by (intro exI [of _ "Inr b # pre"] exI [of _ l]) (cases r; simp)
qed

lemma read_datagram_reads_first:
  "read_datagram ops decode inputs rs = Some (r, rest, rs') \<Longrightarrow> reads_first ops decode inputs rs r rest rs'"
proof (induction ops decode inputs rs rule: read_datagram.induct)
  case (2 ops decode e inputs rs)
  then show ?case unfolding reads_first_def by (intro exI [of _ "[]"] exI [of _ "Inl e"]) auto
next
  case (3 ops decode b inputs rs)
  show ?case
  proof (cases "decode b")
    case (Inl e)
    with 3 show ?thesis by (intro reads_first_skip) auto
  next
    case (Inr p)
    obtain res rs1 where pr: "process ops rs p = (res, rs1)" by fastforce
    consider (got) x where "res = Inr (Some x)" | (none) "res = Inr None" | (err) e where "res = Inl e"
      by (metis not_None_eq old.sum.exhaust)
    then show ?thesis
    proof cases
      case got
      with 3(4) Inr pr show ?thesis
        unfolding reads_first_def by (intro exI [of _ "[]"] exI [of _ "Inr b"]) auto
    next
      case none
      with 3(3) [OF Inr pr [symmetric] none] 3(4) Inr pr show ?thesis
        by (intro reads_first_feed [where p = p and res = res and rs = rs]) (auto simp: undelivered_def)
    next
      case err
      with 3(2) [OF Inr pr [symmetric] err] 3(4) Inr pr show ?thesis
        by (intro reads_first_feed [where p = p and res = res and rs = rs]) (auto simp: undelivered_def)
    qed
  qed
qed simp

text \<open>
  The datagram reader loses no packet and invents none: what it returns is the first transport error,
  or the first packet that the reassembler delivers when it is fed the datagrams read so far in
  order; malformed datagrams are skipped, and it stops right after the datagram that completed
  the packet, with the reassembler in the state that those datagrams lead to.
\<close>

theorem read_datagram_first:
  assumes "read_datagram ops decode inputs rs = Some (r, rest, rs')"
  shows "\<exists>pre l. inputs = pre @ l # rest \<and> (\<forall>x \<in> set pre. \<exists>b. x = Inr b) \<and>
    list_all undelivered (fst (process_all ops rs (decodable decode pre))) \<and>
    (case r of
       Inl e \<Rightarrow> l = Inl e \<and> rs' = snd (process_all ops rs (decodable decode pre))
     | Inr x \<Rightarrow> \<exists>b p. l = Inr b \<and> decode b = Inr p \<and>
         process ops (snd (process_all ops rs (decodable decode pre))) p = (Inr (Some x), rs'))"
  using read_datagram_reads_first [OF assms] unfolding reads_first_def .

theorem read_datagram_first_witness:
  "\<exists>rs'. read_datagram map_cache (\<lambda>b. if b = [0] then Inl (io_err KInvalidData []) else Inr (Unfragmented 7 (Domain [97] 1) b))
     [Inr [0], Inr [5], Inr [6]] (reassembler_new Map.empty) = Some (Inr (7, Domain [97] 1, [5]), [Inr [6]], rs') \<and>
   (\<exists>pre last. [Inr [0], Inr [5], Inr [6]] = pre @ last # [Inr [6] :: bytes io_result])"
proof -
  let ?d = "\<lambda>b. if b = [0] then Inl (io_err KInvalidData []) else Inr (Unfragmented 7 (Domain [97] 1) b)"
  have run: "read_datagram map_cache ?d [Inr [0], Inr [5], Inr [6]] (reassembler_new Map.empty) =
      Some (Inr (7, Domain [97] 1, [5]), [Inr [6]], reassembler_new Map.empty)" by simp
  with read_datagram_first [OF run] show ?thesis by blast
qed

end
