(* ===== verification/Tun.thy ===== *)
theory Tun
  imports Fake_Dns Address Client_Datagram Transport_Io
begin

text \<open>
  The TUN endpoint of the client, \<open>crates/ombrac-client/src/endpoint/tun.rs\<close>: which target a packet or a
  connection of the device is tunnelled to, the addresses that are never tunnelled, and the flows that carry
  UDP. The table \<open>active_sessions\<close> maps a local address to the sending end of the channel of its flow; the flow
  is the task \<open>relay_udp_flow\<close>, and everything it does between two awaits is one step. The device, the
  network stack behind it and the tunnel are the other side of the events.
\<close>

section \<open>Configuration and target\<close>

record tun_config =
  fakedns_cidr :: ipv4_net
  udp_idle_timeout :: duration
  udp_session_channel_capacity :: nat
  disable_udp_443 :: bool

definition tun_config_default :: "(string \<Rightarrow> ipv4_net) \<Rightarrow> tun_config" where
  "tun_config_default parse_net =
     \<lparr>fakedns_cidr = parse_net ''198.18.0.0/16'', udp_idle_timeout = 60 * 1000000000,
      udp_session_channel_capacity = 2048, disable_udp_443 = False\<rparr>"

fun show_socket_addr :: "socket_addr \<Rightarrow> bytes" where
  "show_socket_addr (SAV4 a) = show_socket_addr_v4 a"
| "show_socket_addr (SAV6 a) = show_socket_addr_v6 a"

definition show_arrow :: "string \<Rightarrow> bytes \<Rightarrow> bytes \<Rightarrow> string" where
  "show_arrow what a b = what @ '': '' @ text_of a @ '' -> '' @ text_of b"

text \<open>The choice of \<open>target_addr\<close>, the same in \<open>relay_tcp_stream\<close> and \<open>handle_udp_data_packet\<close>.\<close>

definition choose_target ::
    "('n \<Rightarrow> bytes) \<Rightarrow> tun_config \<Rightarrow> 'n fake_dns \<Rightarrow> socket_addr \<Rightarrow> socket_addr \<Rightarrow> address io_result" where
  "choose_target to_utf8 config fakedns local_addr fake_remote_addr =
     (case get_domain_by_ip (sa_ip fake_remote_addr) fakedns of
        Some domain \<Rightarrow> Inr (address_from_host_port (to_utf8 domain, sa_port fake_remote_addr))
      | None \<Rightarrow>
          if (case fake_remote_addr of SAV4 addr \<Rightarrow> net_contains (fakedns_cidr config) (v4_ip addr) | SAV6 _ \<Rightarrow> False)
          then Inl (io_err KOther
                 (show_arrow ''dns cache miss'' (show_socket_addr local_addr) (show_socket_addr fake_remote_addr)))
          else Inr (address_from_socket_addr fake_remote_addr))"

section \<open>Addresses that are not tunnelled\<close>

text \<open>The predicates of \<open>std::net::Ipv4Addr\<close> and \<open>Ipv6Addr\<close>.\<close>

fun v4_is_private :: "ipv4_addr \<Rightarrow> bool" where
  "v4_is_private (Ipv4 a b c d) \<longleftrightarrow> a = 10 \<or> (a = 172 \<and> 16 \<le> b \<and> b \<le> 31) \<or> (a = 192 \<and> b = 168)"

fun v4_is_loopback :: "ipv4_addr \<Rightarrow> bool" where
  "v4_is_loopback (Ipv4 a b c d) \<longleftrightarrow> a = 127"

fun v4_is_link_local :: "ipv4_addr \<Rightarrow> bool" where
  "v4_is_link_local (Ipv4 a b c d) \<longleftrightarrow> a = 169 \<and> b = 254"

fun v4_is_multicast :: "ipv4_addr \<Rightarrow> bool" where
  "v4_is_multicast (Ipv4 a b c d) \<longleftrightarrow> 224 \<le> a \<and> a \<le> 239"

fun v4_is_broadcast :: "ipv4_addr \<Rightarrow> bool" where
  "v4_is_broadcast (Ipv4 a b c d) \<longleftrightarrow> a = 255 \<and> b = 255 \<and> c = 255 \<and> d = 255"

fun v4_is_documentation :: "ipv4_addr \<Rightarrow> bool" where
  "v4_is_documentation (Ipv4 a b c d) \<longleftrightarrow>
     (a = 192 \<and> b = 0 \<and> c = 2) \<or> (a = 198 \<and> b = 51 \<and> c = 100) \<or> (a = 203 \<and> b = 0 \<and> c = 113)"

fun v4_octets_reserved :: "ipv4_addr \<Rightarrow> bool" where
  "v4_octets_reserved (Ipv4 a b c d) \<longleftrightarrow>
     (if a = 0 then True
      else if a = 100 \<and> 64 \<le> b \<and> b \<le> 127 then True
      else if a = 192 \<and> b = 0 \<and> c = 0 then True
      else if (a = 198 \<and> b = 18) \<or> (a = 198 \<and> b = 19) then True
      else if a = 240 then True
      else False)"

fun v6_is_loopback :: "ipv6_addr \<Rightarrow> bool" where
  "v6_is_loopback ip \<longleftrightarrow> ip = Ipv6 0 0 0 0 0 0 0 1"

fun v6_is_unspecified :: "ipv6_addr \<Rightarrow> bool" where
  "v6_is_unspecified ip \<longleftrightarrow> ip = Ipv6 0 0 0 0 0 0 0 0"

fun v6_is_multicast :: "ipv6_addr \<Rightarrow> bool" where
  "v6_is_multicast (Ipv6 a b c d e f g h) \<longleftrightarrow> a AND 0xff00 = 0xff00"

fun is_private_or_reserved :: "ip_addr \<Rightarrow> bool" where
  "is_private_or_reserved (IpV4 v4) \<longleftrightarrow>
     v4_is_private v4 \<or> v4_is_loopback v4 \<or> v4_is_link_local v4 \<or> v4_is_multicast v4 \<or> v4_is_broadcast v4 \<or>
     v4_is_documentation v4 \<or> v4_octets_reserved v4"
| "is_private_or_reserved (IpV6 (Ipv6 a b c d e f g h)) \<longleftrightarrow>
     v6_is_loopback (Ipv6 a b c d e f g h) \<or> v6_is_unspecified (Ipv6 a b c d e f g h) \<or>
     v6_is_multicast (Ipv6 a b c d e f g h) \<or>
     a AND 0xfe00 = 0xfc00 \<or> a AND 0xffc0 = 0xfe80 \<or> (a = 0x2001 \<and> b = 0xdb8) \<or> a = 0x100"

fun should_skip_address :: "address \<Rightarrow> bool" where
  "should_skip_address (SocketV4 sock) = is_private_or_reserved (IpV4 (v4_ip sock))"
| "should_skip_address (SocketV6 sock) = is_private_or_reserved (IpV6 (v6_ip sock))"
| "should_skip_address (Domain _ _) = False"

section \<open>Connections\<close>

text \<open>
  \<open>relay_tcp_stream\<close>: \<open>open\<close> is the client's \<open>open_bidirectional\<close>, \<open>relay\<close> the copying between the
  local stream and the opened one.
\<close>

definition tunnel_target ::
    "('n \<Rightarrow> bytes) \<Rightarrow> tun_config \<Rightarrow> 'n fake_dns \<Rightarrow> socket_addr \<Rightarrow> socket_addr \<Rightarrow> address io_result" where
  "tunnel_target to_utf8 config fakedns local_addr fake_remote_addr =
     (case choose_target to_utf8 config fakedns local_addr fake_remote_addr of
        Inl err \<Rightarrow> Inl err
      | Inr target_addr \<Rightarrow>
          if should_skip_address target_addr
          then Inl (io_err KOther
                 (show_arrow ''skipping private/reserved address'' (show_socket_addr local_addr) (address_display target_addr)))
          else Inr target_addr)"

definition relay_tcp_stream ::
    "('n \<Rightarrow> bytes) \<Rightarrow> (address \<Rightarrow> 'u io_result) \<Rightarrow> ('u \<Rightarrow> (io_error \<times> copy_bidirectional_stats) + copy_bidirectional_stats) \<Rightarrow>
     tun_config \<Rightarrow> 'n fake_dns \<Rightarrow> socket_addr \<Rightarrow> socket_addr \<Rightarrow> unit io_result" where
  "relay_tcp_stream to_utf8 open_bidi relay config fakedns local_addr fake_remote_addr =
     (case tunnel_target to_utf8 config fakedns local_addr fake_remote_addr of
        Inl err \<Rightarrow> Inl err
      | Inr target_addr \<Rightarrow>
          (case open_bidi target_addr of
             Inl err \<Rightarrow> Inl err
           | Inr remote_stream \<Rightarrow>
               (case relay remote_stream of Inr stats \<Rightarrow> Inr () | Inl (err, stats) \<Rightarrow> Inl err)))"

section \<open>UDP\<close>

record stack_packet =
  sp_data :: bytes
  sp_src :: socket_addr
  sp_dst :: socket_addr

datatype flow_phase = FlowRunning | FlowBroken | FlowDone

record tun_flow =
  fl_local :: socket_addr
  fl_remote :: socket_addr
  fl_queue :: "datagram_msg list"
  fl_phase :: flow_phase
  fl_target :: "address option"
  fl_sent :: "datagram_msg list"
  fl_send_bytes :: u64
  fl_recv_bytes :: u64

text \<open>\<open>tun_out\<close> is what has been given to the writer of the stack; it is a history, as
  is \<open>fl_sent\<close>, what a flow has passed to \<open>send_to\<close> of its session.\<close>

record 'n tun_udp =
  tun_fakedns :: "'n fake_dns"
  active_sessions :: "socket_addr \<Rightarrow> nat option"
  tun_flows :: "nat \<Rightarrow> tun_flow option"
  next_flow :: nat
  tun_out :: "stack_packet list"

definition tun_udp_new :: "'n fake_dns \<Rightarrow> 'n tun_udp" where
  "tun_udp_new fakedns =
     \<lparr>tun_fakedns = fakedns, active_sessions = Map.empty, tun_flows = Map.empty, next_flow = 0, tun_out = []\<rparr>"

text \<open>What the endpoint takes from elsewhere: the DNS codec, the printing of names, the shard of a key in a \<open>DashMap\<close>.\<close>

record 'n tun_env =
  dns_parse :: "bytes \<Rightarrow> 'n dns_message option"
  dns_to_vec :: "'n dns_message \<Rightarrow> bytes option"
  name_to_utf8 :: "'n \<Rightarrow> bytes"
  shard_of :: "socket_addr \<Rightarrow> nat"

text \<open>The result of \<open>SplitWrite::send\<close>: it fails for two address families, and when the stack is gone.\<close>

definition write_packet :: "bool \<Rightarrow> stack_packet \<Rightarrow> 'n tun_udp \<Rightarrow> bool \<times> 'n tun_udp" where
  "write_packet stack_alive p s =
     (if stack_alive then (True, s\<lparr>tun_out := tun_out s @ [p]\<rparr>) else (False, s))"

definition handle_dns_query_packet :: "'n tun_env \<Rightarrow> bool \<Rightarrow> stack_packet \<Rightarrow> 'n tun_udp \<Rightarrow> 'n tun_udp" where
  "handle_dns_query_packet env stack_alive packet s =
     (case handle_dns_query (dns_parse env) (sp_data packet) (tun_fakedns s) of
        (None, fd) \<Rightarrow> s\<lparr>tun_fakedns := fd\<rparr>
      | (Some response_message, fd) \<Rightarrow>
          (case dns_to_vec env response_message of
             None \<Rightarrow> s\<lparr>tun_fakedns := fd\<rparr>
           | Some response_bytes \<Rightarrow>
               snd (write_packet stack_alive \<lparr>sp_data = response_bytes, sp_src = sp_dst packet, sp_dst = sp_src packet\<rparr>
                      (s\<lparr>tun_fakedns := fd\<rparr>))))"

definition flow_new :: "socket_addr \<Rightarrow> socket_addr \<Rightarrow> datagram_msg \<Rightarrow> tun_flow" where
  "flow_new local_addr fake_remote_addr m =
     \<lparr>fl_local = local_addr, fl_remote = fake_remote_addr, fl_queue = [m], fl_phase = FlowRunning, fl_target = None,
      fl_sent = [], fl_send_bytes = 0, fl_recv_bytes = 0\<rparr>"

text \<open>
  \<open>handle_udp_data_packet\<close>; \<open>None\<close> when it does not return: it waits while the channel of the flow is full, and
  creating a channel of capacity 0 panics.
\<close>

definition handle_udp_data_packet ::
    "'n tun_env \<Rightarrow> tun_config \<Rightarrow> stack_packet \<Rightarrow> 'n tun_udp \<Rightarrow> (unit io_result \<times> 'n tun_udp) option" where
  "handle_udp_data_packet env config packet s =
     (let local_addr = sp_src packet; fake_remote_addr = sp_dst packet
      in case tunnel_target (name_to_utf8 env) config (tun_fakedns s) local_addr fake_remote_addr of
           Inl err \<Rightarrow> Some (Inl err, s)
         | Inr target_addr \<Rightarrow>
             (case active_sessions s local_addr of
                Some f \<Rightarrow>
                  (case tun_flows s f of
                     None \<Rightarrow> None
                   | Some fl \<Rightarrow>
                       if fl_phase fl = FlowDone
                       then Some (Inr (), s\<lparr>active_sessions := (active_sessions s)(local_addr := None)\<rparr>)
                       else if length (fl_queue fl) < udp_session_channel_capacity config
                       then Some (Inr (), s\<lparr>tun_flows := (tun_flows s)
                              (f \<mapsto> fl\<lparr>fl_queue := fl_queue fl @ [(sp_data packet, target_addr)]\<rparr>)\<rparr>)
                       else None)
              | None \<Rightarrow>
                  if udp_session_channel_capacity config = 0 then None
                  else Some (Inr (), s\<lparr>active_sessions := (active_sessions s)(local_addr \<mapsto> next_flow s),
                              tun_flows := (tun_flows s)
                                (next_flow s \<mapsto> flow_new local_addr fake_remote_addr (sp_data packet, target_addr)),
                              next_flow := Suc (next_flow s)\<rparr>)))"

text \<open>The body of the loop of \<open>process_incoming_udp_packets\<close> for one packet.\<close>

definition process_udp_packet :: "'n tun_env \<Rightarrow> tun_config \<Rightarrow> bool \<Rightarrow> stack_packet \<Rightarrow> 'n tun_udp \<Rightarrow> 'n tun_udp option" where
  "process_udp_packet env config stack_alive packet s =
     (if sa_port (sp_dst packet) = 53 then Some (handle_dns_query_packet env stack_alive packet s)
      else if disable_udp_443 config \<and> sa_port (sp_dst packet) = 443 then Some s
      else map_option snd (handle_udp_data_packet env config packet s))"

text \<open>The branches of the loop of \<open>relay_udp_flow\<close>, and what follows it.\<close>

definition flow_send :: "tun_flow \<Rightarrow> tun_flow option" where
  "flow_send fl =
     (case fl_queue fl of
        [] \<Rightarrow> None
      | (payload, addr) # rest \<Rightarrow>
          Some (fl\<lparr>fl_queue := rest,
                  fl_target := (case fl_target fl of None \<Rightarrow> Some addr | Some t \<Rightarrow> Some t),
                  fl_send_bytes := fl_send_bytes fl + word_of_nat (length payload),
                  fl_sent := fl_sent fl @ [(payload, addr)]\<rparr>))"

definition flow_recv :: "bool \<Rightarrow> bytes \<Rightarrow> tun_flow \<Rightarrow> 'n tun_udp \<Rightarrow> tun_flow \<times> 'n tun_udp" where
  "flow_recv stack_alive payload fl s =
     (let (ok, s1) = write_packet stack_alive \<lparr>sp_data = payload, sp_src = fl_remote fl, sp_dst = fl_local fl\<rparr> s
      in (fl\<lparr>fl_recv_bytes := fl_recv_bytes fl + word_of_nat (length payload),
            fl_phase := (if ok then FlowRunning else FlowBroken)\<rparr>, s1))"

datatype tun_event =
    TunPacket bool stack_packet
  | FlowSend nat
  | FlowRecv nat bool bytes address
  | FlowIdle nat
  | FlowRemove nat

definition with_flow :: "nat \<Rightarrow> flow_phase \<Rightarrow> 'n tun_udp \<Rightarrow> (tun_flow \<Rightarrow> 'n tun_udp option) \<Rightarrow> 'n tun_udp option" where
  "with_flow f ph s k =
     (case tun_flows s f of None \<Rightarrow> None | Some fl \<Rightarrow> if fl_phase fl = ph then k fl else None)"

definition tun_step :: "'n tun_env \<Rightarrow> tun_config \<Rightarrow> tun_event \<Rightarrow> 'n tun_udp \<Rightarrow> 'n tun_udp option" where
  "tun_step env config e s =
     (case e of
        TunPacket stack_alive packet \<Rightarrow> process_udp_packet env config stack_alive packet s
      | FlowSend f \<Rightarrow> with_flow f FlowRunning s (\<lambda>fl.
          map_option (\<lambda>fl'. s\<lparr>tun_flows := (tun_flows s)(f \<mapsto> fl')\<rparr>) (flow_send fl))
      | FlowRecv f stack_alive payload _ \<Rightarrow> with_flow f FlowRunning s (\<lambda>fl.
          (let (fl', s1) = flow_recv stack_alive payload fl s
           in Some (s1\<lparr>tun_flows := (tun_flows s1)(f \<mapsto> fl')\<rparr>)))
      | FlowIdle f \<Rightarrow> with_flow f FlowRunning s (\<lambda>fl.
          Some (s\<lparr>tun_flows := (tun_flows s)(f \<mapsto> fl\<lparr>fl_phase := FlowBroken\<rparr>)\<rparr>))
      | FlowRemove f \<Rightarrow> with_flow f FlowBroken s (\<lambda>fl.
          Some (s\<lparr>active_sessions := (active_sessions s)(fl_local fl := None),
                 tun_flows := (tun_flows s)(f \<mapsto> fl\<lparr>fl_phase := FlowDone\<rparr>)\<rparr>)))"

section \<open>The skipped addresses as address blocks\<close>

text \<open>A block of addresses: those that agree with a base address on the first bits.\<close>

definition in_block :: "ipv4_addr \<Rightarrow> nat \<Rightarrow> ipv4_addr \<Rightarrow> bool" where
  "in_block base len ip \<longleftrightarrow> drop_bit (32 - len) (u32_from_v4 ip) = drop_bit (32 - len) (u32_from_v4 base)"

definition skipped_blocks :: "(ipv4_addr \<times> nat) list" where
  "skipped_blocks =
     [(Ipv4 10 0 0 0, 8), (Ipv4 172 16 0 0, 12), (Ipv4 192 168 0 0, 16), (Ipv4 127 0 0 0, 8), (Ipv4 169 254 0 0, 16),
      (Ipv4 224 0 0 0, 4), (Ipv4 255 255 255 255, 32), (Ipv4 192 0 2 0, 24), (Ipv4 198 51 100 0, 24),
      (Ipv4 203 0 113 0, 24), (Ipv4 0 0 0 0, 8), (Ipv4 100 64 0 0, 10), (Ipv4 192 0 0 0, 24), (Ipv4 198 18 0 0, 15),
      (Ipv4 240 0 0 0, 8)]"

lemma bit_u32_from_v4:
  "n < 8 \<Longrightarrow> bit (u32_from_v4 (Ipv4 a b c d)) (24 + n) = bit a n"
  "n < 8 \<Longrightarrow> bit (u32_from_v4 (Ipv4 a b c d)) (16 + n) = bit b n"
  "n < 8 \<Longrightarrow> bit (u32_from_v4 (Ipv4 a b c d)) (8 + n) = bit c n"
  "n < 8 \<Longrightarrow> bit (u32_from_v4 (Ipv4 a b c d)) n = bit d n"
  by (auto simp: bit_simps dest: bit_imp_le_length)

lemma drop_bit_eq_iff:
  fixes x y :: "'w :: len word"
  shows "drop_bit k x = drop_bit k y \<longleftrightarrow> (\<forall>n. k \<le> n \<longrightarrow> n < LENGTH('w) \<longrightarrow> bit x n = bit y n)"
proof
  assume e: "drop_bit k x = drop_bit k y"
  show "\<forall>n. k \<le> n \<longrightarrow> n < LENGTH('w) \<longrightarrow> bit x n = bit y n"
  proof (intro allI impI)
    fix n assume "k \<le> n" "n < LENGTH('w)"
    then show "bit x n = bit y n" using arg_cong [OF e, of "\<lambda>w. bit w (n - k)"] by (simp add: bit_drop_bit_eq)
  qed
next
  assume e: "\<forall>n. k \<le> n \<longrightarrow> n < LENGTH('w) \<longrightarrow> bit x n = bit y n"
  show "drop_bit k x = drop_bit k y"
  proof (rule bit_word_eqI)
    fix n assume "n < LENGTH('w)"
    show "bit (drop_bit k x) n = bit (drop_bit k y) n"
      using e bit_imp_le_length [of x "k + n"] bit_imp_le_length [of y "k + n"] by (auto simp: bit_drop_bit_eq)
  qed
qed

text \<open>Octet by octet: the bits of the mask that fall into each of the four.\<close>

lemma in_block_octets:
  assumes "len \<le> 32"
  shows "in_block (Ipv4 a' b' c' d') len (Ipv4 a b c d) \<longleftrightarrow>
    drop_bit (8 - len) a = drop_bit (8 - len) a' \<and> drop_bit (8 - (len - 8)) b = drop_bit (8 - (len - 8)) b' \<and>
    drop_bit (8 - (len - 16)) c = drop_bit (8 - (len - 16)) c' \<and> drop_bit (8 - (len - 24)) d = drop_bit (8 - (len - 24)) d'"
    (is "?l = ?r")
proof
  let ?x = "u32_from_v4 (Ipv4 a b c d)" and ?y = "u32_from_v4 (Ipv4 a' b' c' d')"
  assume ?l
  then have e: "32 - len \<le> n \<Longrightarrow> n < 32 \<Longrightarrow> bit ?x n = bit ?y n" for n
    unfolding in_block_def drop_bit_eq_iff by simp
  show ?r unfolding drop_bit_eq_iff
  proof (intro conjI allI impI)
    fix n assume n: "8 - len \<le> n" "n < LENGTH(8)"
    then show "bit a n = bit a' n" using e [of "24 + n"] bit_u32_from_v4(1) [of n] assms by simp
  next
    fix n assume n: "8 - (len - 8) \<le> n" "n < LENGTH(8)"
    then show "bit b n = bit b' n" using e [of "16 + n"] bit_u32_from_v4(2) [of n] assms by simp
  next
    fix n assume n: "8 - (len - 16) \<le> n" "n < LENGTH(8)"
    then show "bit c n = bit c' n" using e [of "8 + n"] bit_u32_from_v4(3) [of n] assms by simp
  next
    fix n assume n: "8 - (len - 24) \<le> n" "n < LENGTH(8)"
    then show "bit d n = bit d' n" using e [of n] bit_u32_from_v4(4) [of n] assms by simp
  qed
next
  let ?x = "u32_from_v4 (Ipv4 a b c d)" and ?y = "u32_from_v4 (Ipv4 a' b' c' d')"
  assume r: ?r
  have "bit ?x n = bit ?y n" if n: "32 - len \<le> n" "n < 32" for n
  proof -
    consider "n < 8" | "8 \<le> n" "n < 16" | "16 \<le> n" "n < 24" | "24 \<le> n" "n < 32" using n(2) by linarith
    then show ?thesis
    proof cases
      case 1
      then show ?thesis using r n bit_u32_from_v4(4) [of n] unfolding drop_bit_eq_iff by simp
    next
      case 2
      then show ?thesis using r n bit_u32_from_v4(3) [of "n - 8"] unfolding drop_bit_eq_iff by simp
    next
      case 3
      then show ?thesis using r n bit_u32_from_v4(2) [of "n - 16"] unfolding drop_bit_eq_iff by simp
    next
      case 4
      then show ?thesis using r n bit_u32_from_v4(1) [of "n - 24"] unfolding drop_bit_eq_iff by simp
    qed
  qed
  then show ?l unfolding in_block_def drop_bit_eq_iff by simp
qed

lemma u8_eq_unat: "x = y \<longleftrightarrow> unat x = unat (y :: u8)"
  by (simp add: word_eq_iff_unsigned)

lemma unat_u8_lt: "unat (x :: u8) < 256"
  using unsigned_less [of x] by simp

lemma octet_ranges:
  fixes x :: u8
  shows "drop_bit 4 x = 1 \<longleftrightarrow> 16 \<le> x \<and> x \<le> 31"
    and "drop_bit 6 x = 1 \<longleftrightarrow> 64 \<le> x \<and> x \<le> 127"
    and "drop_bit (Suc 0) x = 9 \<longleftrightarrow> x = 18 \<or> x = 19"
    and "drop_bit 4 x = 14 \<longleftrightarrow> 224 \<le> x \<and> x \<le> 239"
    and "drop_bit 8 x = 0"
proof -
  note r = u8_eq_unat word_le_nat_alt unat_drop_bit_eq drop_bit_eq_div unat_div_distrib
  note l = unat_u8_lt [of x]
  show "drop_bit 4 x = 1 \<longleftrightarrow> 16 \<le> x \<and> x \<le> 31" using l by (simp add: r) linarith
  show "drop_bit 6 x = 1 \<longleftrightarrow> 64 \<le> x \<and> x \<le> 127" using l by (simp add: r) linarith
  show "drop_bit (Suc 0) x = 9 \<longleftrightarrow> x = 18 \<or> x = 19" using l by (simp add: r) linarith
  show "drop_bit 4 x = 14 \<longleftrightarrow> 224 \<le> x \<and> x \<le> 239" using l by (simp add: r) linarith
  show "drop_bit 8 x = 0" using l by (simp add: r)
qed

lemma v4_predicate_blocks:
  "v4_is_private ip \<longleftrightarrow>
     in_block (Ipv4 10 0 0 0) 8 ip \<or> in_block (Ipv4 172 16 0 0) 12 ip \<or> in_block (Ipv4 192 168 0 0) 16 ip"
  "v4_is_loopback ip \<longleftrightarrow> in_block (Ipv4 127 0 0 0) 8 ip"
  "v4_is_link_local ip \<longleftrightarrow> in_block (Ipv4 169 254 0 0) 16 ip"
  "v4_is_multicast ip \<longleftrightarrow> in_block (Ipv4 224 0 0 0) 4 ip"
  "v4_is_broadcast ip \<longleftrightarrow> in_block (Ipv4 255 255 255 255) 32 ip"
  "v4_is_documentation ip \<longleftrightarrow>
     in_block (Ipv4 192 0 2 0) 24 ip \<or> in_block (Ipv4 198 51 100 0) 24 ip \<or> in_block (Ipv4 203 0 113 0) 24 ip"
  "v4_octets_reserved ip \<longleftrightarrow>
     in_block (Ipv4 0 0 0 0) 8 ip \<or> in_block (Ipv4 100 64 0 0) 10 ip \<or> in_block (Ipv4 192 0 0 0) 24 ip \<or>
     in_block (Ipv4 198 18 0 0) 15 ip \<or> in_block (Ipv4 240 0 0 0) 8 ip"
  by (cases ip, simp add: in_block_octets octet_ranges conj_disj_distribL)+

lemma u16_eq_unat: "x = y \<longleftrightarrow> unat x = unat (y :: u16)"
  by (simp add: word_eq_iff_unsigned)

lemma masked_eq_iff:
  fixes a m v w :: u16
  assumes "m = NOT (mask k)" and "w = push_bit k v" and "drop_bit k w = v"
  shows "a AND m = w \<longleftrightarrow> unat a div 2 ^ k = unat v"
proof -
  have m: "a AND m = push_bit k (drop_bit k a)" unfolding assms(1) by (rule bit_word_eqI) (auto simp: bit_simps)
  have "drop_bit k (push_bit k (drop_bit k a)) = drop_bit k a"
    by (rule bit_word_eqI) (auto simp: bit_simps dest: bit_imp_le_length)
  then have "a AND m = w \<longleftrightarrow> drop_bit k a = v" unfolding m using assms(2,3) by metis
  then show ?thesis by (simp only: u16_eq_unat [of "drop_bit k a"] unat_drop_bit_eq) (simp only: drop_bit_eq_div)
qed

lemma segment_ranges:
  fixes a :: u16
  shows "a AND 0xfe00 = 0xfc00 \<longleftrightarrow> 0xfc00 \<le> a \<and> a \<le> 0xfdff"
    and "a AND 0xffc0 = 0xfe80 \<longleftrightarrow> 0xfe80 \<le> a \<and> a \<le> 0xfebf"
    and "a AND 0xff00 = 0xff00 \<longleftrightarrow> 0xff00 \<le> a"
proof -
  have l: "unat a < 65536" using unsigned_less [of a] by simp
  have 1: "a AND 0xfe00 = 0xfc00 \<longleftrightarrow> unat a div 2 ^ 9 = unat (0x7e :: u16)" by (rule masked_eq_iff; code_simp)
  show "a AND 0xfe00 = 0xfc00 \<longleftrightarrow> 0xfc00 \<le> a \<and> a \<le> 0xfdff"
    using l unfolding 1 by (simp add: word_le_nat_alt) linarith
  have 2: "a AND 0xffc0 = 0xfe80 \<longleftrightarrow> unat a div 2 ^ 6 = unat (0x3fa :: u16)" by (rule masked_eq_iff; code_simp)
  show "a AND 0xffc0 = 0xfe80 \<longleftrightarrow> 0xfe80 \<le> a \<and> a \<le> 0xfebf"
    using l unfolding 2 by (simp add: word_le_nat_alt) linarith
  have 3: "a AND 0xff00 = 0xff00 \<longleftrightarrow> unat a div 2 ^ 8 = unat (0xff :: u16)" by (rule masked_eq_iff; code_simp)
  show "a AND 0xff00 = 0xff00 \<longleftrightarrow> 0xff00 \<le> a"
    using l unfolding 3 by (simp add: word_le_nat_alt) linarith
qed

lemma should_skip_v4:
  "should_skip_address (SocketV4 sa) \<longleftrightarrow> (\<exists>(base, len) \<in> set skipped_blocks. in_block base len (v4_ip sa))"
  by (simp add: skipped_blocks_def v4_predicate_blocks)

text \<open>
  C37. Which addresses are never tunnelled. For IPv4 they are exactly the fifteen blocks of \<open>skipped_blocks\<close>: among
  them 240.0.0.0/8 alone of the reserved 240.0.0.0/4, so that 241.0.0.0 to 254.255.255.255 are tunnelled. For IPv6
  they are the two special addresses, multicast, fc00::/7, fe80::/10, 2001:db8::/32 and all of 100::/16.
\<close>

theorem skipped_addresses:
  "(should_skip_address (SocketV4 sa) \<longleftrightarrow> (\<exists>(base, len) \<in> set skipped_blocks. in_block base len (v4_ip sa))) \<and>
   (should_skip_address (SocketV6 \<lparr>v6_ip = Ipv6 a b c d e f g h, v6_port = p, v6_flowinfo = fi, v6_scope_id = sc\<rparr>) \<longleftrightarrow>
      [a, b, c, d, e, f, g] = replicate 7 0 \<and> h \<le> 1 \<or> 0xff00 \<le> a \<or> 0xfc00 \<le> a \<and> a \<le> 0xfdff \<or>
      0xfe80 \<le> a \<and> a \<le> 0xfebf \<or> a = 0x2001 \<and> b = 0xdb8 \<or> a = 0x100)"
proof
  show "should_skip_address (SocketV4 sa) \<longleftrightarrow> (\<exists>(base, len) \<in> set skipped_blocks. in_block base len (v4_ip sa))"
    by (rule should_skip_v4)
  have "h \<le> 1 \<longleftrightarrow> h = 0 \<or> h = 1"
  proof -
    have "unat h \<le> 1 \<longleftrightarrow> unat h = 0 \<or> unat h = 1" by linarith
    then show ?thesis by (simp add: word_le_nat_alt u16_eq_unat)
  qed
  then show "should_skip_address (SocketV6 \<lparr>v6_ip = Ipv6 a b c d e f g h, v6_port = p, v6_flowinfo = fi, v6_scope_id = sc\<rparr>) \<longleftrightarrow>
      [a, b, c, d, e, f, g] = replicate 7 0 \<and> h \<le> 1 \<or> 0xff00 \<le> a \<or> 0xfc00 \<le> a \<and> a \<le> 0xfdff \<or>
      0xfe80 \<le> a \<and> a \<le> 0xfebf \<or> a = 0x2001 \<and> b = 0xdb8 \<or> a = 0x100"
    by (simp add: segment_ranges numeral_eq_Suc, blast)
qed

section \<open>Flows\<close>

text \<open>
  The table and the flows agree: an entry leads to a flow of its own address that is not over, and every flow that
  is not over is in the table; so there is at most one for an address, and it is the newest of that address.
\<close>

definition tun_inv :: "'n tun_udp \<Rightarrow> bool" where
  "tun_inv s \<longleftrightarrow>
     (\<forall>f fl. tun_flows s f = Some fl \<longrightarrow> f < next_flow s) \<and>
     (\<forall>a f. active_sessions s a = Some f \<longrightarrow>
        (\<exists>fl. tun_flows s f = Some fl \<and> fl_local fl = a \<and> fl_phase fl \<noteq> FlowDone)) \<and>
     (\<forall>f fl. tun_flows s f = Some fl \<and> fl_phase fl \<noteq> FlowDone \<longrightarrow> active_sessions s (fl_local fl) = Some f) \<and>
     (\<forall>a f g fl. active_sessions s a = Some f \<and> tun_flows s g = Some fl \<and> fl_local fl = a \<longrightarrow> g \<le> f)"

lemma tun_invD:
  assumes "tun_inv s"
  shows "tun_flows s f = Some fl \<Longrightarrow> f < next_flow s"
    and "active_sessions s a = Some f \<Longrightarrow> \<exists>fl. tun_flows s f = Some fl \<and> fl_local fl = a \<and> fl_phase fl \<noteq> FlowDone"
    and "tun_flows s f = Some fl \<Longrightarrow> fl_phase fl \<noteq> FlowDone \<Longrightarrow> active_sessions s (fl_local fl) = Some f"
    and "active_sessions s a = Some f \<Longrightarrow> tun_flows s g = Some fl \<Longrightarrow> fl_local fl = a \<Longrightarrow> g \<le> f"
  using assms unfolding tun_inv_def by blast+

lemma tun_inv_new: "tun_inv (tun_udp_new fd)"
  by (simp add: tun_inv_def tun_udp_new_def)

lemma tun_inv_cong:
  assumes "tun_flows t = tun_flows s" and "active_sessions t = active_sessions s" and "next_flow t = next_flow s"
  shows "tun_inv t = tun_inv s"
  by (simp add: tun_inv_def assms)

lemma tun_invI:
  assumes "\<And>f fl. tun_flows s f = Some fl \<Longrightarrow> f < next_flow s"
    and "\<And>a f. active_sessions s a = Some f \<Longrightarrow>
           \<exists>fl. tun_flows s f = Some fl \<and> fl_local fl = a \<and> fl_phase fl \<noteq> FlowDone"
    and "\<And>f fl. tun_flows s f = Some fl \<Longrightarrow> fl_phase fl \<noteq> FlowDone \<Longrightarrow> active_sessions s (fl_local fl) = Some f"
    and "\<And>f g fl. tun_flows s g = Some fl \<Longrightarrow> active_sessions s (fl_local fl) = Some f \<Longrightarrow> g \<le> f"
  shows "tun_inv s"
  unfolding tun_inv_def using assms by blast

text \<open>A step on a flow that leaves it in the table.\<close>

lemma tun_inv_update:
  assumes inv: "tun_inv s" and fl: "tun_flows s f = Some fl" and same: "fl_local fl' = fl_local fl"
    and live: "fl_phase fl' \<noteq> FlowDone" "fl_phase fl \<noteq> FlowDone"
    and t: "tun_flows t = (tun_flows s)(f \<mapsto> fl')" "active_sessions t = active_sessions s" "next_flow t = next_flow s"
  shows "tun_inv t"
proof (rule tun_invI, unfold t)
  note d = tun_invD [OF inv]
  { fix g gl assume g: "((tun_flows s)(f \<mapsto> fl')) g = Some gl"
    then obtain gl0 where g0: "tun_flows s g = Some gl0" "fl_local gl = fl_local gl0"
      "fl_phase gl \<noteq> FlowDone \<Longrightarrow> fl_phase gl0 \<noteq> FlowDone"
      using fl same live by (cases "g = f") auto
    show "g < next_flow s" using d(1) [OF g0(1)] .
    show "fl_phase gl \<noteq> FlowDone \<Longrightarrow> active_sessions s (fl_local gl) = Some g" using d(3) [OF g0(1)] g0(2,3) by simp
    show "active_sessions s (fl_local gl) = Some h \<Longrightarrow> g \<le> h" for h using d(4) [OF _ g0(1)] g0(2) by simp }
  fix a h assume "active_sessions s a = Some h"
  then show "\<exists>gl. ((tun_flows s)(f \<mapsto> fl')) h = Some gl \<and> fl_local gl = a \<and> fl_phase gl \<noteq> FlowDone"
    using d(2) [of a h] fl same live by (cases "h = f") auto
qed

lemma tun_inv_remove:
  assumes inv: "tun_inv s" and fl: "tun_flows s f = Some fl" and live: "fl_phase fl \<noteq> FlowDone"
  shows "tun_inv (s\<lparr>active_sessions := (active_sessions s)(fl_local fl := None),
                    tun_flows := (tun_flows s)(f \<mapsto> fl\<lparr>fl_phase := FlowDone\<rparr>)\<rparr>)" (is "tun_inv ?t")
proof (rule tun_invI)
  note d = tun_invD [OF inv]
  have act: "active_sessions s (fl_local fl) = Some f" using d(3) [OF fl live] .
  { fix g gl assume g: "tun_flows ?t g = Some gl"
    then obtain gl0 where g0: "tun_flows s g = Some gl0" "fl_local gl = fl_local gl0"
      "fl_phase gl \<noteq> FlowDone \<Longrightarrow> fl_phase gl0 \<noteq> FlowDone \<and> g \<noteq> f"
      using fl live by (cases "g = f") auto
    show "g < next_flow ?t" using d(1) [OF g0(1)] by simp
    show "active_sessions ?t (fl_local gl) = Some h \<Longrightarrow> g \<le> h" for h
      using d(4) [OF _ g0(1)] g0(2) by (simp split: if_splits)
    show "active_sessions ?t (fl_local gl) = Some g" if l: "fl_phase gl \<noteq> FlowDone"
    proof -
      have a: "active_sessions s (fl_local gl) = Some g" using d(3) [OF g0(1)] g0(2,3) l by simp
      then have "fl_local gl \<noteq> fl_local fl" using act g0(3) l by auto
      with a show ?thesis by simp
    qed }
  fix a h assume "active_sessions ?t a = Some h"
  then have a: "active_sessions s a = Some h" "a \<noteq> fl_local fl" by (auto split: if_splits)
  from d(2) [OF a(1)] a(2) fl show "\<exists>gl. tun_flows ?t h = Some gl \<and> fl_local gl = a \<and> fl_phase gl \<noteq> FlowDone"
    by (cases "h = f") auto
qed

lemma tun_inv_create:
  assumes inv: "tun_inv s" and none: "active_sessions s a = None"
  shows "tun_inv (s\<lparr>active_sessions := (active_sessions s)(a \<mapsto> next_flow s),
                    tun_flows := (tun_flows s)(next_flow s \<mapsto> flow_new a r m), next_flow := Suc (next_flow s)\<rparr>)" (is "tun_inv ?t")
proof (rule tun_invI)
  note d = tun_invD [OF inv]
  have old: "tun_flows s f = Some fl \<Longrightarrow> f \<noteq> next_flow s" for f fl using d(1) by fastforce
  { fix g gl assume g: "tun_flows ?t g = Some gl"
    show "g < next_flow ?t" using g d(1) [of g gl] by (auto split: if_splits)
    show "active_sessions ?t (fl_local gl) = Some h \<Longrightarrow> g \<le> h" for h
      using g d(1) [of g gl] d(4) [of "fl_local gl" h g gl] by (auto simp: flow_new_def split: if_splits)
    show "active_sessions ?t (fl_local gl) = Some g" if l: "fl_phase gl \<noteq> FlowDone"
      using g d(3) [of g gl] l none by (auto simp: flow_new_def split: if_splits) }
  fix b h assume "active_sessions ?t b = Some h"
  then show "\<exists>gl. tun_flows ?t h = Some gl \<and> fl_local gl = b \<and> fl_phase gl \<noteq> FlowDone"
    using d(2) [of b h] old by (auto simp: flow_new_def split: if_splits)
qed

section \<open>What is accepted is what is forwarded\<close>

text \<open>What a flow has forwarded and holds, and what the flows of a local address have together, oldest first.\<close>

definition flow_msgs :: "'n tun_udp \<Rightarrow> socket_addr \<Rightarrow> nat \<Rightarrow> datagram_msg list" where
  "flow_msgs s a f =
     (case tun_flows s f of None \<Rightarrow> [] | Some fl \<Rightarrow> if fl_local fl = a then fl_sent fl @ fl_queue fl else [])"

definition forwarded :: "'n tun_udp \<Rightarrow> socket_addr \<Rightarrow> datagram_msg list" where
  "forwarded s a = concat (map (flow_msgs s a) [0..<next_flow s])"

text \<open>The packets of a local address that the endpoint accepts for the tunnel, with the target each is for.\<close>

definition offered :: "'n tun_env \<Rightarrow> tun_config \<Rightarrow> 'n tun_udp \<Rightarrow> socket_addr \<Rightarrow> tun_event \<Rightarrow> datagram_msg list" where
  "offered env config s a e =
     (case e of
        TunPacket _ p \<Rightarrow>
          if sp_src p = a \<and> sa_port (sp_dst p) \<noteq> 53 \<and> \<not> (disable_udp_443 config \<and> sa_port (sp_dst p) = 443)
          then (case tunnel_target (name_to_utf8 env) config (tun_fakedns s) (sp_src p) (sp_dst p) of
                  Inl _ \<Rightarrow> [] | Inr t \<Rightarrow> [(sp_data p, t)])
          else []
      | _ \<Rightarrow> [])"

fun all_offered :: "'n tun_env \<Rightarrow> tun_config \<Rightarrow> tun_event list \<Rightarrow> 'n tun_udp \<Rightarrow> socket_addr \<Rightarrow> datagram_msg list" where
  "all_offered env config [] s a = []"
| "all_offered env config (e # es) s a =
     offered env config s a e @ (case tun_step env config e s of None \<Rightarrow> [] | Some s' \<Rightarrow> all_offered env config es s' a)"

lemma concat_map_snoc_at:
  assumes "f < n" and "\<And>g. f < g \<Longrightarrow> g < n \<Longrightarrow> h g = []" and "h' = h(f := h f @ ms)"
  shows "concat (map h' [0..<n]) = concat (map h [0..<n]) @ ms"
proof -
  have split: "[0..<n] = [0..<f] @ f # [Suc f..<n]" using assms(1) by (metis le_add1 less_imp_le upt_add_eq_append upt_conv_Cons le_add_diff_inverse add_0)
  have 1: "concat (map h [Suc f..<n]) = []" and 2: "concat (map h' [Suc f..<n]) = []" using assms(2,3) by auto
  have 3: "map h' [0..<f] = map h [0..<f]" using assms(3) by auto
  have 4: "h' f = h f @ ms" using assms(3) by simp
  show ?thesis unfolding split by (simp only: map_append list.map concat_append concat.simps 1 2 3 4 append_assoc append_Nil2)
qed

lemma forwarded_cong:
  "tun_flows t = tun_flows s \<Longrightarrow> next_flow t = next_flow s \<Longrightarrow> forwarded t a = forwarded s a"
  by (simp add: forwarded_def flow_msgs_def [abs_def])

lemma forwarded_same_msgs:
  assumes "tun_flows s f = Some fl" and "fl_local fl' = fl_local fl" and "fl_sent fl' @ fl_queue fl' = fl_sent fl @ fl_queue fl"
    and "tun_flows t = (tun_flows s)(f \<mapsto> fl')" and "next_flow t = next_flow s"
  shows "forwarded t a = forwarded s a"
proof -
  have "flow_msgs t a = flow_msgs s a" using assms by (auto simp: flow_msgs_def fun_eq_iff)
  then show ?thesis by (simp add: forwarded_def assms(5))
qed

lemma forwarded_push:
  assumes inv: "tun_inv s" and act: "active_sessions s l = Some f" and fl: "tun_flows s f = Some fl"
    and t: "tun_flows t = (tun_flows s)(f \<mapsto> fl\<lparr>fl_queue := fl_queue fl @ [m]\<rparr>)" "next_flow t = next_flow s"
  shows "forwarded t a = forwarded s a @ (if l = a then [m] else [])"
proof -
  note d = tun_invD [OF inv]
  have l: "fl_local fl = l" using d(2) [OF act] fl by auto
  show ?thesis
  proof (cases "l = a")
    case True
    have "forwarded t a = concat (map (flow_msgs s a) [0..<next_flow s]) @ [m]"
      unfolding forwarded_def t
    proof (rule concat_map_snoc_at)
      show "f < next_flow s" using d(1) [OF fl] .
      show "flow_msgs t a = (flow_msgs s a)(f := flow_msgs s a f @ [m])"
        using fl l True by (auto simp: flow_msgs_def t fun_eq_iff)
      fix g assume "f < g" then show "flow_msgs s a g = []"
        using d(4) [OF act, of g] True by (auto simp: flow_msgs_def split: option.split)
    qed
    with True show ?thesis by (simp add: forwarded_def)
  next
    case False
    then have "flow_msgs t a = flow_msgs s a" using fl l by (auto simp: flow_msgs_def t fun_eq_iff)
    with False show ?thesis by (simp add: forwarded_def t)
  qed
qed

lemma forwarded_create:
  assumes inv: "tun_inv s"
    and t: "tun_flows t = (tun_flows s)(next_flow s \<mapsto> flow_new l r m)" "next_flow t = Suc (next_flow s)"
  shows "forwarded t a = forwarded s a @ (if l = a then [m] else [])"
proof -
  have 1: "map (flow_msgs t a) [0..<next_flow s] = map (flow_msgs s a) [0..<next_flow s]"
    by (auto simp: flow_msgs_def t)
  have 2: "flow_msgs t a (next_flow s) = (if l = a then [m] else [])" by (simp add: flow_msgs_def t flow_new_def)
  have 3: "[0..<Suc (next_flow s)] = [0..<next_flow s] @ [next_flow s]" by simp
  show ?thesis
    unfolding forwarded_def t 3
    by (simp only: map_append list.map concat_append concat.simps 1 2 append_Nil2)
qed

text \<open>Every step keeps the invariant and forwards what it was offered; it never finds the channel of an entry closed.\<close>

lemma handle_udp_data_packet_ok:
  assumes inv: "tun_inv s" and h: "handle_udp_data_packet env config p s = Some (r, s')"
  shows "tun_inv s' \<and>
    forwarded s' a = forwarded s a @
      (if sp_src p = a
       then (case tunnel_target (name_to_utf8 env) config (tun_fakedns s) (sp_src p) (sp_dst p) of Inl _ \<Rightarrow> [] | Inr t \<Rightarrow> [(sp_data p, t)])
       else [])"
proof (cases "tunnel_target (name_to_utf8 env) config (tun_fakedns s) (sp_src p) (sp_dst p)")
  case (Inl e)
  with h inv show ?thesis by (auto simp: handle_udp_data_packet_def Let_def)
next
  case (Inr t)
  show ?thesis
  proof (cases "active_sessions s (sp_src p)")
    case (Some f)
    then obtain fl where fl: "tun_flows s f = Some fl" "fl_phase fl \<noteq> FlowDone"
      using tun_invD(2) [OF inv Some] by blast
    with h Some Inr have s': "s' = s\<lparr>tun_flows := (tun_flows s)(f \<mapsto> fl\<lparr>fl_queue := fl_queue fl @ [(sp_data p, t)]\<rparr>)\<rparr>"
      by (auto simp: handle_udp_data_packet_def Let_def split: if_splits)
    have "tun_inv s'" by (rule tun_inv_update [OF inv fl(1)]) (use fl in \<open>simp_all add: s'\<close>)
    moreover have "forwarded s' a = forwarded s a @ (if sp_src p = a then [(sp_data p, t)] else [])"
      by (rule forwarded_push [OF inv Some fl(1)]) (simp_all add: s')
    ultimately show ?thesis using Inr by auto
  next
    case None
    with h Inr have s': "s' = s\<lparr>active_sessions := (active_sessions s)(sp_src p \<mapsto> next_flow s),
        tun_flows := (tun_flows s)(next_flow s \<mapsto> flow_new (sp_src p) (sp_dst p) (sp_data p, t)),
        next_flow := Suc (next_flow s)\<rparr>"
      by (auto simp: handle_udp_data_packet_def Let_def split: if_splits)
    have "tun_inv s'" unfolding s' by (rule tun_inv_create [OF inv None])
    moreover have "forwarded s' a = forwarded s a @ (if sp_src p = a then [(sp_data p, t)] else [])"
      by (rule forwarded_create [OF inv]) (simp_all add: s')
    ultimately show ?thesis using Inr by auto
  qed
qed

lemma handle_dns_query_packet_frame:
  "tun_flows (handle_dns_query_packet env al p s) = tun_flows s"
  "active_sessions (handle_dns_query_packet env al p s) = active_sessions s"
  "next_flow (handle_dns_query_packet env al p s) = next_flow s"
  by (auto simp: handle_dns_query_packet_def write_packet_def split: option.split prod.split)

lemma tun_step_ok:
  assumes inv: "tun_inv s" and st: "tun_step env config e s = Some s'"
  shows "tun_inv s' \<and> forwarded s' a = forwarded s a @ offered env config s a e"
proof (cases e)
  case (TunPacket al p)
  consider "sa_port (sp_dst p) = 53" | "sa_port (sp_dst p) \<noteq> 53" "disable_udp_443 config \<and> sa_port (sp_dst p) = 443"
    | "sa_port (sp_dst p) \<noteq> 53" "\<not> (disable_udp_443 config \<and> sa_port (sp_dst p) = 443)" by blast
  then show ?thesis
  proof cases
    case 1
    with st TunPacket have s': "s' = handle_dns_query_packet env al p s" by (simp add: tun_step_def process_udp_packet_def)
    show ?thesis
      using inv 1 TunPacket tun_inv_cong [of s' s] forwarded_cong [of s' s a]
      by (simp add: s' handle_dns_query_packet_frame offered_def)
  next
    case 2
    with st TunPacket inv show ?thesis by (simp add: tun_step_def process_udp_packet_def offered_def)
  next
    case 3
    with st TunPacket obtain r where "handle_udp_data_packet env config p s = Some (r, s')"
      by (auto simp: tun_step_def process_udp_packet_def split: if_splits)
    from handle_udp_data_packet_ok [OF inv this, of a] 3 TunPacket show ?thesis by (simp add: offered_def)
  qed
next
  case (FlowSend f)
  then obtain fl m ms where fl: "tun_flows s f = Some fl" "fl_phase fl = FlowRunning" "fl_queue fl = m # ms"
    using st by (auto simp: tun_step_def with_flow_def flow_send_def split: option.splits if_splits list.splits)
  define fl' where "fl' = the (flow_send fl)"
  have same: "fl_local fl' = fl_local fl" "fl_sent fl' @ fl_queue fl' = fl_sent fl @ fl_queue fl" "fl_phase fl' = FlowRunning"
    using fl by (auto simp: fl'_def flow_send_def split: prod.split)
  have s': "s' = s\<lparr>tun_flows := (tun_flows s)(f \<mapsto> fl')\<rparr>"
    using st FlowSend fl by (auto simp: tun_step_def with_flow_def fl'_def flow_send_def split: prod.splits)
  have "tun_inv s'" by (rule tun_inv_update [OF inv fl(1) same(1)]) (use fl same in \<open>simp_all add: s'\<close>)
  moreover have "forwarded s' a = forwarded s a"
    by (rule forwarded_same_msgs [OF fl(1) same(1,2)]) (simp_all add: s')
  ultimately show ?thesis using FlowSend by (simp add: offered_def)
next
  case (FlowRecv f al b src)
  then obtain fl where fl: "tun_flows s f = Some fl" "fl_phase fl = FlowRunning"
    using st by (auto simp: tun_step_def with_flow_def split: option.splits if_splits)
  define fl' where "fl' = fst (flow_recv al b fl s)"
  have same: "fl_local fl' = fl_local fl" "fl_sent fl' @ fl_queue fl' = fl_sent fl @ fl_queue fl" "fl_phase fl' \<noteq> FlowDone"
    by (auto simp: fl'_def flow_recv_def Let_def split: prod.split)
  have s': "tun_flows s' = (tun_flows s)(f \<mapsto> fl')" "active_sessions s' = active_sessions s" "next_flow s' = next_flow s"
    using st FlowRecv fl by (auto simp: tun_step_def with_flow_def fl'_def flow_recv_def write_packet_def split: if_splits)
  have "tun_inv s'" by (rule tun_inv_update [OF inv fl(1) same(1,3)]) (use fl in \<open>simp_all add: s'\<close>)
  moreover have "forwarded s' a = forwarded s a"
    by (rule forwarded_same_msgs [OF fl(1) same(1,2) s'(1,3)])
  ultimately show ?thesis using FlowRecv by (simp add: offered_def)
next
  case (FlowIdle f)
  then obtain fl where fl: "tun_flows s f = Some fl" "fl_phase fl = FlowRunning"
    and s': "s' = s\<lparr>tun_flows := (tun_flows s)(f \<mapsto> fl\<lparr>fl_phase := FlowBroken\<rparr>)\<rparr>"
    using st by (auto simp: tun_step_def with_flow_def split: option.splits if_splits)
  have "tun_inv s'" by (rule tun_inv_update [OF inv fl(1)]) (use fl in \<open>simp_all add: s'\<close>)
  moreover have "forwarded s' a = forwarded s a" by (rule forwarded_same_msgs [OF fl(1)]) (simp_all add: s')
  ultimately show ?thesis using FlowIdle by (simp add: offered_def)
next
  case (FlowRemove f)
  then obtain fl where fl: "tun_flows s f = Some fl" "fl_phase fl = FlowBroken"
    and s': "s' = s\<lparr>active_sessions := (active_sessions s)(fl_local fl := None),
        tun_flows := (tun_flows s)(f \<mapsto> fl\<lparr>fl_phase := FlowDone\<rparr>)\<rparr>"
    using st by (auto simp: tun_step_def with_flow_def split: option.splits if_splits)
  have "tun_inv s'" unfolding s' by (rule tun_inv_remove [OF inv fl(1)]) (simp add: fl)
  moreover have "forwarded s' a = forwarded s a" by (rule forwarded_same_msgs [OF fl(1)]) (simp_all add: s')
  ultimately show ?thesis using FlowRemove by (simp add: offered_def)
qed

interpretation tun_machine: invariant_machine "tun_step env config" tun_inv for env config
  by unfold_locales (use tun_step_ok in blast)

lemma run_forwarded:
  "tun_inv s \<Longrightarrow> run_steps (tun_step env config) es s = Some t \<Longrightarrow>
   forwarded t a = forwarded s a @ all_offered env config es s a"
proof (induction es arbitrary: s)
  case (Cons e es)
  then obtain s1 where s1: "tun_step env config e s = Some s1" "run_steps (tun_step env config) es s1 = Some t"
    by (auto split: option.splits)
  with tun_step_ok [OF Cons.prems(1) s1(1), of a] Cons.IH [of s1] show ?case by simp
qed simp

section \<open>Properties\<close>

text \<open>
  C19. Whatever the tasks do and in whatever order, what the flows of a local address have sent and what is left in their
  queues is exactly what the endpoint accepted from that address, once each, in order and with the target chosen for its
  own destination: the only packets that can be lost are those in the queue of a flow that has ended. At most one flow
  of a local address is running.
\<close>

theorem udp_flows_forward:
  assumes "run_steps (tun_step env config) es (tun_udp_new fd) = Some s"
  shows "(\<forall>a. forwarded s a = all_offered env config es (tun_udp_new fd) a) \<and>
    (\<forall>f g fl gl. tun_flows s f = Some fl \<and> tun_flows s g = Some gl \<and> fl_local fl = fl_local gl \<and>
       fl_phase fl \<noteq> FlowDone \<and> fl_phase gl \<noteq> FlowDone \<longrightarrow> f = g)"
proof
  have "forwarded (tun_udp_new fd) a = []" for a by (simp add: forwarded_def tun_udp_new_def)
  then show "\<forall>a. forwarded s a = all_offered env config es (tun_udp_new fd) a"
    using run_forwarded [OF tun_inv_new assms] by simp
  have inv: "tun_inv s" using tun_machine.run_inv [OF tun_inv_new assms] .
  show "\<forall>f g fl gl. tun_flows s f = Some fl \<and> tun_flows s g = Some gl \<and> fl_local fl = fl_local gl \<and>
      fl_phase fl \<noteq> FlowDone \<and> fl_phase gl \<noteq> FlowDone \<longrightarrow> f = g"
    using tun_invD(3) [OF inv] by (metis option.inject)
qed


text \<open>
  A flow answers with the destination of the packet that created it: when a local socket sends to two
  destinations, an answer that comes back from the second one is handed to it as coming from the first.
\<close>

theorem udp_reply_source:
  assumes "tunnel_target (name_to_utf8 env) config fd a dst1 = Inr t1" and "tunnel_target (name_to_utf8 env) config fd a dst2 = Inr t2"
    and "sa_port dst1 \<notin> {53, 443}" and "sa_port dst2 \<notin> {53, 443}" and "2 \<le> udp_session_channel_capacity config"
  shows "map_option tun_out
      (run_steps (tun_step env config)
         [TunPacket True \<lparr>sp_data = x, sp_src = a, sp_dst = dst1\<rparr>, TunPacket True \<lparr>sp_data = y, sp_src = a, sp_dst = dst2\<rparr>,
          FlowSend 0, FlowSend 0, FlowRecv 0 True answer source] (tun_udp_new fd)) =
    Some [\<lparr>sp_data = answer, sp_src = dst1, sp_dst = a\<rparr>]"
proof -
  have "0 < udp_session_channel_capacity config" "Suc 0 < udp_session_channel_capacity config" using assms(5) by linarith+
  with assms(1-4) show ?thesis
    by (simp add: tun_step_def process_udp_packet_def handle_udp_data_packet_def tun_udp_new_def flow_new_def with_flow_def
        flow_send_def flow_recv_def write_packet_def Let_def)
qed

section \<open>Witnesses\<close>

definition tiny_config :: tun_config where
  "tiny_config = \<lparr>fakedns_cidr = tiny_net, udp_idle_timeout = 60, udp_session_channel_capacity = 2, disable_udp_443 = True\<rparr>"

definition tiny_env :: "u8 tun_env" where
  "tiny_env = \<lparr>dns_parse = tiny_query, dns_to_vec = (\<lambda>m. Some []), name_to_utf8 = (\<lambda>n. [n]), shard_of = (\<lambda>_. 0)\<rparr>"

definition tiny_host :: "u8 \<Rightarrow> u16 \<Rightarrow> socket_addr" where
  "tiny_host x p = SAV4 \<lparr>v4_ip = Ipv4 8 8 8 x, v4_port = p\<rparr>"

lemma tiny_target: "tunnel_target to_utf8 tiny_config (fake_dns_new tiny_net) a (tiny_host x p) = Inr (SocketV4 \<lparr>v4_ip = Ipv4 8 8 8 x, v4_port = p\<rparr>)"
  by (simp add: tunnel_target_def choose_target_def tiny_host_def get_domain_by_ip_def fake_dns_new_def tiny_config_def tiny_net_def)

theorem udp_flows_forward_witness:
  "\<exists>s. run_steps (tun_step tiny_env tiny_config)
        [TunPacket True \<lparr>sp_data = [1], sp_src = tiny_host 1 9, sp_dst = tiny_host 2 80\<rparr>, FlowSend 0,
         TunPacket True \<lparr>sp_data = [2], sp_src = tiny_host 1 9, sp_dst = tiny_host 3 80\<rparr>] (tun_udp_new (fake_dns_new tiny_net)) = Some s \<and>
      forwarded s (tiny_host 1 9) =
        [([1], SocketV4 \<lparr>v4_ip = Ipv4 8 8 8 2, v4_port = 80\<rparr>), ([2], SocketV4 \<lparr>v4_ip = Ipv4 8 8 8 3, v4_port = 80\<rparr>)]"
proof -
  let ?es = "[TunPacket True \<lparr>sp_data = [1], sp_src = tiny_host 1 9, sp_dst = tiny_host 2 80\<rparr>, FlowSend 0,
         TunPacket True \<lparr>sp_data = [2], sp_src = tiny_host 1 9, sp_dst = tiny_host 3 80\<rparr>]"
  have port: "sa_port (tiny_host x p) = p" for x p by (simp add: tiny_host_def)
  have cap: "udp_session_channel_capacity tiny_config = 2" by (simp add: tiny_config_def)
  note ev = tun_step_def process_udp_packet_def handle_udp_data_packet_def tun_udp_new_def flow_new_def with_flow_def
    flow_send_def Let_def tiny_target port cap
  obtain s where s: "run_steps (tun_step tiny_env tiny_config) ?es (tun_udp_new (fake_dns_new tiny_net)) = Some s"
    by (simp add: ev)
  have "all_offered tiny_env tiny_config ?es (tun_udp_new (fake_dns_new tiny_net)) (tiny_host 1 9) =
      [([1], SocketV4 \<lparr>v4_ip = Ipv4 8 8 8 2, v4_port = 80\<rparr>), ([2], SocketV4 \<lparr>v4_ip = Ipv4 8 8 8 3, v4_port = 80\<rparr>)]"
    by (simp add: ev offered_def)
  with udp_flows_forward [OF s] s show ?thesis by metis
qed


theorem udp_reply_source_witness:
  "map_option tun_out
      (run_steps (tun_step tiny_env tiny_config)
         [TunPacket True \<lparr>sp_data = [], sp_src = tiny_host 1 9, sp_dst = tiny_host 2 80\<rparr>,
          TunPacket True \<lparr>sp_data = [], sp_src = tiny_host 1 9, sp_dst = tiny_host 3 80\<rparr>,
          FlowSend 0, FlowSend 0, FlowRecv 0 True [5] (SocketV4 \<lparr>v4_ip = Ipv4 8 8 8 3, v4_port = 80\<rparr>)]
         (tun_udp_new (fake_dns_new tiny_net))) =
    Some [\<lparr>sp_data = [5], sp_src = tiny_host 2 80, sp_dst = tiny_host 1 9\<rparr>]"
  by (rule udp_reply_source [OF tiny_target tiny_target]) (simp_all add: tiny_host_def tiny_config_def)

end
