(* ===== verification/Services.thy ===== *)
theory Services
  imports Quic_Transport Server_Config Tun Metrics
begin

text \<open>
  The two services: \<open>crates/ombrac-client/src/service.rs\<close> and \<open>crates/ombrac-server/src/service.rs\<close>. They turn a loaded
  configuration into the configuration of the transport, decide which endpoints run, and wait for streams at shutdown.
  Name resolution and everything that \<open>quinn\<close> does are arguments.
\<close>

datatype service_error = SIo io_error | SConfig string | SQuic quic_error | SEndpoint string

definition require_config :: "'a option \<Rightarrow> string \<Rightarrow> service_error + 'a" where
  "require_config config_opt field_name =
     ok_or config_opt (SConfig (CHR 0x27 # field_name @ CHR 0x27 # '' is required but was not provided''))"

lemma require_config_Inr_iff [simp]: "require_config x n = Inr v \<longleftrightarrow> x = Some v"
  by (simp add: require_config_def)

section \<open>The client's transport\<close>

text \<open>The server's name: configured, or what stands before the last colon of the server's address.\<close>

definition client_server_name :: "client_config \<Rightarrow> bytes io_result" where
  "client_server_name config =
     (case ct_server_name (cfg_transport config) of
        Some value \<Rightarrow> Inr value
      | None \<Rightarrow>
          (case rsplit_once 0x3A (cfg_server config) of
             None \<Rightarrow> Inl (io_err KInvalidInput (''invalid server address: '' @ text_of (cfg_server config)))
           | Some (host, _) \<Rightarrow> Inr host))"

definition client_tls_settings :: "client_transport_config \<Rightarrow> quic_client_config \<Rightarrow> quic_client_config io_result" where
  "client_tls_settings t qc =
     (case unwrap_or (ct_tls_mode t) Tls of
        Tls \<Rightarrow> (case ct_ca_cert t of Some ca \<Rightarrow> Inr (qc\<lparr>qc_root_ca_path := Some ca\<rparr>) | None \<Rightarrow> Inr qc)
      | MTls \<Rightarrow>
          and_then (ok_or (ct_ca_cert t) (io_err KInvalidInput ''ca cert is required for mutual tls mode'')) (\<lambda>ca.
          and_then (ok_or (ct_client_cert t) (io_err KInvalidInput ''client cert is required for mutual tls mode'')) (\<lambda>cert.
          and_then (ok_or (ct_client_key t) (io_err KInvalidInput ''client key is required for mutual tls mode'')) (\<lambda>key.
            Inr (qc\<lparr>qc_root_ca_path := Some ca, qc_client_cert_key_paths := Some (cert, key)\<rparr>))))
      | Insecure \<Rightarrow> Inr (qc\<lparr>qc_skip_server_verification := True\<rparr>))"

definition optionally :: "'a option \<Rightarrow> ('a \<Rightarrow> 't \<Rightarrow> quic_error + 't) \<Rightarrow> 't \<Rightarrow> io_error + 't" where
  "optionally x f t =
     (case x of None \<Rightarrow> Inr t | Some v \<Rightarrow> (case f v t of Inl e \<Rightarrow> Inl (io_from_quic_error e) | Inr t' \<Rightarrow> Inr t'))"

definition client_transport_settings ::
    "(u64 \<Rightarrow> quic_error option) \<Rightarrow> client_transport_config \<Rightarrow> quic_transport_config io_result" where
  "client_transport_settings varint t =
     and_then (optionally (ct_idle_timeout t) (set_max_idle_timeout varint) quic_transport_default) (\<lambda>q1.
     and_then (optionally (ct_keep_alive t) set_keep_alive_period q1) (\<lambda>q2.
     and_then (optionally (ct_max_streams t) (set_max_open_bidirectional_streams varint) q2) (\<lambda>q3.
       optionally (ct_congestion t) (\<lambda>c. set_congestion c (ct_cwnd_init t)) q3)))"

definition quic_client_from_config ::
    "(bytes \<Rightarrow> socket_addr list io_result) \<Rightarrow> (u64 \<Rightarrow> quic_error option) \<Rightarrow> client_config \<Rightarrow> quic_client_config io_result" where
  "quic_client_from_config lookup_host varint config =
     and_then (client_server_name config) (\<lambda>server_name.
     and_then (lookup_host (cfg_server config)) (\<lambda>addrs.
     and_then (case addrs of
                 [] \<Rightarrow> Inl (io_err KNotFound (''failed to resolve server address: '' @ [CHR 0x27] @ text_of (cfg_server config) @ [CHR 0x27]))
               | server_addr # _ \<Rightarrow> Inr server_addr) (\<lambda>server_addr.
       let t = cfg_transport config;
           qc = quic_client_config_new server_addr server_name;
           qc1 = qc\<lparr>qc_enable_zero_rtt := unwrap_or (ct_zero_rtt t) False\<rparr>;
           qc2 = (case ct_alpn_protocols t of Some protocols \<Rightarrow> qc1\<lparr>qc_alpn_protocols := protocols\<rparr> | None \<Rightarrow> qc1)
       in and_then (client_tls_settings t qc2) (\<lambda>qc3.
          and_then (client_transport_settings varint t) (\<lambda>q. Inr (qc3\<lparr>qc_transport := q\<rparr>))))))"

section \<open>The server's transport\<close>

definition server_tls_settings :: "server_transport_config \<Rightarrow> quic_server_config \<Rightarrow> service_error + quic_server_config" where
  "server_tls_settings t qs =
     (case get_tls_mode t of
        Tls \<Rightarrow>
          and_then (require_config (st_tls_cert t) ''transport.tls_cert'') (\<lambda>cert_path.
          and_then (require_config (st_tls_key t) ''transport.tls_key'') (\<lambda>key_path.
            Inr (qs\<lparr>qs_tls_cert_key_paths := Some (cert_path, key_path)\<rparr>)))
      | MTls \<Rightarrow>
          and_then (require_config (st_tls_cert t) ''transport.tls_cert for mTLS'') (\<lambda>cert_path.
          and_then (require_config (st_tls_key t) ''transport.tls_key for mTLS'') (\<lambda>key_path.
          and_then (require_config (st_ca_cert t) ''transport.ca_cert for mTLS'') (\<lambda>ca.
            Inr (qs\<lparr>qs_tls_cert_key_paths := Some (cert_path, key_path), qs_root_ca_path := Some ca\<rparr>))))
      | Insecure \<Rightarrow> Inr (qs\<lparr>qs_enable_self_signed := True\<rparr>))"

definition as_quic :: "quic_error + 'a \<Rightarrow> service_error + 'a" where
  "as_quic r = (case r of Inl e \<Rightarrow> Inl (SQuic e) | Inr x \<Rightarrow> Inr x)"

lemma as_quic_Inr_iff [simp]: "as_quic r = Inr x \<longleftrightarrow> r = Inr x"
  by (cases r) (auto simp: as_quic_def)

definition quic_server_from_config ::
    "(u64 \<Rightarrow> quic_error option) \<Rightarrow> server_config \<Rightarrow> service_error + quic_server_config" where
  "quic_server_from_config varint config =
     (let t = scfg_transport config;
          qs = quic_server_config_new\<lparr>qs_enable_zero_rtt := get_zero_rtt t, qs_alpn_protocols := get_alpn_protocols t\<rparr>
      in and_then (server_tls_settings t qs) (\<lambda>qs1.
         and_then (as_quic (set_max_idle_timeout varint (get_idle_timeout t) quic_transport_default)) (\<lambda>q1.
         and_then (as_quic (set_keep_alive_period (get_keep_alive t) q1)) (\<lambda>q2.
         and_then (as_quic (set_max_open_bidirectional_streams varint (get_max_streams t) q2)) (\<lambda>q3.
         and_then (as_quic (set_congestion (get_congestion t) (st_cwnd_init t) q3)) (\<lambda>q4.
           Inr (qs1\<lparr>qs_transport := q4\<rparr>)))))))"

section \<open>Endpoints\<close>

datatype endpoint_task = HttpEndpoint | SocksEndpoint | TunEndpoint

definition endpoint_tasks :: "endpoint_config \<Rightarrow> endpoint_task list" where
  "endpoint_tasks e =
     (if ep_http e \<noteq> None then [HttpEndpoint] else []) @
     (if ep_socks e \<noteq> None then [SocksEndpoint] else []) @
     (case ep_tun e of
        None \<Rightarrow> []
      | Some t \<Rightarrow> if tun_ipv4 t \<noteq> None \<or> tun_ipv6 t \<noteq> None \<or> tun_fd t \<noteq> None then [TunEndpoint] else [])"

text \<open>\<open>OmbracClient::build\<close>: \<open>connect\<close> is creating the transport and the authenticated client on it.\<close>

definition client_build ::
    "(quic_client_config \<Rightarrow> bytes \<Rightarrow> service_error + 'c) \<Rightarrow> (bytes \<Rightarrow> socket_addr list io_result) \<Rightarrow> (u64 \<Rightarrow> quic_error option) \<Rightarrow>
     client_config \<Rightarrow> service_error + ('c \<times> endpoint_task list)" where
  "client_build connect lookup_host varint config =
     (case quic_client_from_config lookup_host varint config of
        Inl e \<Rightarrow> Inl (SIo e)
      | Inr transport \<Rightarrow>
          and_then (connect transport (ascii (cfg_secret config))) (\<lambda>client.
            let handles = endpoint_tasks (cfg_endpoint config)
            in if handles = []
               then Inl (SConfig ''no endpoints were configured or enabled, the service has nothing to do.'')
               else Inr (client, handles)))"

text \<open>The settings of the TUN endpoint: defaults, and what the configuration has.\<close>

definition tun_endpoint_settings ::
    "(string \<Rightarrow> ipv4_net) \<Rightarrow> (string \<Rightarrow> string + ipv4_net) \<Rightarrow> client_tun_config \<Rightarrow> service_error + tun_config" where
  "tun_endpoint_settings default_net parse_net config =
     (let tun_config = tun_config_default default_net
      in and_then (case fake_dns config of
                     None \<Rightarrow> Inr tun_config
                   | Some value \<Rightarrow>
                       (case parse_net value of
                          Inl e \<Rightarrow> Inl (SConfig (''failed to parse fake_dns cidr '' @ [CHR 0x27] @ value @ [CHR 0x27] @ '': '' @ e))
                        | Inr net \<Rightarrow> Inr (tun_config\<lparr>fakedns_cidr := net\<rparr>)))
           (\<lambda>c. case ctun_disable_udp_443 config of
                   None \<Rightarrow> Inr c | Some value \<Rightarrow> Inr (c\<lparr>disable_udp_443 := value\<rparr>)))"

section \<open>Draining the server\<close>

text \<open>
  The loop of \<open>shutdown_with_drain\<close> on the ticks of its interval, each with the time and the counters it sees; \<open>None\<close>
  while it waits for the next tick.
\<close>

definition active_streams :: "metrics_snapshot \<Rightarrow> u64" where
  "active_streams snap =
     (if snap_streams_closed snap \<le> snap_streams_opened snap then snap_streams_opened snap - snap_streams_closed snap else 0)"

fun drain_loop :: "duration \<Rightarrow> (duration \<times> metrics_snapshot) list \<Rightarrow> bool option" where
  "drain_loop deadline [] = None"
| "drain_loop deadline ((now, snap) # ticks) =
     (if active_streams snap = 0 then Some True
      else if deadline \<le> now then Some False
      else drain_loop deadline ticks)"

definition DRAIN_INTERVAL :: duration where
  "DRAIN_INTERVAL = 50 * 1000000"

definition shutdown_with_drain :: "duration \<Rightarrow> duration \<Rightarrow> (duration \<times> metrics_snapshot) list \<Rightarrow> bool option" where
  "shutdown_with_drain start drain_timeout ticks = drain_loop (start + drain_timeout) ticks"

section \<open>From the configuration to TLS\<close>

lemma client_tls_settings_frame:
  assumes "client_tls_settings t qc = Inr qc'"
  shows "qc_bind_addr qc' = qc_bind_addr qc" and "qc_server_addr qc' = qc_server_addr qc" and "qc_server_name qc' = qc_server_name qc"
    and "qc_alpn_protocols qc' = qc_alpn_protocols qc" and "qc_enable_zero_rtt qc' = qc_enable_zero_rtt qc"
  using assms by (auto simp: client_tls_settings_def and_then_Inr_iff split: tls_mode.splits option.splits)

lemma client_tls_settings_modes:
  assumes "client_tls_settings t qc = Inr qc'"
    and "qc_root_ca_path qc = None" "qc_client_cert_key_paths qc = None" "\<not> qc_skip_server_verification qc"
  shows "qc_skip_server_verification qc' \<longleftrightarrow> unwrap_or (ct_tls_mode t) Tls = Insecure"
    and "qc_client_cert_key_paths qc' =
      (if unwrap_or (ct_tls_mode t) Tls = MTls then Some (the (ct_client_cert t), the (ct_client_key t)) else None)"
    and "qc_root_ca_path qc' = (if unwrap_or (ct_tls_mode t) Tls = Insecure then None else ct_ca_cert t)"
    and "unwrap_or (ct_tls_mode t) Tls = MTls \<Longrightarrow> ct_ca_cert t \<noteq> None"
  using assms by (auto simp: client_tls_settings_def and_then_Inr_iff split: tls_mode.splits option.splits)

lemma client_ignores_bind:
  "quic_client_from_config lookup_host varint (config\<lparr>cfg_transport := (cfg_transport config)\<lparr>ct_bind := any\<rparr>\<rparr>) =
   quic_client_from_config lookup_host varint config"
  unfolding quic_client_from_config_def client_server_name_def client_tls_settings_def client_transport_settings_def
  by (simp add: Let_def cong: option.case_cong list.case_cong tls_mode.case_cong prod.case_cong)

text \<open>
  C26. Which certificates the client checks and shows. The check of the server's certificate is switched off in the insecure
  mode and in no other; a client certificate is shown in mutual mode only, the configured one, and there the roots must be
  configured; otherwise they are the configured ones or those of \<open>webpki\<close>. The configured bind address is not used.
\<close>

theorem client_tls_modes:
  assumes "quic_client_from_config lookup_host varint config = Inr qc" and "build_client_tls env qc = Inr tls"
    and "t = cfg_transport config" and "mode = unwrap_or (ct_tls_mode t) Tls"
  shows "(ctls_null_verifier tls \<longleftrightarrow> mode = Insecure) \<and> (ctls_client_auth tls \<noteq> None \<longleftrightarrow> mode = MTls) \<and>
    (mode = MTls \<longrightarrow> (\<exists>certs key. load_certificates env (the (ct_client_cert t)) = Inr certs \<and>
       load_private_key env (the (ct_client_key t)) = Inr key \<and> ctls_client_auth tls = Some (certs, key))) \<and>
    (case (if mode = Insecure then None else ct_ca_cert t) of
       None \<Rightarrow> ctls_roots tls = WebpkiRoots \<and> mode \<noteq> MTls
     | Some ca \<Rightarrow> \<exists>roots. load_certificates env ca = Inr roots \<and> ctls_roots tls = RootsFrom roots) \<and>
    quic_client_from_config lookup_host varint (config\<lparr>cfg_transport := t\<lparr>ct_bind := any\<rparr>\<rparr>) = Inr qc \<and>
    sa_port (qc_bind_addr qc) = 0"
proof -
  obtain name addr qc2 qc3 q where qc2: "qc2 = (case ct_alpn_protocols t of
        Some protocols \<Rightarrow> quic_client_config_new addr name\<lparr>qc_enable_zero_rtt := unwrap_or (ct_zero_rtt t) False, qc_alpn_protocols := protocols\<rparr>
      | None \<Rightarrow> quic_client_config_new addr name\<lparr>qc_enable_zero_rtt := unwrap_or (ct_zero_rtt t) False\<rparr>)"
    and tls3: "client_tls_settings t qc2 = Inr qc3" and qc: "qc = qc3\<lparr>qc_transport := q\<rparr>"
    using assms(1,3) by (auto simp: quic_client_from_config_def and_then_Inr_iff Let_def)
  have fresh: "qc_root_ca_path qc2 = None" "qc_client_cert_key_paths qc2 = None" "\<not> qc_skip_server_verification qc2"
    and bind: "sa_port (qc_bind_addr qc2) = 0"
    by (auto simp: qc2 quic_client_config_new_def split: option.splits socket_addr.splits)
  note m = client_tls_settings_modes [OF tls3 fresh, folded assms(4)]
  note b = build_client_tls_spec [OF assms(2)]
  have same: "quic_client_from_config lookup_host varint (config\<lparr>cfg_transport := t\<lparr>ct_bind := any\<rparr>\<rparr>) = Inr qc"
    using assms(1) by (simp add: assms(3) client_ignores_bind)
  have null: "ctls_null_verifier tls \<longleftrightarrow> mode = Insecure" using b(1) m(1) by (simp add: qc)
  have auth: "if mode = MTls then \<exists>certs key. load_certificates env (the (ct_client_cert t)) = Inr certs \<and>
       load_private_key env (the (ct_client_key t)) = Inr key \<and> ctls_client_auth tls = Some (certs, key)
     else ctls_client_auth tls = None"
    using b(4) b(5) [of "the (ct_client_cert t)" "the (ct_client_key t)"] m(2) by (simp add: qc)
  have roots: "case (if mode = Insecure then None else ct_ca_cert t) of
       None \<Rightarrow> ctls_roots tls = WebpkiRoots \<and> mode \<noteq> MTls
     | Some ca \<Rightarrow> \<exists>roots. load_certificates env ca = Inr roots \<and> ctls_roots tls = RootsFrom roots"
    using b(6) b(7) m(3,4) by (auto simp: qc split: option.splits if_splits)
  have "sa_port (qc_bind_addr qc) = 0" using bind client_tls_settings_frame(1) [OF tls3] by (simp add: qc)
  with null auth roots same show ?thesis by (auto split: if_splits)
qed

text \<open>
  C27. Which certificates the server shows and checks. It verifies clients exactly in mutual mode, against the configured
  roots; it shows a certificate of its own making exactly in the insecure mode, and the configured chain with its key
  otherwise; in those two modes a missing path is an error and no server starts.
\<close>

theorem server_tls_modes:
  assumes "quic_server_from_config varint config = Inr qs" and "build_server_tls env qs = Inr tls"
    and "t = scfg_transport config"
  shows "(stls_client_roots tls \<noteq> None \<longleftrightarrow> get_tls_mode t = MTls) \<and>
    (get_tls_mode t = MTls \<longrightarrow> (\<exists>ca roots. st_ca_cert t = Some ca \<and> load_certificates env ca = Inr roots \<and> stls_client_roots tls = Some roots)) \<and>
    (if get_tls_mode t = Insecure
     then \<exists>cert key. ce_self_signed env = Inr (cert, key) \<and> stls_chain tls = [cert] \<and> stls_key tls = key
     else \<exists>cp kp. st_tls_cert t = Some cp \<and> st_tls_key t = Some kp \<and>
            load_certificates env cp = Inr (stls_chain tls) \<and> load_private_key env kp = Inr (stls_key tls)) \<and>
    stls_alpn tls = get_alpn_protocols t \<and> stls_half_rtt tls = get_zero_rtt t"
proof -
  define qs0 where "qs0 = quic_server_config_new\<lparr>qs_enable_zero_rtt := get_zero_rtt t, qs_alpn_protocols := get_alpn_protocols t\<rparr>"
  obtain qs1 q where t1: "server_tls_settings t qs0 = Inr qs1" and qs: "qs = qs1\<lparr>qs_transport := q\<rparr>"
    using assms(1,3) by (auto simp: quic_server_from_config_def and_then_Inr_iff Let_def qs0_def)
  note b = build_server_tls_spec [OF assms(2)]
  show ?thesis
  proof (cases "get_tls_mode t")
    case Tls
    with t1 obtain cp kp where p: "st_tls_cert t = Some cp" "st_tls_key t = Some kp"
      "qs1 = qs0\<lparr>qs_tls_cert_key_paths := Some (cp, kp)\<rparr>"
      by (auto simp: server_tls_settings_def and_then_Inr_iff)
    with b Tls show ?thesis by (auto simp: qs qs0_def quic_server_config_new_def)
  next
    case MTls
    with t1 obtain cp kp ca where p: "st_tls_cert t = Some cp" "st_tls_key t = Some kp" "st_ca_cert t = Some ca"
      "qs1 = qs0\<lparr>qs_tls_cert_key_paths := Some (cp, kp), qs_root_ca_path := Some ca\<rparr>"
      by (auto simp: server_tls_settings_def and_then_Inr_iff)
    with b(2) [of ca] b(4-6) MTls show ?thesis by (auto simp: qs qs0_def quic_server_config_new_def)
  next
    case Insecure
    with t1 have "qs1 = qs0\<lparr>qs_enable_self_signed := True\<rparr>" by (simp add: server_tls_settings_def)
    with b(1) b(3) b(5,6) Insecure show ?thesis by (auto simp: qs qs0_def quic_server_config_new_def)
  qed
qed

section \<open>Draining ends\<close>

lemma drain_loop_returns:
  "k < length ticks \<Longrightarrow> deadline \<le> fst (ticks ! k) \<Longrightarrow> \<exists>r. drain_loop deadline ticks = Some r"
proof (induction deadline ticks arbitrary: k rule: drain_loop.induct)
  case (2 deadline now snap ticks)
  show ?case
  proof (cases k)
    case 0
    with 2 show ?thesis by (simp add: ex_bool_eq)
  next
    case (Suc i)
    with 2 show ?thesis by auto
  qed
qed simp

lemma drain_loop_True:
  "drain_loop deadline ticks = Some True \<Longrightarrow> \<exists>(now, snap) \<in> set ticks. active_streams snap = 0"
  by (induction deadline ticks rule: drain_loop.induct) (auto split: if_splits)

lemma drain_loop_False:
  "drain_loop deadline ticks = Some False \<Longrightarrow>
     \<exists>k < length ticks. deadline \<le> fst (ticks ! k) \<and> (\<forall>j \<le> k. active_streams (snd (ticks ! j)) \<noteq> 0)"
proof (induction deadline ticks rule: drain_loop.induct)
  case (2 deadline now snap ticks)
  then have busy: "active_streams snap \<noteq> 0" by (auto split: if_splits)
  show ?case
  proof (cases "deadline \<le> now")
    case True
    with busy show ?thesis by (intro exI [of _ 0]) auto
  next
    case False
    with 2 busy obtain k where k: "k < length ticks" "deadline \<le> fst (ticks ! k)"
      "\<forall>j \<le> k. active_streams (snd (ticks ! j)) \<noteq> 0" by auto
    have "active_streams (snd (((now, snap) # ticks) ! j)) \<noteq> 0" if "j \<le> Suc k" for j
      using that k(3) busy by (cases j) auto
    with k(1,2) show ?thesis by (intro exI [of _ "Suc k"]) auto
  qed
qed simp

text \<open>
  Draining comes to an end: with ticks at least 50 milliseconds apart, it has returned after as many ticks as the timeout
  has intervals and two more. It returns \<open>true\<close> only if some tick saw no active stream, and \<open>false\<close> only if the time
  was up and every tick until then saw one.
\<close>

theorem drain_returns:
  assumes "\<forall>k < length ticks. start + k * DRAIN_INTERVAL \<le> fst (ticks ! k)" and "drain_timeout div DRAIN_INTERVAL + 2 \<le> length ticks"
  shows "(\<exists>r. shutdown_with_drain start drain_timeout ticks = Some r) \<and>
    (shutdown_with_drain start drain_timeout ticks = Some True \<longrightarrow> (\<exists>(now, snap) \<in> set ticks. active_streams snap = 0)) \<and>
    (shutdown_with_drain start drain_timeout ticks = Some False \<longrightarrow>
       (\<exists>k < length ticks. start + drain_timeout \<le> fst (ticks ! k) \<and> (\<forall>j \<le> k. active_streams (snd (ticks ! j)) \<noteq> 0)))"
proof (intro conjI impI)
  define n where "n = drain_timeout div DRAIN_INTERVAL + 1"
  have "drain_timeout < n * DRAIN_INTERVAL"
    using div_mult_mod_eq [of drain_timeout DRAIN_INTERVAL] mod_less_divisor [of DRAIN_INTERVAL drain_timeout]
    by (simp add: n_def DRAIN_INTERVAL_def)
  moreover have n: "n < length ticks" using assms(2) by (simp add: n_def)
  ultimately have "start + drain_timeout \<le> fst (ticks ! n)" using assms(1) by (auto intro: order_trans [of _ "start + n * DRAIN_INTERVAL"])
  then show "\<exists>r. shutdown_with_drain start drain_timeout ticks = Some r"
    unfolding shutdown_with_drain_def by (rule drain_loop_returns [OF n])
qed (simp_all add: shutdown_with_drain_def drain_loop_True drain_loop_False)

theorem drain_returns_witness:
  "\<exists>ticks. shutdown_with_drain 0 (60 * 1000000) ticks = Some False"
proof -
  define busy where "busy = snapshot (metrics_new\<lparr>streams_opened := 1\<rparr>)"
  define ticks where "ticks = [(1::nat, busy), (50000001, busy), (100000002, busy)]"
  have "\<forall>k < length ticks. 0 + k * DRAIN_INTERVAL \<le> fst (ticks ! k)"
    by (auto simp: ticks_def DRAIN_INTERVAL_def less_Suc_eq)
  moreover have "60 * 1000000 div DRAIN_INTERVAL + 2 \<le> length ticks" by (simp add: ticks_def DRAIN_INTERVAL_def)
  ultimately obtain r where "shutdown_with_drain 0 (60 * 1000000) ticks = Some r"
    and r: "r \<longrightarrow> (\<exists>(now, snap) \<in> set ticks. active_streams snap = 0)"
    using drain_returns [of ticks 0 "60 * 1000000"] by auto
  moreover have "active_streams busy \<noteq> 0" by (simp add: busy_def active_streams_def snapshot_def snapshot_at_def metrics_new_def)
  ultimately show ?thesis by (auto simp: ticks_def)
qed

section \<open>Witnesses\<close>

definition tiny_certs :: "(u8, u8) cert_env" where
  "tiny_certs =
     \<lparr>ce_read = (\<lambda>_. Inr [5]), ce_is_der = (\<lambda>_. True), ce_der_cert = hd, ce_der_key = hd, ce_pem_certs = (\<lambda>_. Inr []),
      ce_pem_key = (\<lambda>_. Inr None), ce_chain_ok = (\<lambda>_ _. None), ce_verifier_ok = (\<lambda>_. None), ce_self_signed = Inr (1, 2)\<rparr>"

definition tiny_client :: client_config where
  "tiny_client =
     \<lparr>cfg_secret = ''s'', cfg_server = ascii ''a:1'', cfg_auth_option = None, cfg_endpoint = endpoint_default,
      cfg_transport = client_transport_default\<lparr>ct_server_name := Some [97], ct_tls_mode := Some MTls, ct_ca_cert := Some ''r'',
        ct_client_cert := Some ''c'', ct_client_key := Some ''k''\<rparr>,
      cfg_logging = logging_default\<rparr>"

definition tiny_server :: server_config where
  "tiny_server =
     \<lparr>scfg_secret = ''s'', scfg_listen = SAV4 \<lparr>v4_ip = Ipv4 0 0 0 0, v4_port = 443\<rparr>,
      scfg_transport = server_transport_default\<lparr>st_tls_mode := Some MTls, st_ca_cert := Some ''r'', st_tls_cert := Some ''c'', st_tls_key := Some ''k''\<rparr>,
      scfg_connection = connection_default, scfg_logging = logging_default\<rparr>"

theorem client_tls_modes_witness:
  "\<exists>qc tls. quic_client_from_config (\<lambda>_. Inr [SAV4 \<lparr>v4_ip = Ipv4 1 2 3 4, v4_port = 1\<rparr>]) (\<lambda>_. None) tiny_client = Inr qc \<and>
     build_client_tls tiny_certs qc = Inr tls \<and> ctls_client_auth tls \<noteq> None \<and> \<not> ctls_null_verifier tls"
proof -
  let ?q = "quic_client_from_config (\<lambda>_. Inr [SAV4 \<lparr>v4_ip = Ipv4 1 2 3 4, v4_port = 1\<rparr>]) (\<lambda>_. None) tiny_client"
  obtain qc where qc: "?q = Inr qc"
    by (simp add: quic_client_from_config_def client_server_name_def client_tls_settings_def client_transport_settings_def optionally_def
        tiny_client_def client_transport_default_def set_max_idle_timeout_def set_keep_alive_period_def
        set_max_open_bidirectional_streams_def set_congestion_def Let_def and_then_def ok_or_def)
  obtain tls where tls: "build_client_tls tiny_certs qc = Inr tls"
    by (cases "qc_root_ca_path qc"; cases "qc_client_cert_key_paths qc")
      (auto simp: build_client_tls_def tiny_certs_def load_certificates_def load_private_key_def and_then_def via_io_def check_def)
  from client_tls_modes [OF qc tls refl refl] have "(ctls_null_verifier tls \<longleftrightarrow> unwrap_or (ct_tls_mode (cfg_transport tiny_client)) Tls = Insecure) \<and>
    (ctls_client_auth tls \<noteq> None \<longleftrightarrow> unwrap_or (ct_tls_mode (cfg_transport tiny_client)) Tls = MTls)" by blast
  with qc tls show ?thesis by (simp add: tiny_client_def)
qed

theorem server_tls_modes_witness:
  "\<exists>qs tls. quic_server_from_config (\<lambda>_. None) tiny_server = Inr qs \<and> build_server_tls tiny_certs qs = Inr tls \<and>
     stls_client_roots tls = Some [5] \<and> stls_chain tls = [5]"
proof -
  obtain qs where qs: "quic_server_from_config (\<lambda>_. None) tiny_server = Inr qs" and c: "qs_tls_cert_key_paths qs = Some (''c'', ''k'')"
    "\<not> qs_enable_self_signed qs"
    by (simp add: quic_server_from_config_def server_tls_settings_def tiny_server_def server_transport_default_def
        set_max_idle_timeout_def set_keep_alive_period_def set_max_open_bidirectional_streams_def set_congestion_def Let_def
        and_then_def ok_or_def require_config_def as_quic_def get_tls_mode_def quic_server_config_new_def)
  obtain tls where tls: "build_server_tls tiny_certs qs = Inr tls"
    using c by (cases "qs_root_ca_path qs")
      (auto simp: build_server_tls_def tiny_certs_def load_certificates_def load_private_key_def and_then_def via_io_def check_def ok_or_def)
  have m: "get_tls_mode (scfg_transport tiny_server) = MTls" "st_ca_cert (scfg_transport tiny_server) = Some ''r''"
    "st_tls_cert (scfg_transport tiny_server) = Some ''c''"
    by (simp_all add: tiny_server_def get_tls_mode_def)
  have l: "load_certificates tiny_certs p = Inr [5]" for p by (simp add: tiny_certs_def load_certificates_def and_then_def)
  from server_tls_modes [OF qs tls refl] have "stls_client_roots tls = Some [5]" "stls_chain tls = [5]" by (auto simp: m l)
  with qs tls show ?thesis by blast
qed

end
