(* ===== verification/Quic_Endpoint.thy ===== *)
theory Quic_Endpoint
  imports Quic_Transport Machine
begin

text \<open>
  The two ends of the QUIC transport: creating the endpoints and connecting (\<open>crates/ombrac-transport/src/quic/client.rs\<close>),
  the accept loop of the server with its bounded channel (\<open>server.rs\<close>), what a connection offers to the tunnels
  (\<open>mod.rs\<close>) and the two halves of a stream (\<open>stream.rs\<close>). What \<open>quinn\<close>, \<open>rustls\<close> and the sockets do are arguments;
  \<open>async_channel\<close> and the \<open>watch\<close> channel are modelled by their documented behaviour.
\<close>

section \<open>Creating an endpoint\<close>

text \<open>
  What both sides take from outside: binding a UDP socket, the runtime, wrapping the socket and the endpoint of \<open>quinn\<close> on it,
  and the checks of the TLS settings by \<open>quinn\<close>.
\<close>

record ('c, 'k, 'u, 'e) quinn_env =
  qe_certs :: "('c, 'k) cert_env"
  qe_bind :: "socket_addr \<Rightarrow> 'u io_result"
  qe_runtime :: bool
  qe_wrap :: "'u \<Rightarrow> 'u io_result"
  qe_endpoint :: "'u \<Rightarrow> 'e io_result"
  qe_client_crypto :: "('c, 'k) client_tls \<Rightarrow> quic_error option"
  qe_server_crypto :: "('c, 'k) server_tls \<Rightarrow> quic_error option"

definition quinn_endpoint :: "string \<Rightarrow> ('c, 'k, 'u, 'e) quinn_env \<Rightarrow> 'u \<Rightarrow> quic_error + 'e" where
  "quinn_endpoint no_runtime env socket =
     and_then (via_io (if qe_runtime env then Inr () else Inl (io_err KOther no_runtime))) (\<lambda>_.
     and_then (via_io (qe_wrap env socket)) (\<lambda>abstract_socket. via_io (qe_endpoint env abstract_socket)))"

section \<open>The client\<close>

definition build_client_config ::
    "('c, 'k, 'u, 'e) quinn_env \<Rightarrow> quic_client_config \<Rightarrow> quic_error + (('c, 'k) client_tls \<times> quic_transport_config)" where
  "build_client_config env config =
     and_then (build_client_tls (qe_certs env) config) (\<lambda>tls.
     check (qe_client_crypto env tls) (tls, qc_transport config))"

record ('c, 'k, 'e) quic_client =
  qcl_config :: quic_client_config
  qcl_endpoint :: 'e
  qcl_default :: "('c, 'k) client_tls \<times> quic_transport_config"

definition quic_client_new ::
    "('c, 'k, 'u, 'e) quinn_env \<Rightarrow> quic_client_config \<Rightarrow> quic_error + ('c, 'k, 'e) quic_client" where
  "quic_client_new env config =
     and_then (via_io (qe_bind env (qc_bind_addr config))) (\<lambda>socket.
     and_then (build_client_config env config) (\<lambda>client_config.
     and_then (quinn_endpoint ''no async runtime found'' env socket) (\<lambda>endpoint.
       Inr \<lparr>qcl_config = config, qcl_endpoint = endpoint, qcl_default = client_config\<rparr>)))"

text \<open>\<open>swap\<close> is \<open>Endpoint::rebind\<close>.\<close>

definition quic_client_rebind ::
    "('c, 'k, 'u, 'e) quinn_env \<Rightarrow> ('e \<Rightarrow> 'u \<Rightarrow> 'e io_result) \<Rightarrow> ('c, 'k, 'e) quic_client \<Rightarrow> quic_error + ('c, 'k, 'e) quic_client" where
  "quic_client_rebind env swap c =
     and_then (via_io (qe_bind env (qc_bind_addr (qcl_config c)))) (\<lambda>socket.
     and_then (via_io (swap (qcl_endpoint c) socket)) (\<lambda>endpoint. Inr (c\<lparr>qcl_endpoint := endpoint\<rparr>)))"

text \<open>
  A connection being made: what \<open>into_0rtt\<close> gives, the connection and whether the server has accepted the early data, if there
  are keys of an earlier session; and what the handshake gives.
\<close>

record 'n connecting =
  co_zero_rtt :: "('n \<times> bool) option"
  co_handshake :: "string + 'n"

definition await_handshake :: "'n connecting \<Rightarrow> quic_error + 'n" where
  "await_handshake connecting = (case co_handshake connecting of Inl e \<Rightarrow> Inl (QuinnConnection e) | Inr conn \<Rightarrow> Inr conn)"

definition quic_client_connect ::
    "('e \<Rightarrow> socket_addr \<Rightarrow> bytes \<Rightarrow> string + 'n connecting) \<Rightarrow> ('c, 'k, 'e) quic_client \<Rightarrow> quic_error + 'n" where
  "quic_client_connect start c =
     (let config = qcl_config c
      in case start (qcl_endpoint c) (qc_server_addr config) (qc_server_name config) of
           Inl e \<Rightarrow> Inl (QuinnConnect e)
         | Inr connecting \<Rightarrow>
             if qc_enable_zero_rtt config
             then (case co_zero_rtt connecting of
                     Some (conn, is_accepted) \<Rightarrow> Inr conn
                   | None \<Rightarrow> await_handshake connecting)
             else await_handshake connecting)"

text \<open>\<open>Initiator\<close>: every error becomes one of the kind \<open>Other\<close>.\<close>

definition error_other :: "quic_error + 'a \<Rightarrow> 'a io_result" where
  "error_other r = (case r of Inl e \<Rightarrow> Inl (io_err KOther (quic_error_text e)) | Inr x \<Rightarrow> Inr x)"

definition initiator_connect ::
    "('e \<Rightarrow> socket_addr \<Rightarrow> bytes \<Rightarrow> string + 'n connecting) \<Rightarrow> ('c, 'k, 'e) quic_client \<Rightarrow> 'n io_result" where
  "initiator_connect start c = error_other (quic_client_connect start c)"

definition initiator_rebind ::
    "('c, 'k, 'u, 'e) quinn_env \<Rightarrow> ('e \<Rightarrow> 'u \<Rightarrow> 'e io_result) \<Rightarrow> ('c, 'k, 'e) quic_client \<Rightarrow> ('c, 'k, 'e) quic_client io_result" where
  "initiator_rebind env swap c = error_other (quic_client_rebind env swap c)"

section \<open>Connections and streams\<close>

datatype ('s, 'r) quic_stream = QuicStream (send_half: 's) (recv_half: 'r)

definition quic_accept_bidirectional ::
    "(connection_error \<Rightarrow> string) \<Rightarrow> quinn_connection_error + ('s \<times> 'r) \<Rightarrow> ('s, 'r) quic_stream io_result" where
  "quic_accept_bidirectional message accept_bi =
     (case accept_bi of
        Inl e \<Rightarrow> Inl (io_from_connection_error message (ConnErr e))
      | Inr (send, recv) \<Rightarrow> Inr (QuicStream send recv))"

definition quic_open_bidirectional ::
    "(connection_error \<Rightarrow> string) \<Rightarrow> quinn_connection_error + ('s \<times> 'r) \<Rightarrow> ('s, 'r) quic_stream io_result" where
  "quic_open_bidirectional message open_bi =
     (case open_bi of
        Inl e \<Rightarrow> Inl (io_from_connection_error message (ConnErr e))
      | Inr (send, recv) \<Rightarrow> Inr (QuicStream send recv))"

definition quic_read_datagram :: "(connection_error \<Rightarrow> string) \<Rightarrow> quinn_connection_error + bytes \<Rightarrow> bytes io_result" where
  "quic_read_datagram message received =
     (case received of Inl e \<Rightarrow> Inl (io_from_connection_error message (ConnErr e)) | Inr data \<Rightarrow> Inr data)"

definition quic_send_datagram :: "(connection_error \<Rightarrow> string) \<Rightarrow> quinn_send_datagram_error option \<Rightarrow> unit io_result" where
  "quic_send_datagram message failure =
     (case failure of Some e \<Rightarrow> Inl (io_from_connection_error message (SendErr e)) | None \<Rightarrow> Inr ())"

text \<open>A stream reads from its receiving half, and writes, flushes and shuts down the sending one.\<close>

definition stream_poll_read :: "('r \<Rightarrow> 'p \<times> 'r) \<Rightarrow> ('s, 'r) quic_stream \<Rightarrow> 'p \<times> ('s, 'r) quic_stream" where
  "stream_poll_read poll stream = (let (p, recv) = poll (recv_half stream) in (p, QuicStream (send_half stream) recv))"

definition stream_poll_write :: "('s \<Rightarrow> 'p \<times> 's) \<Rightarrow> ('s, 'r) quic_stream \<Rightarrow> 'p \<times> ('s, 'r) quic_stream" where
  "stream_poll_write poll stream = (let (p, send) = poll (send_half stream) in (p, QuicStream send (recv_half stream)))"

lemma stream_halves_independent:
  "stream_poll_read f stream = (p, stream1) \<Longrightarrow> stream_poll_write g stream1 = (q, stream2) \<Longrightarrow>
   \<exists>stream3. stream_poll_write g stream = (q, stream3) \<and> stream_poll_read f stream3 = (p, stream2)"
  by (auto simp: stream_poll_read_def stream_poll_write_def split: prod.splits)

section \<open>The server's accept loop\<close>

text \<open>
  The loop takes every incoming connection from the endpoint and spawns a task that finishes its handshake and sends it into a
  channel of 128, from which the acceptor takes them. \<open>qv_handshakes\<close> and \<open>qv_sending\<close> are the tasks in their handshake and
  those waiting for room in the channel. \<open>qv_alive\<close>: the \<open>Server\<close> exists, and with it the receiver; dropping it sends on
  \<open>qv_signal\<close>. The last three fields record what happened: the connections in the order in which they entered the channel,
  those the acceptor has taken, and those that were established and then dropped.
\<close>

definition CHANNEL_BOUND :: nat where
  "CHANNEL_BOUND = 128"

record quic_server =
  qv_loop_ended :: bool
  qv_signal :: bool
  qv_closed :: bool
  qv_alive :: bool
  qv_next :: nat
  qv_handshakes :: "nat list"
  qv_sending :: "nat list"
  qv_queue :: "nat list"
  qv_entered :: "nat list"
  qv_taken :: "nat list"
  qv_dropped :: "nat list"

definition quic_server_initial :: quic_server where
  "quic_server_initial =
     \<lparr>qv_loop_ended = False, qv_signal = False, qv_closed = False, qv_alive = True, qv_next = 0, qv_handshakes = [],
      qv_sending = [], qv_queue = [], qv_entered = [], qv_taken = [], qv_dropped = []\<rparr>"

definition build_server_config ::
    "('c, 'k, 'u, 'e) quinn_env \<Rightarrow> quic_server_config \<Rightarrow> quic_error + (('c, 'k) server_tls \<times> quic_transport_config)" where
  "build_server_config env config =
     and_then (build_server_tls (qe_certs env) config) (\<lambda>tls.
     check (qe_server_crypto env tls) (tls, qs_transport config))"

definition quic_server_new ::
    "('c, 'k, 'u, 'e) quinn_env \<Rightarrow> 'u \<Rightarrow> quic_server_config \<Rightarrow>
     quic_error + ('e \<times> (('c, 'k) server_tls \<times> quic_transport_config) \<times> quic_server)" where
  "quic_server_new env socket config =
     and_then (build_server_config env config) (\<lambda>server_config.
     and_then (quinn_endpoint ''No async runtime found'' env socket) (\<lambda>endpoint.
       Inr (endpoint, server_config, quic_server_initial)))"

datatype quic_event =
    QuicIncoming
  | HandshakeDone nat bool
  | SendDone nat
  | QuicAccept
  | ServerDropped
  | QuicSignal

text \<open>One task of the loop: the handshake, then sending.\<close>

definition handshake_done :: "nat \<Rightarrow> bool \<Rightarrow> quic_server \<Rightarrow> quic_server option" where
  "handshake_done i ok s =
     (if i \<notin> set (qv_handshakes s) then None
      else let s1 = s\<lparr>qv_handshakes := remove1 i (qv_handshakes s)\<rparr>
           in Some (if ok then s1\<lparr>qv_sending := qv_sending s @ [i]\<rparr> else s1))"

definition send_done :: "nat \<Rightarrow> quic_server \<Rightarrow> quic_server option" where
  "send_done i s =
     (if i \<notin> set (qv_sending s) then None
      else let s1 = s\<lparr>qv_sending := remove1 i (qv_sending s)\<rparr>
           in if \<not> qv_alive s then Some (s1\<lparr>qv_dropped := qv_dropped s @ [i]\<rparr>)
              else if length (qv_queue s) < CHANNEL_BOUND
              then Some (s1\<lparr>qv_queue := qv_queue s @ [i], qv_entered := qv_entered s @ [i]\<rparr>)
              else None)"

definition quic_accept_loop :: "quic_event \<Rightarrow> quic_server \<Rightarrow> quic_server option" where
  "quic_accept_loop e s =
     (case e of
        QuicIncoming \<Rightarrow>
          if qv_loop_ended s \<or> qv_closed s then None
          else Some (s\<lparr>qv_next := Suc (qv_next s), qv_handshakes := qv_handshakes s @ [qv_next s]\<rparr>)
      | HandshakeDone i ok \<Rightarrow> handshake_done i ok s
      | SendDone i \<Rightarrow> send_done i s
      | QuicSignal \<Rightarrow>
          if qv_signal s \<and> \<not> qv_loop_ended s then Some (s\<lparr>qv_closed := True, qv_loop_ended := True\<rparr>) else None
      | _ \<Rightarrow> None)"

text \<open>
  \<open>Acceptor::accept\<close>: the next connection of the channel; an error if the channel is empty and all its senders are gone, those
  of the loop and of its tasks; otherwise it waits.
\<close>

definition quic_accept :: "quic_server \<Rightarrow> (nat io_result \<times> quic_server) option" where
  "quic_accept s =
     (if \<not> qv_alive s then None
      else case qv_queue s of
        i # q \<Rightarrow> Some (Inr i, s\<lparr>qv_queue := q, qv_taken := qv_taken s @ [i]\<rparr>)
      | [] \<Rightarrow>
          if qv_loop_ended s \<and> qv_handshakes s = [] \<and> qv_sending s = []
          then Some (Inl (io_err KOther ''Acceptor is closed''), s) else None)"

definition server_drop :: "quic_server \<Rightarrow> quic_server option" where
  "server_drop s =
     (if qv_alive s
      then Some (s\<lparr>qv_signal := True, qv_alive := False, qv_queue := [], qv_dropped := qv_dropped s @ qv_queue s\<rparr>) else None)"

definition quic_server_step :: "quic_event \<Rightarrow> quic_server \<Rightarrow> quic_server option" where
  "quic_server_step e s =
     (case e of
        QuicAccept \<Rightarrow> map_option snd (quic_accept s)
      | ServerDropped \<Rightarrow> server_drop s
      | _ \<Rightarrow> quic_accept_loop e s)"

section \<open>Creating and connecting\<close>

lemma quic_client_new_Inr:
  assumes "quic_client_new env config = Inr c"
  shows "qcl_config c = config" and "build_client_tls (qe_certs env) config = Inr (fst (qcl_default c))"
    and "snd (qcl_default c) = qc_transport config" and "\<exists>socket. qe_bind env (qc_bind_addr config) = Inr socket"
  using assms by (auto simp: quic_client_new_def build_client_config_def and_then_Inr_iff)

lemma initiator_connect_kind: "initiator_connect start c = Inl e \<Longrightarrow> err_kind e = KOther"
  by (auto simp: initiator_connect_def error_other_def split: sum.splits)

lemma initiator_rebind_kind: "initiator_rebind env swap c = Inl e \<Longrightarrow> err_kind e = KOther"
  by (auto simp: initiator_rebind_def error_other_def split: sum.splits)

text \<open>
  What connecting gives. An error of it is always of the kind \<open>Other\<close>. Without early data, or without the keys of an earlier
  session, a connection is given exactly when its handshake succeeds; with both, it is given in any case, also when the
  server did not accept the early data or the handshake failed.
\<close>

theorem initiator_connect_spec:
  assumes "start (qcl_endpoint c) (qc_server_addr (qcl_config c)) (qc_server_name (qcl_config c)) = Inr connecting"
  shows "(\<forall>e. initiator_connect start c = Inl e \<longrightarrow> err_kind e = KOther) \<and>
    (\<not> qc_enable_zero_rtt (qcl_config c) \<or> co_zero_rtt connecting = None \<longrightarrow>
       (\<forall>conn. initiator_connect start c = Inr conn \<longleftrightarrow> co_handshake connecting = Inr conn)) \<and>
    (\<forall>conn accepted. qc_enable_zero_rtt (qcl_config c) \<and> co_zero_rtt connecting = Some (conn, accepted) \<longrightarrow>
       initiator_connect start c = Inr conn)"
  using assms initiator_connect_kind [of start c]
  by (auto simp: initiator_connect_def error_other_def quic_client_connect_def await_handshake_def split: sum.splits option.splits)

section \<open>The channel between the loop and the acceptor\<close>

abbreviation established :: "quic_server \<Rightarrow> nat list" where
  "established s \<equiv> qv_sending s @ qv_queue s @ qv_taken s @ qv_dropped s"

definition place_inv :: "quic_event list \<Rightarrow> quic_server \<Rightarrow> bool" where
  "place_inv es s \<longleftrightarrow>
     distinct (qv_handshakes s @ established s) \<and> (\<forall>i \<in> set (qv_handshakes s @ established s). i < qv_next s) \<and>
     (\<forall>i. HandshakeDone i True \<in> set es \<longleftrightarrow> i \<in> set (established s))"

definition channel_inv :: "quic_server \<Rightarrow> bool" where
  "channel_inv s \<longleftrightarrow>
     length (qv_queue s) \<le> CHANNEL_BOUND \<and>
     (qv_alive s \<longleftrightarrow> \<not> qv_signal s) \<and> (qv_loop_ended s \<longrightarrow> qv_signal s) \<and> (qv_closed s \<longleftrightarrow> qv_loop_ended s) \<and>
     (qv_alive s \<longrightarrow> qv_dropped s = [] \<and> qv_entered s = qv_taken s @ qv_queue s) \<and>
     (\<exists>rest. qv_entered s = qv_taken s @ rest)"

definition quic_inv :: "quic_event list \<times> quic_server \<Rightarrow> bool" where
  "quic_inv h \<longleftrightarrow> place_inv (fst h) (snd h) \<and> channel_inv (snd h)"

lemma quic_inv_initial: "quic_inv ([], quic_server_initial)"
  by (simp add: quic_inv_def place_inv_def channel_inv_def quic_server_initial_def)

text \<open>A step that only moves established connections.\<close>

lemma place_inv_moved:
  assumes "place_inv es s" and "mset (established s') = mset (established s)" and "qv_handshakes s' = qv_handshakes s"
    and "qv_next s' = qv_next s" and "\<forall>i. e \<noteq> HandshakeDone i True"
  shows "place_inv (es @ [e]) s'"
proof -
  have "mset (qv_handshakes s' @ established s') = mset (qv_handshakes s @ established s)"
    unfolding mset_append [of "qv_handshakes _" "established _"] by (simp only: assms(2,3))
  from mset_eq_imp_distinct_iff [OF this] mset_eq_setD [OF this] mset_eq_setD [OF assms(2)] assms(1,4,5) show ?thesis
    unfolding place_inv_def by auto
qed

lemma place_inv_incoming:
  assumes "place_inv es s"
  shows "place_inv (es @ [QuicIncoming]) (s\<lparr>qv_next := Suc (qv_next s), qv_handshakes := qv_handshakes s @ [qv_next s]\<rparr>)"
proof -
  have "qv_next s \<notin> set (qv_handshakes s @ established s)" using assms unfolding place_inv_def by blast
  with assms show ?thesis unfolding place_inv_def by (simp add: less_Suc_eq)
qed

lemma place_inv_handshake:
  assumes inv: "place_inv es s" and i: "i \<in> set (qv_handshakes s)"
  shows "place_inv (es @ [HandshakeDone i True]) (s\<lparr>qv_handshakes := remove1 i (qv_handshakes s), qv_sending := qv_sending s @ [i]\<rparr>)"
    and "place_inv (es @ [HandshakeDone i False]) (s\<lparr>qv_handshakes := remove1 i (qv_handshakes s)\<rparr>)"
proof -
  let ?s = "s\<lparr>qv_handshakes := remove1 i (qv_handshakes s), qv_sending := qv_sending s @ [i]\<rparr>"
  have "mset (qv_handshakes ?s @ established ?s) = mset (qv_handshakes s @ established s)" using i by simp
  from mset_eq_imp_distinct_iff [OF this] mset_eq_setD [OF this] inv show "place_inv (es @ [HandshakeDone i True]) ?s"
    unfolding place_inv_def by auto
  from inv show "place_inv (es @ [HandshakeDone i False]) (s\<lparr>qv_handshakes := remove1 i (qv_handshakes s)\<rparr>)"
    unfolding place_inv_def by (simp add: set_remove1_eq distinct_remove1) blast
qed

lemma quic_inv_handshake:
  assumes inv: "quic_inv (es, s)" and st: "handshake_done i ok s = Some s'"
  shows "quic_inv (es @ [HandshakeDone i ok], s')"
proof -
  have i: "i \<in> set (qv_handshakes s)" and s': "s' = (if ok
       then s\<lparr>qv_handshakes := remove1 i (qv_handshakes s), qv_sending := qv_sending s @ [i]\<rparr>
       else s\<lparr>qv_handshakes := remove1 i (qv_handshakes s)\<rparr>)"
    using st by (auto simp: handshake_done_def Let_def split: if_splits)
  from inv place_inv_handshake [OF _ i, of es] show ?thesis by (cases ok) (simp_all add: quic_inv_def channel_inv_def s')
qed

lemma send_done_moves:
  assumes "send_done i s = Some s'"
  shows "mset (established s') = mset (established s)" and "qv_handshakes s' = qv_handshakes s" and "qv_next s' = qv_next s"
    and "channel_inv s \<Longrightarrow> channel_inv s'"
  using assms by (auto simp: send_done_def Let_def channel_inv_def split: if_splits)

lemma quic_accept_moves:
  assumes "quic_accept s = Some (r, s')"
  shows "mset (established s') = mset (established s)" and "qv_handshakes s' = qv_handshakes s" and "qv_next s' = qv_next s"
    and "channel_inv s \<Longrightarrow> channel_inv s'"
  using assms by (auto simp: quic_accept_def channel_inv_def split: if_splits list.splits)

lemma server_drop_moves:
  assumes "server_drop s = Some s'"
  shows "mset (established s') = mset (established s)" and "qv_handshakes s' = qv_handshakes s" and "qv_next s' = qv_next s"
    and "channel_inv s \<Longrightarrow> channel_inv s'"
  using assms by (auto simp: server_drop_def channel_inv_def split: if_splits)

lemma quic_step_inv:
  assumes "quic_inv h" and "logged quic_server_step e h = Some h'"
  shows "quic_inv h'"
proof -
  obtain es s where h: "h = (es, s)" by force
  with assms(2) obtain s' where st: "quic_server_step e s = Some s'" and h': "h' = (es @ [e], s')"
    by (auto simp: logged_def)
  from assms(1) have inv: "place_inv es s" "channel_inv s" by (simp_all add: h quic_inv_def)
  show ?thesis
  proof (cases e)
    case QuicIncoming
    with st have "s' = s\<lparr>qv_next := Suc (qv_next s), qv_handshakes := qv_handshakes s @ [qv_next s]\<rparr>"
      by (simp add: quic_server_step_def quic_accept_loop_def split: if_splits)
    with place_inv_incoming [OF inv(1)] inv(2) QuicIncoming show ?thesis by (simp add: h' quic_inv_def channel_inv_def)
  next
    case (HandshakeDone i ok)
    with st assms(1) quic_inv_handshake [of es s i ok s'] show ?thesis by (simp add: h h' quic_server_step_def quic_accept_loop_def)
  next
    case (SendDone i)
    with st have "send_done i s = Some s'" by (simp add: quic_server_step_def quic_accept_loop_def)
    from place_inv_moved [OF inv(1) send_done_moves(1-3) [OF this], of e] send_done_moves(4) [OF this inv(2)] SendDone
    show ?thesis by (simp add: h' quic_inv_def)
  next
    case QuicAccept
    with st obtain r where "quic_accept s = Some (r, s')" by (auto simp: quic_server_step_def)
    from place_inv_moved [OF inv(1) quic_accept_moves(1-3) [OF this], of e] quic_accept_moves(4) [OF this inv(2)] QuicAccept
    show ?thesis by (simp add: h' quic_inv_def)
  next
    case ServerDropped
    with st have "server_drop s = Some s'" by (simp add: quic_server_step_def)
    from place_inv_moved [OF inv(1) server_drop_moves(1-3) [OF this], of e] server_drop_moves(4) [OF this inv(2)] ServerDropped
    show ?thesis by (simp add: h' quic_inv_def)
  next
    case QuicSignal
    with st have s': "s' = s\<lparr>qv_closed := True, qv_loop_ended := True\<rparr>" "qv_signal s"
      by (simp_all add: quic_server_step_def quic_accept_loop_def split: if_splits)
    from place_inv_moved [OF inv(1), of s' e] inv(2) QuicSignal s' show ?thesis by (simp add: h' quic_inv_def channel_inv_def)
  qed
qed

interpretation quic_machine: invariant_machine "logged quic_server_step" quic_inv
  by unfold_locales (rule quic_step_inv)

lemma quic_run_inv: "run_steps quic_server_step es quic_server_initial = Some s \<Longrightarrow> quic_inv (es, s)"
  using quic_machine.run_inv [OF quic_inv_initial, of es "(es, s)"] by (simp add: run_logged)

text \<open>
  C10. The acceptor gets every connection once. A connection whose handshake has succeeded is in exactly one place: a task waits to
  send it, it is in the channel, which holds at most 128, the acceptor has taken it, or it was dropped; and while the server
  exists none is dropped, the acceptor takes them in the order in which they entered the channel, and it can always go on
  while there are any. Then too the acceptor never fails and the endpoint is never closed.
\<close>

theorem quic_server_hands_over:
  assumes "run_steps quic_server_step es quic_server_initial = Some s"
  shows "distinct (established s) \<and> (\<forall>i. HandshakeDone i True \<in> set es \<longleftrightarrow> i \<in> set (established s)) \<and>
    length (qv_queue s) \<le> 128 \<and>
    (qv_alive s \<longrightarrow>
       qv_dropped s = [] \<and> qv_entered s = qv_taken s @ qv_queue s \<and> \<not> qv_closed s \<and>
       (\<forall>r s'. quic_accept s = Some (r, s') \<longrightarrow> (\<exists>i. r = Inr i)) \<and>
       (qv_sending s @ qv_queue s \<noteq> [] \<longrightarrow> quic_accept s \<noteq> None \<or> (\<exists>i. send_done i s \<noteq> None))) \<and>
    (\<exists>rest. qv_entered s = qv_taken s @ rest)"
proof -
  from quic_run_inv [OF assms] have inv: "quic_inv (es, s)" .
  have goes_on: "quic_accept s \<noteq> None \<or> (\<exists>i. send_done i s \<noteq> None)" if a: "qv_alive s" and ne: "qv_sending s @ qv_queue s \<noteq> []"
  proof (cases "qv_queue s")
    case (Cons i q)
    then show ?thesis using a by (simp add: quic_accept_def)
  next
    case Nil
    with ne obtain i rest where "qv_sending s = i # rest" by (cases "qv_sending s") auto
    with a Nil have "send_done i s \<noteq> None" by (simp add: send_done_def CHANNEL_BOUND_def Let_def)
    then show ?thesis by blast
  qed
  have "\<exists>i. r = Inr i" if "qv_alive s" "quic_accept s = Some (r, s')" for r s'
    using that inv by (auto simp: quic_accept_def quic_inv_def channel_inv_def split: list.splits if_splits)
  with goes_on inv show ?thesis unfolding quic_inv_def place_inv_def channel_inv_def CHANNEL_BOUND_def by auto
qed

definition two_arrivals :: "quic_event list" where
  "two_arrivals = [QuicIncoming, QuicIncoming, HandshakeDone 1 True, SendDone 1, HandshakeDone 0 True, SendDone 0, QuicAccept]"

theorem quic_server_hands_over_witness:
  "\<exists>s. run_steps quic_server_step two_arrivals quic_server_initial = Some s \<and> qv_taken s = [1] \<and> qv_queue s = [0] \<and>
     qv_alive s \<and> \<not> qv_closed s"
proof -
  have "\<exists>s. run_steps quic_server_step two_arrivals quic_server_initial = Some s \<and> qv_taken s = [1] \<and> qv_queue s = [0] \<and> qv_alive s"
    by (simp add: two_arrivals_def quic_server_step_def quic_accept_loop_def handshake_done_def send_done_def quic_accept_def
        quic_server_initial_def CHANNEL_BOUND_def)
  then obtain s where s: "run_steps quic_server_step two_arrivals quic_server_initial = Some s" "qv_taken s = [1]" "qv_queue s = [0]"
    "qv_alive s" by blast
  with quic_server_hands_over [OF s(1)] show ?thesis by blast
qed

text \<open>The bound of the channel does not bound the connections: each of its tasks holds one.\<close>

lemma arrivals_run:
  "\<not> qv_loop_ended s \<Longrightarrow> \<not> qv_closed s \<Longrightarrow> qv_handshakes s = [] \<Longrightarrow>
   \<exists>es s'. run_steps quic_server_step es s = Some s' \<and> length (qv_sending s') = length (qv_sending s) + n \<and> qv_taken s' = qv_taken s \<and>
     \<not> qv_loop_ended s' \<and> \<not> qv_closed s' \<and> qv_handshakes s' = []"
proof (induction n)
  case (Suc n)
  then obtain es s' where s': "run_steps quic_server_step es s = Some s'" "length (qv_sending s') = length (qv_sending s) + n"
    "qv_taken s' = qv_taken s" "\<not> qv_loop_ended s'" "\<not> qv_closed s'" "qv_handshakes s' = []" by blast
  let ?fs = "[QuicIncoming, HandshakeDone (qv_next s') True]"
  have "run_steps quic_server_step (es @ ?fs) s =
      Some (s'\<lparr>qv_next := Suc (qv_next s'), qv_sending := qv_sending s' @ [qv_next s']\<rparr>)"
    using s' by (simp add: run_steps_append quic_server_step_def quic_accept_loop_def handshake_done_def)
  with s' show ?case by (intro exI conjI) (assumption | simp)+
qed (intro exI [of _ "[]"], simp)

lemma sending_unbounded:
  "\<exists>es s. run_steps quic_server_step es quic_server_initial = Some s \<and> length (qv_sending s) = n \<and> qv_taken s = []"
  using arrivals_run [of quic_server_initial n] by (auto simp: quic_server_initial_def)

end
