(* ===== verification/Http_Endpoint.thy ===== *)
theory Http_Endpoint
  imports Address Transport_Io
begin

text \<open>
  The HTTP proxy of the client: \<open>crates/ombrac-client/src/endpoint/http.rs\<close>. \<open>hyper\<close> parses requests, upgrades connections
  and speaks to the origin; what it gives is an argument: the parts of the URI, whether the method is CONNECT, the
  rest of the request as an opaque value, and the exchange with the origin. The accept loop, which is the same as that of the
  SOCKS server (\<open>endpoint/socks/mod.rs\<close>), is a machine.
\<close>

section \<open>Requests\<close>

record http_uri =
  uri_host :: "bytes option"
  uri_port :: "u16 option"
  uri_scheme :: "bytes option"

record 'r http_request =
  req_uri :: http_uri
  req_is_connect :: bool
  req_rest :: 'r

datatype http_status = StatusOk | BadRequest | ServiceUnavailable

datatype 'p http_response = EmptyResponse http_status | FromOrigin 'p

definition create_error_response :: "http_status \<Rightarrow> 'p http_response" where
  "create_error_response status = EmptyResponse status"

definition target_port :: "http_uri \<Rightarrow> u16" where
  "target_port uri = unwrap_or (uri_port uri) (if uri_scheme uri = Some (ascii ''https'') then 443 else 80)"

definition extract_target_address :: "http_uri \<Rightarrow> 'p http_response + address" where
  "extract_target_address uri =
     (case uri_host uri of
        None \<Rightarrow> Inl (create_error_response BadRequest)
      | Some host \<Rightarrow>
          (case address_try_from (host @ [0x3A] @ show_nat (unat (target_port uri))) of
             Inl e \<Rightarrow> Inl (create_error_response BadRequest)
           | Inr target_addr \<Rightarrow> Inr target_addr))"

section \<open>The handler\<close>

text \<open>What the handler does besides answering: opening a tunnel stream, spawning the relay of an upgraded connection.\<close>

datatype 'u http_effect = OpenTunnel address | SpawnRelay 'u | SpawnConnection 'u

text \<open>The spawned task of \<open>handle_connect\<close>: the upgrade, then the relay between the two streams.\<close>

definition connect_task ::
    "('e + 'v) \<Rightarrow> ('v \<Rightarrow> 'u \<Rightarrow> (io_error \<times> copy_bidirectional_stats) + copy_bidirectional_stats) \<Rightarrow> 'u \<Rightarrow>
     ((io_error \<times> copy_bidirectional_stats) + copy_bidirectional_stats) option" where
  "connect_task upgrade relay dest_stream =
     (case upgrade of Inl _ \<Rightarrow> None | Inr upgraded \<Rightarrow> Some (relay upgraded dest_stream))"

definition handle_connect_method :: "'u \<Rightarrow> ('e + 'p http_response) \<times> 'u http_effect list" where
  "handle_connect_method dest_stream = (Inr (EmptyResponse StatusOk), [SpawnRelay dest_stream])"

text \<open>\<open>handle_http\<close>: the handshake on the tunnel stream, the task that drives the connection, and the request.\<close>

definition handle_http ::
    "('u \<Rightarrow> 'e option) \<Rightarrow> ('u \<Rightarrow> 'r http_request \<Rightarrow> 'e + 'p) \<Rightarrow> 'r http_request \<Rightarrow> 'u \<Rightarrow>
     ('e + 'p http_response) \<times> 'u http_effect list" where
  "handle_http handshake send_request req outbound_conn =
     (case handshake outbound_conn of
        Some e \<Rightarrow> (Inl e, [])
      | None \<Rightarrow>
          (case send_request outbound_conn req of
             Inl e \<Rightarrow> (Inl e, [SpawnConnection outbound_conn])
           | Inr resp \<Rightarrow> (Inr (FromOrigin resp), [SpawnConnection outbound_conn])))"

definition proxy_handler ::
    "(address \<Rightarrow> 'u io_result) \<Rightarrow> ('u \<Rightarrow> 'e option) \<Rightarrow> ('u \<Rightarrow> 'r http_request \<Rightarrow> 'e + 'p) \<Rightarrow> 'r http_request \<Rightarrow>
     ('e + 'p http_response) \<times> 'u http_effect list" where
  "proxy_handler open_bidirectional handshake send_request req =
     (case extract_target_address (req_uri req) of
        Inl response \<Rightarrow> (Inr response, [])
      | Inr target_addr \<Rightarrow>
          (case open_bidirectional target_addr of
             Inl e \<Rightarrow> (Inr (create_error_response ServiceUnavailable), [OpenTunnel target_addr])
           | Inr outbound_conn \<Rightarrow>
               (let (r, effs) = (if req_is_connect req then handle_connect_method outbound_conn
                                 else handle_http handshake send_request req outbound_conn)
                in (r, OpenTunnel target_addr # effs))))"

section \<open>Accepting\<close>

text \<open>The accept loops of the HTTP and the SOCKS server: \<open>served\<close> are the peers whose task was spawned.\<close>

record accept_state =
  served :: "socket_addr list"
  accept_returned :: bool

datatype accept_event = AcceptShutdown | AcceptResult "socket_addr io_result"

definition endpoint_accept_loop :: "accept_event \<Rightarrow> accept_state \<Rightarrow> accept_state option" where
  "endpoint_accept_loop e s =
     (if accept_returned s then None
      else case e of
        AcceptShutdown \<Rightarrow> Some (s\<lparr>accept_returned := True\<rparr>)
      | AcceptResult (Inl err) \<Rightarrow> Some s
      | AcceptResult (Inr peer) \<Rightarrow> Some (s\<lparr>served := served s @ [peer]\<rparr>))"

definition accept_init :: accept_state where
  "accept_init = \<lparr>served = [], accept_returned = False\<rparr>"

section \<open>Properties\<close>

lemma target_text: "rsplit_once 0x3A (host @ 0x3A # show_nat n) = Some (host, show_nat n)"
  using rsplit_once_display [of host n] by simp

text \<open>The address is the host and the port that were asked for: as a name, or as the socket address their text denotes.\<close>

definition denotes :: "bytes \<Rightarrow> u16 \<Rightarrow> address \<Rightarrow> bool" where
  "denotes host port a \<longleftrightarrow>
     (case parse_socket_addr (host @ [0x3A] @ show_nat (unat port)) of
        Some sa \<Rightarrow> a = address_from_socket_addr sa
      | None \<Rightarrow> a = Domain host port \<and> host \<noteq> [] \<and> length host \<le> 255)"

lemma extract_target_address_iff:
  "extract_target_address uri = Inr a \<longleftrightarrow> (\<exists>host. uri_host uri = Some host \<and> denotes host (target_port uri) a)"
  by (auto simp: extract_target_address_def denotes_def address_try_from_def target_text parse_u16_show MAX_DOMAIN_LENGTH_def Let_def
      split: option.splits)

lemma extract_target_address_Inl: "extract_target_address uri = Inl r \<Longrightarrow> r = EmptyResponse BadRequest"
  by (auto simp: extract_target_address_def create_error_response_def split: option.splits sum.splits)

text \<open>
  C34. The HTTP proxy opens a tunnel exactly when the URI names a host that, with its port or the scheme's default, denotes an
  address, and then to that address only; otherwise the client gets 400 and nothing is opened. If the tunnel fails
  the client gets 503. A CONNECT is answered with 200 and its relay runs on the opened stream and on no other; any other
  request is answered by the origin over that stream, or fails with the origin's connection.
\<close>

theorem http_proxy_spec:
  fixes open_bidi :: "address \<Rightarrow> 'u io_result"
    and handshake :: "'u \<Rightarrow> 'e option"
    and send_request :: "'u \<Rightarrow> 'r http_request \<Rightarrow> 'e + 'p"
  assumes "proxy_handler open_bidi handshake send_request req = (r, effs)"
  shows "(\<forall>a. OpenTunnel a \<in> set effs \<longleftrightarrow> (\<exists>host. uri_host (req_uri req) = Some host \<and> denotes host (target_port (req_uri req)) a)) \<and>
    ((\<forall>a. OpenTunnel a \<notin> set effs) \<longleftrightarrow> r = Inr (EmptyResponse BadRequest)) \<and>
    ((\<exists>a e. OpenTunnel a \<in> set effs \<and> open_bidi a = Inl e) \<longleftrightarrow> r = Inr (EmptyResponse ServiceUnavailable)) \<and>
    (\<forall>u. SpawnRelay u \<in> set effs \<longleftrightarrow> req_is_connect req \<and> (\<exists>a. OpenTunnel a \<in> set effs \<and> open_bidi a = Inr u)) \<and>
    (r = Inr (EmptyResponse StatusOk) \<longleftrightarrow> (\<exists>u. SpawnRelay u \<in> set effs)) \<and>
    (\<forall>resp. r = Inr (FromOrigin resp) \<longrightarrow> \<not> req_is_connect req \<and>
       (\<exists>a u. OpenTunnel a \<in> set effs \<and> open_bidi a = Inr u \<and> handshake u = None \<and> send_request u req = Inr resp)) \<and>
    (\<forall>e. r = Inl e \<longrightarrow> \<not> req_is_connect req \<and>
       (\<exists>a u. OpenTunnel a \<in> set effs \<and> open_bidi a = Inr u \<and>
          (handshake u = Some e \<or> handshake u = None \<and> send_request u req = Inl e)))"
proof (cases "extract_target_address (req_uri req) :: 'p http_response + address")
  case (Inl resp)
  then have none: "\<not> (\<exists>host. uri_host (req_uri req) = Some host \<and> denotes host (target_port (req_uri req)) a)" for a
    using extract_target_address_iff [where uri = "req_uri req" and a = a and ?'a = 'p] by simp
  have "r = Inr (EmptyResponse BadRequest)" "effs = []"
    using assms Inl extract_target_address_Inl [OF Inl] by (auto simp: proxy_handler_def)
  with none show ?thesis by auto
next
  case (Inr a)
  then have host: "(\<exists>host. uri_host (req_uri req) = Some host \<and> denotes host (target_port (req_uri req)) b) \<longleftrightarrow> b = a" for b
    using extract_target_address_iff [where uri = "req_uri req" and a = b and ?'a = 'p] by auto
  show ?thesis
  proof (cases "open_bidi a")
    case (Inl e)
    with assms Inr show ?thesis unfolding host by (auto simp: proxy_handler_def create_error_response_def)
  next
    case opened: (Inr u)
    show ?thesis unfolding host
      using assms Inr opened
      by (cases "req_is_connect req"; cases "handshake u"; cases "send_request u req")
        (auto simp: proxy_handler_def handle_connect_method_def handle_http_def)
  qed
qed

theorem http_proxy_spec_witness:
  "\<exists>r effs a. proxy_handler (\<lambda>a. Inr (5::nat)) (\<lambda>u. None) (\<lambda>u req. Inr 7 :: nat + nat)
       \<lparr>req_uri = \<lparr>uri_host = Some (ascii ''a''), uri_port = None, uri_scheme = None\<rparr>, req_is_connect = True, req_rest = ()\<rparr> = (r, effs) \<and>
     SpawnRelay 5 \<in> set effs \<and> OpenTunnel a \<in> set effs \<and> denotes (ascii ''a'') 80 a"
proof -
  let ?req = "\<lparr>req_uri = \<lparr>uri_host = Some (ascii ''a''), uri_port = None, uri_scheme = None\<rparr>, req_is_connect = True, req_rest = ()\<rparr>"
  have "parse_socket_addr (ascii ''a:80'') = None" by code_simp
  moreover have "show_nat 80 = ascii ''80''" by code_simp
  moreover have "ascii ''a'' @ 0x3A # ascii ''80'' = ascii ''a:80''" "ascii ''a'' \<noteq> []" "length (ascii ''a'') \<le> 255" by code_simp+
  ultimately have den: "denotes (ascii ''a'') 80 (Domain (ascii ''a'') 80)"
    by (simp add: denotes_def)
  have "extract_target_address (req_uri ?req) = (Inr (Domain (ascii ''a'') 80) :: nat http_response + address)"
    using den by (simp add: extract_target_address_iff target_port_def)
  then have run: "proxy_handler (\<lambda>a. Inr (5::nat)) (\<lambda>u. None) (\<lambda>u req. Inr 7 :: nat + nat) ?req =
      (Inr (EmptyResponse StatusOk), [OpenTunnel (Domain (ascii ''a'') 80), SpawnRelay 5])"
    by (simp add: proxy_handler_def handle_connect_method_def)
  from http_proxy_spec [OF run] obtain a where "OpenTunnel a \<in> set [OpenTunnel (Domain (ascii ''a'') 80), SpawnRelay 5]"
      "denotes (ascii ''a'') 80 a"
    using den by (auto simp: target_port_def)
  with run show ?thesis by fastforce
qed

text \<open>The accept loop serves every accepted peer once, in order, survives errors, and returns on shutdown only.\<close>

lemma endpoint_accept_loop_run:
  "run_steps endpoint_accept_loop es s = Some t \<Longrightarrow>
   served t = served s @ concat (map (\<lambda>e. case e of AcceptResult (Inr p) \<Rightarrow> [p] | _ \<Rightarrow> []) es) \<and>
   (accept_returned t \<longleftrightarrow> accept_returned s \<or> AcceptShutdown \<in> set es)"
  by (induction es arbitrary: s)
    (auto simp: endpoint_accept_loop_def split: option.splits if_splits accept_event.splits sum.splits)

end
