(* ===== verification/Tun_Inbound.thy ===== *)
theory Tun_Inbound
  imports Tun Net_Stack
begin

text \<open>
  The UDP loop of the TUN endpoint on what the network stack gives it: \<open>process_incoming_udp_packets\<close>
  (\<open>crates/ombrac-client/src/endpoint/tun.rs\<close>) reads with \<open>SplitRead::recv\<close> (\<open>crates/ombrac-netstack/src/udp.rs\<close>), one
  packet of the channel at a time, while the tasks of the flows go on.
\<close>

record 'n udp_loop =
  ul_tun :: "'n tun_udp"
  ul_channel :: "bytes list"
  ul_done :: bool

definition udp_loop_new :: "'n fake_dns \<Rightarrow> 'n udp_loop" where
  "udp_loop_new fd = \<lparr>ul_tun = tun_udp_new fd, ul_channel = [], ul_done = False\<rparr>"

text \<open>
  \<open>Frame\<close>: the sink of the stack puts a packet into the channel; \<open>Receive\<close>: the loop's next packet; \<open>Task\<close>: a step of a
  flow; \<open>LoopCancel\<close>: the token.
\<close>

datatype udp_loop_event = Frame bytes | Receive bool | Task tun_event | LoopCancel

definition is_flow_event :: "tun_event \<Rightarrow> bool" where
  "is_flow_event e = (case e of TunPacket _ _ \<Rightarrow> False | _ \<Rightarrow> True)"

definition as_stack_packet :: "stack_udp_packet \<Rightarrow> stack_packet" where
  "as_stack_packet p = \<lparr>sp_data = su_data p, sp_src = su_src p, sp_dst = su_dst p\<rparr>"

definition udp_loop_step ::
    "(bytes \<Rightarrow> (nat \<times> ip_addr \<times> ip_addr) option) \<Rightarrow> (bytes \<Rightarrow> (u16 \<times> u16 \<times> nat) option) \<Rightarrow> 'n tun_env \<Rightarrow> tun_config \<Rightarrow>
     udp_loop_event \<Rightarrow> 'n udp_loop \<Rightarrow> 'n udp_loop option" where
  "udp_loop_step ip_view udp_view env config e l =
     (case e of
        Frame b \<Rightarrow> Some (l\<lparr>ul_channel := ul_channel l @ [b]\<rparr>)
      | Receive stack_alive \<Rightarrow>
          if ul_done l \<or> ul_channel l = [] then None
          else (case split_read_recv ip_view udp_view (ul_channel l) of
                  (None, rest) \<Rightarrow> Some (l\<lparr>ul_channel := rest, ul_done := True\<rparr>)
                | (Some packet, rest) \<Rightarrow>
                    map_option (\<lambda>t. l\<lparr>ul_tun := t, ul_channel := rest\<rparr>)
                      (tun_step env config (TunPacket stack_alive (as_stack_packet packet)) (ul_tun l)))
      | Task te \<Rightarrow>
          if is_flow_event te then map_option (\<lambda>t. l\<lparr>ul_tun := t\<rparr>) (tun_step env config te (ul_tun l)) else None
      | LoopCancel \<Rightarrow> Some (l\<lparr>ul_done := True\<rparr>))"

section \<open>Invariant\<close>

definition loop_inv :: "'n udp_loop \<Rightarrow> bool" where
  "loop_inv l \<longleftrightarrow> tun_inv (ul_tun l)"

lemma loop_step_inv:
  assumes "loop_inv l" and "udp_loop_step ip_view udp_view env config e l = Some l'"
  shows "loop_inv l'"
  using assms tun_machine.step_inv
  by (fastforce simp: udp_loop_step_def loop_inv_def split: udp_loop_event.splits if_splits prod.splits option.splits)

interpretation loop_machine: invariant_machine "udp_loop_step ip_view udp_view env config" loop_inv for ip_view udp_view env config
  by unfold_locales (rule loop_step_inv)

text \<open>When the loop has ended, the flows only finish what they have.\<close>

lemma flow_event_forwarded:
  assumes "tun_inv s" and "tun_step env config e s = Some s'" and "is_flow_event e"
  shows "forwarded s' a = forwarded s a"
  using tun_step_ok [OF assms(1,2), of a] assms(3) by (simp add: offered_def is_flow_event_def split: tun_event.splits)

definition loop_over :: "(socket_addr \<Rightarrow> datagram_msg list) \<Rightarrow> 'n udp_loop \<Rightarrow> bool" where
  "loop_over ms l \<longleftrightarrow> ul_done l \<and> loop_inv l \<and> (\<forall>a. forwarded (ul_tun l) a = ms a)"

lemma loop_over_step:
  assumes over: "loop_over ms l" and st: "udp_loop_step ip_view udp_view env config e l = Some l'"
  shows "loop_over ms l'"
proof (cases e)
  case (Task te)
  with st obtain t where t: "is_flow_event te" "tun_step env config te (ul_tun l) = Some t" "l' = l\<lparr>ul_tun := t\<rparr>"
    by (auto simp: udp_loop_step_def split: if_splits)
  have "tun_inv (ul_tun l)" using over by (simp add: loop_over_def loop_inv_def)
  from flow_event_forwarded [OF this t(2,1)] over loop_step_inv [OF _ st] show ?thesis by (simp add: loop_over_def t(3))
qed (use over st in \<open>auto simp: udp_loop_step_def loop_over_def loop_inv_def\<close>)

interpretation loop_over_machine: invariant_machine "udp_loop_step ip_view udp_view env config" "loop_over ms"
  for ip_view udp_view env config ms
  by unfold_locales (rule loop_over_step)

section \<open>The end of the loop\<close>

text \<open>
  One malformed packet ends UDP for good. When the next packet of the channel is one that the reader cannot parse, the
  loop takes its \<open>None\<close> for the end of the stack: from then on, whatever arrives and however the tasks go on, no packet
  is received again and nothing more is forwarded from any local address.
\<close>

theorem malformed_packet_ends_udp:
  assumes "run_steps (udp_loop_step ip_view udp_view env config) es (udp_loop_new fd) = Some l"
    and "ul_channel l = bad # rest" and "split_read_parse ip_view udp_view bad = None"
    and "run_steps (udp_loop_step ip_view udp_view env config) (Receive alive # fs) l = Some l'"
  shows "ul_done l' \<and> (\<forall>a. forwarded (ul_tun l') a = forwarded (ul_tun l) a) \<and>
    (\<forall>al. udp_loop_step ip_view udp_view env config (Receive al) l' = None)"
proof -
  have "loop_inv (udp_loop_new fd)" using tun_inv_new by (simp add: loop_inv_def udp_loop_new_def)
  from loop_machine.run_inv [OF this assms(1)] have inv: "loop_inv l" .
  obtain l1 where l1: "udp_loop_step ip_view udp_view env config (Receive alive) l = Some l1"
    and rest: "run_steps (udp_loop_step ip_view udp_view env config) fs l1 = Some l'"
    using assms(4) by (rule run_steps_Cons_SomeE)
  have "loop_over (forwarded (ul_tun l)) l1"
    using l1 assms(2,3) inv by (auto simp: udp_loop_step_def split_read_recv_def loop_over_def loop_inv_def split: if_splits)
  from loop_over_machine.run_inv [OF this rest] have "loop_over (forwarded (ul_tun l)) l'" .
  then show ?thesis by (simp add: loop_over_def udp_loop_step_def)
qed

theorem malformed_packet_ends_udp_witness:
  "\<exists>l'. run_steps (udp_loop_step (\<lambda>_. None) (\<lambda>_. None) tiny_env tiny_config)
       ([Frame [0], Frame [1]] @ [Receive True, Frame [2]]) (udp_loop_new (fake_dns_new tiny_net)) = Some l' \<and>
     ul_done l' \<and> ul_channel l' = [[1], [2]]"
proof -
  let ?run = "run_steps (udp_loop_step (\<lambda>_. None) (\<lambda>_. None) tiny_env tiny_config)"
  let ?l = "udp_loop_new (fake_dns_new tiny_net)\<lparr>ul_channel := [[0], [1]]\<rparr>"
  have es: "?run [Frame [0], Frame [1]] (udp_loop_new (fake_dns_new tiny_net)) = Some ?l"
    by (simp add: udp_loop_step_def udp_loop_new_def)
  obtain l' where l': "?run [Receive True, Frame [2]] ?l = Some l'" and c: "ul_channel l' = [[1], [2]]"
    by (simp add: udp_loop_step_def udp_loop_new_def split_read_recv_def split_read_parse_def)
  have "ul_done l'"
    by (rule malformed_packet_ends_udp [OF es _ _ l', THEN conjunct1]) (simp_all add: split_read_parse_def)
  moreover have "?run ([Frame [0], Frame [1]] @ [Receive True, Frame [2]]) (udp_loop_new (fake_dns_new tiny_net)) = Some l'"
    unfolding run_steps_append es using l' by simp
  ultimately show ?thesis using c by blast
qed

end
