(* ===== verification/Tun_Tasks.thy ===== *)
theory Tun_Tasks
  imports Tun_Inbound
begin

text \<open>
  The tasks of the TUN endpoint together: \<open>accept_loop\<close> of \<open>crates/ombrac-client/src/endpoint/tun.rs\<close> with the four tasks it
  spawns and waits for, on the channels of the network stack (\<open>NetStack::new\<close>, \<open>split\<close>). Packets go from the device
  through the sink of \<open>Net_Stack\<close> into the channels of the UDP loop and of the TCP dispatcher; a task that ends drops its
  end of a channel. What the device gives and takes comes with the events.
\<close>

section \<open>State\<close>

text \<open>Forwarding into the stack: waiting for the device, waiting in \<open>stack_sink.send\<close>, ended.\<close>

datatype in_phase = InRead | InSend | InDone

text \<open>Forwarding to the device: waiting for the stack, waiting in \<open>tun_sink.send\<close>, ended.\<close>

datatype out_phase = OutRead | OutSend bytes | OutDone

text \<open>
  The UDP loop: waiting for a packet, handling one, waiting for room in the channel of its flow while it holds the entry of the
  map of sessions, ended.
\<close>

datatype udp_phase = UdpRead | UdpHandle stack_packet | UdpWait stack_packet | UdpDone

record 'n tun_endpoint =
  te_sink :: stack_sink
  te_in :: in_phase
  te_out :: out_phase
  te_udp :: udp_phase
  te_tun :: "'n tun_udp"
  te_accepting :: bool
  te_token :: bool
  te_returned :: bool
  te_read :: "bytes list"
  te_written :: "bytes list"
  te_relayed :: "(socket_addr \<times> socket_addr) list"

definition endpoint_new :: "nat \<Rightarrow> 'n fake_dns \<Rightarrow> 'n tun_endpoint" where
  "endpoint_new cap fd =
     \<lparr>te_sink = sink_new cap, te_in = InRead, te_out = OutRead, te_udp = UdpRead, te_tun = tun_udp_new fd,
      te_accepting = True, te_token = False, te_returned = False, te_read = [], te_written = [], te_relayed = []\<rparr>"

section \<open>Into the stack\<close>

text \<open>The last part of \<open>SinkExt::send\<close>: flush until it is ready.\<close>

definition in_flush :: "'n tun_endpoint \<Rightarrow> 'n tun_endpoint" where
  "in_flush s =
     (let (r, k) = sink_poll_flush (te_sink s)
      in s\<lparr>te_sink := k, te_in := (case r of Pending \<Rightarrow> InSend | Ready (Inr _) \<Rightarrow> InRead | Ready (Inl _) \<Rightarrow> InDone)\<rparr>)"

text \<open>\<open>stack_sink.send\<close> of a packet, and the branch of the loop around it.\<close>

definition forward_into_stack :: "(bytes \<Rightarrow> ip_protocol io_result) \<Rightarrow> bytes \<Rightarrow> 'n tun_endpoint \<Rightarrow> 'n tun_endpoint option" where
  "forward_into_stack proto_of p s =
     (case sink_poll_ready (te_sink s) of
        (Ready (Inr _), k1) \<Rightarrow>
          (case sink_start_send proto_of p k1 of
             (Inl err, k2) \<Rightarrow> Some (s\<lparr>te_sink := k2, te_in := InDone\<rparr>)
           | (Inr _, k2) \<Rightarrow> Some (in_flush (s\<lparr>te_sink := k2\<rparr>)))
      | _ \<Rightarrow> None)"

text \<open>
  \<open>DeviceNext\<close>: the device gives a packet, an error, or its end; \<open>SendPoll\<close>: the pending \<open>send\<close> is polled again. Nothing
  asks for this poll: \<open>poll_flush\<close> drops the future of \<open>reserve\<close>, and with it the waker it has registered. The token is looked
  at first, while the loop waits for the device.
\<close>

definition forward_packets_from_tun_to_stack ::
    "(bytes \<Rightarrow> ip_protocol io_result) \<Rightarrow> bytes io_result option \<Rightarrow> 'n tun_endpoint \<Rightarrow> 'n tun_endpoint option" where
  "forward_packets_from_tun_to_stack proto_of next_packet s =
     (if te_in s \<noteq> InRead then None
      else if te_token s then Some (s\<lparr>te_in := InDone\<rparr>)
      else (case next_packet of
              Some (Inr packet) \<Rightarrow> forward_into_stack proto_of packet (s\<lparr>te_read := te_read s @ [packet]\<rparr>)
            | Some (Inl err) \<Rightarrow> Some (s\<lparr>te_in := InDone\<rparr>)
            | None \<Rightarrow> Some (s\<lparr>te_in := InDone\<rparr>)))"

section \<open>To the device\<close>

definition forward_packets_from_stack_to_tun :: "bytes io_result option \<Rightarrow> 'n tun_endpoint \<Rightarrow> 'n tun_endpoint option" where
  "forward_packets_from_stack_to_tun packet_result s =
     (if te_out s \<noteq> OutRead then None
      else if te_token s then Some (s\<lparr>te_out := OutDone\<rparr>)
      else (case packet_result of
              Some (Inr packet) \<Rightarrow> Some (s\<lparr>te_out := OutSend packet\<rparr>)
            | Some (Inl err) \<Rightarrow> Some (s\<lparr>te_out := OutDone\<rparr>)
            | None \<Rightarrow> Some (s\<lparr>te_out := OutDone\<rparr>)))"

definition device_send_result :: "unit io_result \<Rightarrow> 'n tun_endpoint \<Rightarrow> 'n tun_endpoint option" where
  "device_send_result r s =
     (case te_out s of
        OutSend packet \<Rightarrow>
          (case r of
             Inl err \<Rightarrow> Some (s\<lparr>te_out := OutDone\<rparr>)
           | Inr _ \<Rightarrow> Some (s\<lparr>te_out := OutRead, te_written := te_written s @ [packet]\<rparr>))
      | _ \<Rightarrow> None)"

section \<open>The UDP loop and the TCP acceptor\<close>

text \<open>When the loop ends, its reader is dropped with the receiving end of the channel.\<close>

definition udp_end :: "'n tun_endpoint \<Rightarrow> 'n tun_endpoint" where
  "udp_end s =
     s\<lparr>te_udp := UdpDone,
       te_sink := (te_sink s)\<lparr>udp_inbound := (udp_inbound (te_sink s))\<lparr>sc_open := False\<rparr>\<rparr>\<rparr>"

text \<open>
  One turn of \<open>process_incoming_udp_packets\<close>: the token, or the reader's next packet. The channel has ended when it is
  empty and the sink is gone.
\<close>

definition process_incoming_udp_packets ::
    "(bytes \<Rightarrow> (nat \<times> ip_addr \<times> ip_addr) option) \<Rightarrow> (bytes \<Rightarrow> (u16 \<times> u16 \<times> nat) option) \<Rightarrow> 'n tun_endpoint \<Rightarrow> 'n tun_endpoint option" where
  "process_incoming_udp_packets ip_view udp_view s =
     (if te_udp s \<noteq> UdpRead then None
      else if te_token s then Some (udp_end s)
      else (case channel_take (udp_inbound (te_sink s)) of
              None \<Rightarrow> if te_in s = InDone then Some (udp_end s) else None
            | Some ch \<Rightarrow>
                (let s1 = s\<lparr>te_sink := (te_sink s)\<lparr>udp_inbound := ch\<rparr>\<rparr>
                 in case fst (split_read_recv ip_view udp_view (sc_queue (udp_inbound (te_sink s)))) of
                      None \<Rightarrow> Some (udp_end s1)
                    | Some packet \<Rightarrow> Some (s1\<lparr>te_udp := UdpHandle (as_stack_packet packet)\<rparr>))))"

text \<open>
  \<open>handle_udp_data_packet\<close> keeps the entry of the map of sessions while it waits for room in the channel, and with it the lock of
  the entry's shard: a flow with its key there cannot remove itself. Without capacity, creating the channel panics.
\<close>

definition handle_packet :: "'n tun_env \<Rightarrow> tun_config \<Rightarrow> bool \<Rightarrow> 'n tun_endpoint \<Rightarrow> 'n tun_endpoint option" where
  "handle_packet env config stack_alive s =
     (case te_udp s of
        UdpHandle packet \<Rightarrow>
          (case tun_step env config (TunPacket stack_alive packet) (te_tun s) of
             Some t \<Rightarrow> Some (s\<lparr>te_tun := t, te_udp := UdpRead\<rparr>)
           | None \<Rightarrow> if 0 < udp_session_channel_capacity config then Some (s\<lparr>te_udp := UdpWait packet\<rparr>) else None)
      | UdpWait packet \<Rightarrow>
          map_option (\<lambda>t. s\<lparr>te_tun := t, te_udp := UdpRead\<rparr>) (tun_step env config (TunPacket stack_alive packet) (te_tun s))
      | _ \<Rightarrow> None)"

definition entry_locked :: "'n tun_env \<Rightarrow> tun_event \<Rightarrow> 'n tun_endpoint \<Rightarrow> bool" where
  "entry_locked env te s \<longleftrightarrow>
     (case (te_udp s, te) of
        (UdpWait packet, FlowRemove f) \<Rightarrow>
          (case tun_flows (te_tun s) f of
             Some fl \<Rightarrow> shard_of env (fl_local fl) = shard_of env (sp_src packet)
           | None \<Rightarrow> False)
      | _ \<Rightarrow> False)"

definition accept_tcp_connections :: "(socket_addr \<times> socket_addr) option \<Rightarrow> 'n tun_endpoint \<Rightarrow> 'n tun_endpoint option" where
  "accept_tcp_connections stream_opt s =
     (if \<not> te_accepting s then None
      else if te_token s then Some (s\<lparr>te_accepting := False\<rparr>)
      else (case stream_opt of
              None \<Rightarrow> Some (s\<lparr>te_accepting := False\<rparr>)
            | Some stream \<Rightarrow> Some (s\<lparr>te_relayed := te_relayed s @ [stream]\<rparr>)))"

section \<open>The endpoint\<close>

text \<open>\<open>TcpTake\<close>: the dispatcher of the stack takes a packet; \<open>DispatcherEnd\<close>: it ends, with the stack or for a worker that is gone.\<close>

datatype tun_task_event =
    DeviceNext "bytes io_result option"
  | SendPoll
  | StackNext "bytes io_result option"
  | DeviceSent "unit io_result"
  | UdpTurn
  | UdpHandled bool
  | FlowTask tun_event
  | TcpNext "(socket_addr \<times> socket_addr) option"
  | TcpTake
  | DispatcherEnd
  | ShutdownSignal
  | AllJoined

definition all_ended :: "'n tun_endpoint \<Rightarrow> bool" where
  "all_ended s \<longleftrightarrow> te_in s = InDone \<and> te_out s = OutDone \<and> te_udp s = UdpDone \<and> \<not> te_accepting s"

definition tun_accept_loop ::
    "(bytes \<Rightarrow> ip_protocol io_result) \<Rightarrow> (bytes \<Rightarrow> (nat \<times> ip_addr \<times> ip_addr) option) \<Rightarrow>
     (bytes \<Rightarrow> (u16 \<times> u16 \<times> nat) option) \<Rightarrow> 'n tun_env \<Rightarrow> tun_config \<Rightarrow> tun_task_event \<Rightarrow> 'n tun_endpoint \<Rightarrow> 'n tun_endpoint option" where
  "tun_accept_loop proto_of ip_view udp_view env config e s =
     (case e of
        DeviceNext r \<Rightarrow> forward_packets_from_tun_to_stack proto_of r s
      | SendPoll \<Rightarrow> if te_in s = InSend then Some (in_flush s) else None
      | StackNext r \<Rightarrow> forward_packets_from_stack_to_tun r s
      | DeviceSent r \<Rightarrow> device_send_result r s
      | UdpTurn \<Rightarrow> process_incoming_udp_packets ip_view udp_view s
      | UdpHandled stack_alive \<Rightarrow> handle_packet env config stack_alive s
      | FlowTask te \<Rightarrow>
          if is_flow_event te \<and> \<not> entry_locked env te s then map_option (\<lambda>t. s\<lparr>te_tun := t\<rparr>) (tun_step env config te (te_tun s)) else None
      | TcpNext r \<Rightarrow> accept_tcp_connections r s
      | TcpTake \<Rightarrow>
          if sc_open (tcp_inbound (te_sink s))
          then map_option (\<lambda>ch. s\<lparr>te_sink := (te_sink s)\<lparr>tcp_inbound := ch\<rparr>\<rparr>) (channel_take (tcp_inbound (te_sink s)))
          else None
      | DispatcherEnd \<Rightarrow>
          Some (s\<lparr>te_sink := (te_sink s)\<lparr>tcp_inbound := (tcp_inbound (te_sink s))\<lparr>sc_open := False\<rparr>\<rparr>\<rparr>)
      | ShutdownSignal \<Rightarrow> if te_token s then None else Some (s\<lparr>te_token := True\<rparr>)
      | AllJoined \<Rightarrow> if te_token s \<and> all_ended s \<and> \<not> te_returned s then Some (s\<lparr>te_returned := True\<rparr>) else None)"

section \<open>Invariant\<close>

definition endpoint_inv :: "nat \<Rightarrow> 'n tun_endpoint \<Rightarrow> bool" where
  "endpoint_inv cap s \<longleftrightarrow>
     (te_in s = InRead \<longrightarrow> packet_container (te_sink s) = None) \<and>
     (te_in s = InSend \<longrightarrow> packet_container (te_sink s) \<noteq> None) \<and>
     (\<forall>p b. packet_container (te_sink s) \<noteq> Some (p, ProtoOther b)) \<and>
     (sc_open (udp_inbound (te_sink s)) \<longleftrightarrow> te_udp s \<noteq> UdpDone) \<and>
     sc_capacity (tcp_inbound (te_sink s)) = cap \<and> length (sc_queue (tcp_inbound (te_sink s))) \<le> cap \<and>
     tun_inv (te_tun s) \<and> (te_returned s \<longrightarrow> te_token s \<and> all_ended s)"

lemma endpoint_new_inv: "endpoint_inv cap (endpoint_new cap fd)"
  using tun_inv_new by (simp add: endpoint_inv_def endpoint_new_def sink_new_def)

text \<open>What a flush does to the sink: it keeps the packet exactly while it is pending, and takes nothing from the channels.\<close>

lemma sink_poll_flush_cases:
  assumes "sink_poll_flush k = (r, k')" and "\<forall>p b. packet_container k \<noteq> Some (p, ProtoOther b)"
  shows "packet_container k' = (if r = Pending then packet_container k else None)"
    and "sc_open (udp_inbound k') = sc_open (udp_inbound k)" and "sc_open (tcp_inbound k') = sc_open (tcp_inbound k)"
    and "sc_capacity (tcp_inbound k') = sc_capacity (tcp_inbound k)"
    and "length (sc_queue (tcp_inbound k)) \<le> sc_capacity (tcp_inbound k) \<Longrightarrow> length (sc_queue (tcp_inbound k')) \<le> sc_capacity (tcp_inbound k)"
  using assms
  by (auto simp: sink_poll_flush_def channel_push_def Let_def split: option.splits prod.splits ip_protocol.splits if_splits)

lemma in_flush_inv:
  assumes "te_in s \<noteq> InDone" and "\<forall>p b. packet_container (te_sink s) \<noteq> Some (p, ProtoOther b)"
    and "sc_open (udp_inbound (te_sink s)) \<longleftrightarrow> te_udp s \<noteq> UdpDone"
    and "sc_capacity (tcp_inbound (te_sink s)) = cap" "length (sc_queue (tcp_inbound (te_sink s))) \<le> cap"
    and "tun_inv (te_tun s)" "\<not> te_returned s"
  shows "endpoint_inv cap (in_flush s)"
proof -
  obtain r k where f: "sink_poll_flush (te_sink s) = (r, k)" by force
  have "packet_container (te_sink s) \<noteq> None" if "r = Pending"
    using f that by (cases "packet_container (te_sink s)") (auto simp: sink_poll_flush_def)
  with sink_poll_flush_cases [OF f assms(2)] assms f show ?thesis
    by (auto simp: in_flush_def endpoint_inv_def split: poll.splits sum.splits)
qed

lemma forward_into_stack_inv:
  assumes "endpoint_inv cap s" and "te_in s = InRead" and "forward_into_stack proto_of p s = Some s'"
  shows "endpoint_inv cap s'"
proof -
  have none: "packet_container (te_sink s) = None" using assms by (simp add: endpoint_inv_def)
  then have ready: "sink_poll_ready (te_sink s) = (Ready (Inr ()), te_sink s)" by (simp add: sink_poll_ready_def)
  obtain q k where st: "sink_start_send proto_of p (te_sink s) = (q, k)" by force
  then have k: "k = te_sink s \<or> (\<exists>proto. k = (te_sink s)\<lparr>packet_container := Some (p, proto)\<rparr> \<and> (\<forall>b. proto \<noteq> ProtoOther b))"
    by (auto simp: sink_start_send_def split: if_splits sum.splits ip_protocol.splits)
  have nr: "\<not> te_returned s" using assms(1,2) by (auto simp: endpoint_inv_def all_ended_def)
  show ?thesis
  proof (cases q)
    case (Inl err)
    with st have "k = te_sink s" by (auto simp: sink_start_send_def split: if_splits sum.splits ip_protocol.splits)
    with assms ready st Inl nr show ?thesis by (auto simp: forward_into_stack_def endpoint_inv_def)
  next
    case (Inr u)
    with assms ready st have s': "s' = in_flush (s\<lparr>te_sink := k\<rparr>)" by (simp add: forward_into_stack_def)
    show ?thesis unfolding s'
      by (rule in_flush_inv) (use assms(1,2) k nr none in \<open>auto simp: endpoint_inv_def\<close>)
  qed
qed

text \<open>A turn of the forwarding ends it or sends the packet that came.\<close>

lemma device_next_cases:
  assumes "tun_accept_loop proto_of ip_view udp_view env config (DeviceNext r) s = Some s'"
  obtains "te_in s = InRead" "s' = s\<lparr>te_in := InDone\<rparr>"
  | p where "te_in s = InRead" "\<not> te_token s" "r = Some (Inr p)" "forward_into_stack proto_of p (s\<lparr>te_read := te_read s @ [p]\<rparr>) = Some s'"
proof (cases "te_in s = InRead \<and> \<not> te_token s \<and> (\<exists>p. r = Some (Inr p))")
  case True
  then obtain p where "r = Some (Inr p)" by blast
  with True assms that(2) [of p] show thesis
    by (simp add: tun_accept_loop_def forward_packets_from_tun_to_stack_def)
next
  case False
  with assms have "te_in s = InRead" "s' = s\<lparr>te_in := InDone\<rparr>"
    by (simp_all add: tun_accept_loop_def forward_packets_from_tun_to_stack_def split: if_split_asm option.split_asm sum.split_asm)
  then show thesis by (intro that(1))
qed

lemma endpoint_step_inv:
  assumes inv: "endpoint_inv cap s" and st: "tun_accept_loop proto_of ip_view udp_view env config e s = Some s'"
  shows "endpoint_inv cap s'"
proof (cases e)
  case (DeviceNext r)
  have inv': "endpoint_inv cap (s\<lparr>te_read := x\<rparr>)" for x using inv by (simp add: endpoint_inv_def all_ended_def)
  from st [unfolded DeviceNext] show ?thesis
  proof (cases rule: device_next_cases)
    case 1
    with inv show ?thesis by (auto simp: endpoint_inv_def all_ended_def)
  next
    case (2 p)
    then show ?thesis using forward_into_stack_inv [OF inv' _ 2(4)] by simp
  qed
next
  case SendPoll
  with st have s: "te_in s = InSend" "s' = in_flush s" by (auto simp: tun_accept_loop_def split: if_splits)
  show ?thesis unfolding s(2) by (rule in_flush_inv) (use inv s(1) in \<open>auto simp: endpoint_inv_def all_ended_def\<close>)
next
  case (StackNext r)
  with st have "te_out s = OutRead" "\<exists>x. s' = s\<lparr>te_out := x\<rparr>"
    by (auto simp: tun_accept_loop_def forward_packets_from_stack_to_tun_def split: if_splits option.splits sum.splits)
  with inv show ?thesis by (auto simp: endpoint_inv_def all_ended_def)
next
  case (DeviceSent r)
  with st obtain p where p: "te_out s = OutSend p" by (auto simp: tun_accept_loop_def device_send_result_def split: out_phase.splits)
  show ?thesis
    by (cases r) (use st inv p DeviceSent in \<open>auto simp: tun_accept_loop_def device_send_result_def endpoint_inv_def all_ended_def\<close>)
next
  case UdpTurn
  with inv st show ?thesis
    by (auto simp: tun_accept_loop_def process_incoming_udp_packets_def udp_end_def channel_take_def endpoint_inv_def all_ended_def
        Let_def split: if_splits option.splits list.splits)
next
  case (UdpHandled al)
  with inv st tun_machine.step_inv [of "te_tun s" env config] show ?thesis
    by (auto simp: tun_accept_loop_def handle_packet_def endpoint_inv_def all_ended_def split: udp_phase.splits option.splits if_splits)
next
  case (FlowTask te)
  with inv st tun_machine.step_inv [of "te_tun s" env config] show ?thesis
    by (auto simp: tun_accept_loop_def endpoint_inv_def all_ended_def split: if_splits)
next
  case (TcpNext r)
  with inv st show ?thesis
    by (auto simp: tun_accept_loop_def accept_tcp_connections_def endpoint_inv_def all_ended_def split: if_splits option.splits)
next
  case TcpTake
  with inv st show ?thesis
    by (auto simp: tun_accept_loop_def channel_take_def endpoint_inv_def all_ended_def split: if_splits list.splits)
next
  case DispatcherEnd
  with inv st show ?thesis by (auto simp: tun_accept_loop_def endpoint_inv_def all_ended_def)
next
  case ShutdownSignal
  with inv st show ?thesis by (auto simp: tun_accept_loop_def endpoint_inv_def all_ended_def split: if_splits)
next
  case AllJoined
  with inv st show ?thesis by (auto simp: tun_accept_loop_def endpoint_inv_def all_ended_def split: if_splits)
qed

interpretation endpoint_machine: invariant_machine "tun_accept_loop proto_of ip_view udp_view env config" "endpoint_inv cap"
  for proto_of ip_view udp_view env config cap
  by unfold_locales (rule endpoint_step_inv)

section \<open>Where the endpoint dies\<close>

text \<open>The UDP loop has ended: what its flows have and will have got stays as it is.\<close>

definition udp_over :: "(socket_addr \<Rightarrow> datagram_msg list) \<Rightarrow> 'n tun_endpoint \<Rightarrow> bool" where
  "udp_over ms s \<longleftrightarrow> te_udp s = UdpDone \<and> tun_inv (te_tun s) \<and> (\<forall>a. forwarded (te_tun s) a = ms a)"

text \<open>Forwarding into the stack has ended: the TCP side gets what it has, and nothing is read.\<close>

definition in_over :: "bytes list \<Rightarrow> bytes list \<Rightarrow> 'n tun_endpoint \<Rightarrow> bool" where
  "in_over tcp rd s \<longleftrightarrow> te_in s = InDone \<and> te_read s = rd \<and>
     sc_taken (tcp_inbound (te_sink s)) @ sc_queue (tcp_inbound (te_sink s)) = tcp"

lemma in_flush_frame [simp]:
  "te_udp (in_flush s) = te_udp s" "te_tun (in_flush s) = te_tun s" "te_read (in_flush s) = te_read s"
  "te_token (in_flush s) = te_token s" "te_out (in_flush s) = te_out s" "te_accepting (in_flush s) = te_accepting s"
  "te_returned (in_flush s) = te_returned s"
  by (simp_all add: in_flush_def split_def Let_def)

lemma forward_into_stack_frame:
  assumes "forward_into_stack proto_of p s = Some s'"
  shows "te_udp s' = te_udp s" and "te_tun s' = te_tun s"
  using assms by (auto simp: forward_into_stack_def split: prod.splits poll.splits sum.splits)

lemma udp_over_step:
  assumes over: "udp_over ms s" and st: "tun_accept_loop proto_of ip_view udp_view env config e s = Some s'"
  shows "udp_over ms s'"
proof (cases e)
  case (DeviceNext r)
  from st [unfolded DeviceNext] have "te_udp s' = te_udp s \<and> te_tun s' = te_tun s"
    by (cases rule: device_next_cases) (auto dest: forward_into_stack_frame)
  with over show ?thesis by (simp add: udp_over_def)
next
  case (FlowTask te)
  with st obtain t where t: "is_flow_event te" "tun_step env config te (te_tun s) = Some t" "s' = s\<lparr>te_tun := t\<rparr>"
    by (auto simp: tun_accept_loop_def split: if_splits)
  have "tun_inv (te_tun s)" using over by (simp add: udp_over_def)
  from flow_event_forwarded [OF this t(2,1)] tun_machine.step_inv [OF this t(2)] over show ?thesis
    by (simp add: udp_over_def t(3))
next
  case (StackNext r)
  with over st show ?thesis
    by (auto simp: tun_accept_loop_def forward_packets_from_stack_to_tun_def udp_over_def split: if_splits option.splits sum.splits)
next
  case (DeviceSent r)
  with over st show ?thesis
    by (auto simp: tun_accept_loop_def device_send_result_def udp_over_def split: out_phase.splits sum.splits)
next
  case (TcpNext r)
  with over st show ?thesis
    by (auto simp: tun_accept_loop_def accept_tcp_connections_def udp_over_def split: if_splits option.splits)
qed (use over st in \<open>auto simp: tun_accept_loop_def process_incoming_udp_packets_def handle_packet_def udp_over_def split: if_splits\<close>)

interpretation udp_over_machine: invariant_machine "tun_accept_loop proto_of ip_view udp_view env config" "udp_over ms"
  for proto_of ip_view udp_view env config ms
  by unfold_locales (rule udp_over_step)

lemma in_over_step:
  assumes over: "in_over tcp rd s" and st: "tun_accept_loop proto_of ip_view udp_view env config e s = Some s'"
  shows "in_over tcp rd s'"
proof (cases e)
  case UdpTurn
  with over st show ?thesis
    by (auto simp: tun_accept_loop_def process_incoming_udp_packets_def udp_end_def in_over_def Let_def split: if_splits option.splits)
next
  case (UdpHandled al)
  with over st show ?thesis by (auto simp: tun_accept_loop_def handle_packet_def in_over_def split: udp_phase.splits option.splits if_splits)
next
  case (StackNext r)
  with over st show ?thesis
    by (auto simp: tun_accept_loop_def forward_packets_from_stack_to_tun_def in_over_def split: if_splits option.splits sum.splits)
next
  case (DeviceSent r)
  with over st show ?thesis
    by (auto simp: tun_accept_loop_def device_send_result_def in_over_def split: out_phase.splits sum.splits)
next
  case (TcpNext r)
  with over st show ?thesis
    by (auto simp: tun_accept_loop_def accept_tcp_connections_def in_over_def split: if_splits option.splits)
next
  case TcpTake
  with over st show ?thesis by (auto simp: tun_accept_loop_def channel_take_def in_over_def split: if_splits list.splits)
qed (use over st in \<open>auto simp: tun_accept_loop_def forward_packets_from_tun_to_stack_def in_over_def split: if_splits\<close>)

interpretation in_over_machine: invariant_machine "tun_accept_loop proto_of ip_view udp_view env config" "in_over tcp rd"
  for proto_of ip_view udp_view env config tcp rd
  by unfold_locales (rule in_over_step)

text \<open>A packet that the sink refuses, or a UDP packet when the UDP loop is gone, ends the forwarding.\<close>

lemma refused_packet_ends_forwarding:
  assumes inv: "endpoint_inv cap s" and "p \<noteq> []"
    and cause: "(\<exists>e. proto_of p = Inl e) \<or> proto_of p = Inr ProtoUdp \<and> te_udp s = UdpDone"
    and st: "tun_accept_loop proto_of ip_view udp_view env config (DeviceNext (Some (Inr p))) s = Some s'"
  shows "in_over (sc_taken (tcp_inbound (te_sink s)) @ sc_queue (tcp_inbound (te_sink s))) (te_read s') s'"
proof -
  have r: "te_in s = InRead" using st by (auto simp: tun_accept_loop_def forward_packets_from_tun_to_stack_def split: if_splits)
  with inv have none: "packet_container (te_sink s) = None" by (simp add: endpoint_inv_def)
  show ?thesis
  proof (cases "te_token s")
    case True
    with st r show ?thesis by (auto simp: tun_accept_loop_def forward_packets_from_tun_to_stack_def in_over_def)
  next
    case False
    with st r have f: "forward_into_stack proto_of p (s\<lparr>te_read := te_read s @ [p]\<rparr>) = Some s'"
      by (simp add: tun_accept_loop_def forward_packets_from_tun_to_stack_def)
    from cause show ?thesis
    proof
      assume "\<exists>e. proto_of p = Inl e"
      with f none \<open>p \<noteq> []\<close> show ?thesis
        by (auto simp: forward_into_stack_def sink_poll_ready_def sink_start_send_def in_over_def)
    next
      assume udp: "proto_of p = Inr ProtoUdp \<and> te_udp s = UdpDone"
      with inv have "\<not> sc_open (udp_inbound (te_sink s))" by (simp add: endpoint_inv_def)
      with f none \<open>p \<noteq> []\<close> udp show ?thesis
        by (auto simp: forward_into_stack_def sink_poll_ready_def sink_start_send_def in_flush_def sink_poll_flush_def channel_push_def
            in_over_def)
    qed
  qed
qed

lemma malformed_packet_ends_udp_task:
  assumes inv: "endpoint_inv cap s" and "sc_queue (udp_inbound (te_sink s)) = bad # rest"
    and "split_read_parse ip_view udp_view bad = None" and "tun_accept_loop proto_of ip_view udp_view env config UdpTurn s = Some s'"
  shows "udp_over (forwarded (te_tun s)) s'"
  using assms
  by (auto simp: tun_accept_loop_def process_incoming_udp_packets_def channel_take_def split_read_recv_def udp_end_def udp_over_def
      endpoint_inv_def split: if_splits)

text \<open>
  C18. One malformed UDP packet ends the whole endpoint, TCP included. When the UDP loop takes a packet that its reader cannot
  parse, it ends and drops its channel; at the next well-formed UDP packet that the device gives, the sink finds the
  channel closed, and the task that forwards the device's packets into the stack ends as well. From then on, however the
  tasks go on, nothing is read from the device, the TCP side of the stack gets no packet more than those it has, and
  no local address gets anything forwarded; the endpoint itself keeps running until it is told to shut down.
\<close>

theorem malformed_packet_ends_tun:
  assumes "run_steps (tun_accept_loop proto_of ip_view udp_view env config) es (endpoint_new cap fd) = Some s"
    and "sc_queue (udp_inbound (te_sink s)) = bad # rest" and "split_read_parse ip_view udp_view bad = None"
    and "run_steps (tun_accept_loop proto_of ip_view udp_view env config) (UdpTurn # fs) s = Some t"
    and "proto_of p = Inr ProtoUdp" and "p \<noteq> []"
    and "run_steps (tun_accept_loop proto_of ip_view udp_view env config) (DeviceNext (Some (Inr p)) # gs) t = Some u"
  shows "te_in u = InDone \<and> te_udp u = UdpDone \<and>
    (\<forall>next_packet. tun_accept_loop proto_of ip_view udp_view env config (DeviceNext next_packet) u = None) \<and>
    sc_taken (tcp_inbound (te_sink u)) @ sc_queue (tcp_inbound (te_sink u)) =
      sc_taken (tcp_inbound (te_sink t)) @ sc_queue (tcp_inbound (te_sink t)) \<and>
    (\<forall>a. forwarded (te_tun u) a = forwarded (te_tun s) a) \<and> (te_returned u \<longrightarrow> te_token u)"
proof -
  let ?step = "tun_accept_loop proto_of ip_view udp_view env config"
  have inv_s: "endpoint_inv cap s" using endpoint_machine.run_inv [OF endpoint_new_inv assms(1)] .
  have inv_t: "endpoint_inv cap t" using endpoint_machine.run_inv [OF inv_s assms(4)] .
  have inv_u: "endpoint_inv cap u" using endpoint_machine.run_inv [OF inv_t assms(7)] .
  obtain s1 where s1: "?step UdpTurn s = Some s1" "run_steps ?step fs s1 = Some t"
    using assms(4) by (rule run_steps_Cons_SomeE)
  have over_t: "udp_over (forwarded (te_tun s)) t"
    using udp_over_machine.run_inv [OF malformed_packet_ends_udp_task [OF inv_s assms(2,3) s1(1)] s1(2)] .
  have over_u: "udp_over (forwarded (te_tun s)) u" using udp_over_machine.run_inv [OF over_t assms(7)] .
  obtain t1 where t1: "?step (DeviceNext (Some (Inr p))) t = Some t1" "run_steps ?step gs t1 = Some u"
    using assms(7) by (rule run_steps_Cons_SomeE)
  have "proto_of p = Inr ProtoUdp \<and> te_udp t = UdpDone" using over_t assms(5) by (simp add: udp_over_def)
  from refused_packet_ends_forwarding [OF inv_t assms(6) disjI2 [OF this] t1(1)]
  have "in_over (sc_taken (tcp_inbound (te_sink t)) @ sc_queue (tcp_inbound (te_sink t))) (te_read t1) u"
    using in_over_machine.run_inv t1(2) by blast
  with over_u inv_u show ?thesis
    by (auto simp: in_over_def udp_over_def endpoint_inv_def tun_accept_loop_def forward_packets_from_tun_to_stack_def)
qed

text \<open>The first packet is no UDP packet inside; the second one ends the forwarding, and a TCP packet that waits is not read.\<close>

theorem malformed_packet_ends_tun_witness:
  "\<exists>s t u. run_steps (tun_accept_loop tiny_proto (\<lambda>_. None) (\<lambda>_. None) tiny_env tiny_config) [DeviceNext (Some (Inr [17, 1]))]
       (endpoint_new 4 (fake_dns_new tiny_net)) = Some s \<and>
     run_steps (tun_accept_loop tiny_proto (\<lambda>_. None) (\<lambda>_. None) tiny_env tiny_config) [UdpTurn] s = Some t \<and>
     run_steps (tun_accept_loop tiny_proto (\<lambda>_. None) (\<lambda>_. None) tiny_env tiny_config) [DeviceNext (Some (Inr [17, 2]))] t = Some u \<and>
     te_in u = InDone \<and> te_udp u = UdpDone \<and>
     tun_accept_loop tiny_proto (\<lambda>_. None) (\<lambda>_. None) tiny_env tiny_config (DeviceNext (Some (Inr [6]))) u = None"
proof -
  let ?step = "tun_accept_loop tiny_proto (\<lambda>_. None) (\<lambda>_. None) tiny_env tiny_config"
  note ev = tun_accept_loop_def forward_packets_from_tun_to_stack_def forward_into_stack_def sink_poll_ready_def sink_start_send_def
    in_flush_def sink_poll_flush_def channel_push_def endpoint_new_def sink_new_def tiny_proto_def
    process_incoming_udp_packets_def channel_take_def split_read_recv_def split_read_parse_def udp_end_def
  obtain s where s: "run_steps ?step [DeviceNext (Some (Inr [17, 1]))] (endpoint_new 4 (fake_dns_new tiny_net)) = Some s"
    and q: "sc_queue (udp_inbound (te_sink s)) = [[17, 1]]" and idle: "te_udp s = UdpRead" "te_in s = InRead" "\<not> te_token s"
    and none: "packet_container (te_sink s) = None"
    by (simp add: ev)
  obtain t where t: "run_steps ?step [UdpTurn] s = Some t" and t': "te_in t = InRead" "\<not> te_token t"
    "packet_container (te_sink t) = None" "\<not> sc_open (udp_inbound (te_sink t))"
    using q idle none by (simp add: ev)
  obtain u where u: "run_steps ?step [DeviceNext (Some (Inr [17, 2]))] t = Some u"
    using t' by (simp add: ev)
  have p: "tiny_proto [17, 2] = Inr ProtoUdp" by (simp add: tiny_proto_def)
  have b: "split_read_parse (\<lambda>_. None) (\<lambda>_. None) [17, 1] = None" by (simp add: split_read_parse_def)
  from malformed_packet_ends_tun [OF s q b t p _ u] s t u show ?thesis by blast
qed

section \<open>The endpoint can always shut down\<close>

text \<open>The channels of the flows keep within their capacity.\<close>

definition flows_within :: "nat \<Rightarrow> 'n tun_udp \<Rightarrow> bool" where
  "flows_within c t \<longleftrightarrow> (\<forall>f fl. tun_flows t f = Some fl \<longrightarrow> length (fl_queue fl) \<le> c)"

lemma handle_udp_data_packet_within:
  assumes "flows_within (udp_session_channel_capacity config) t" and "handle_udp_data_packet env config p t = Some (r, t')"
  shows "flows_within (udp_session_channel_capacity config) t'"
  using assms by (auto simp: handle_udp_data_packet_def flows_within_def flow_new_def Let_def
      split: sum.splits option.splits if_splits)

lemma tun_step_within:
  assumes within: "flows_within (udp_session_channel_capacity config) t" and st: "tun_step env config e t = Some t'"
  shows "flows_within (udp_session_channel_capacity config) t'"
proof (cases e)
  case (TunPacket al p)
  with st handle_udp_data_packet_within [OF within] within show ?thesis
    by (auto simp: tun_step_def process_udp_packet_def flows_within_def handle_dns_query_packet_frame split: if_splits)
next
  case (FlowSend f)
  with within st show ?thesis
    by (fastforce simp: tun_step_def with_flow_def flow_send_def flows_within_def split: option.splits if_splits list.splits)
next
  case (FlowRecv f al b a)
  with within st show ?thesis
    by (fastforce simp: tun_step_def with_flow_def flow_recv_def write_packet_def flows_within_def Let_def
        split: option.splits if_splits)
next
  case (FlowIdle f)
  with within st show ?thesis
    by (fastforce simp: tun_step_def with_flow_def flows_within_def split: option.splits if_splits)
next
  case (FlowRemove f)
  with within st show ?thesis
    by (fastforce simp: tun_step_def with_flow_def flows_within_def split: option.splits if_splits)
qed

definition channels_within :: "nat \<Rightarrow> 'n tun_endpoint \<Rightarrow> bool" where
  "channels_within c s \<longleftrightarrow> flows_within c (te_tun s)"

lemma channels_within_step:
  assumes within: "channels_within (udp_session_channel_capacity config) s"
    and st: "tun_accept_loop proto_of ip_view udp_view env config e s = Some s'"
  shows "channels_within (udp_session_channel_capacity config) s'"
proof -
  have "te_tun s' = te_tun s \<or> (\<exists>te. tun_step env config te (te_tun s) = Some (te_tun s'))"
  proof (cases e)
    case (DeviceNext r)
    from st [unfolded DeviceNext] show ?thesis
      by (cases rule: device_next_cases) (auto dest: forward_into_stack_frame)
  next
    case (UdpHandled al)
    with st show ?thesis by (auto simp: tun_accept_loop_def handle_packet_def split: udp_phase.splits option.splits if_splits)
  next
    case (FlowTask te)
    with st show ?thesis by (auto simp: tun_accept_loop_def split: if_splits)
  next
    case UdpTurn
    with st show ?thesis
      by (auto simp: tun_accept_loop_def process_incoming_udp_packets_def udp_end_def Let_def split: if_splits option.splits)
  qed (use st in \<open>auto simp: tun_accept_loop_def forward_packets_from_stack_to_tun_def device_send_result_def
      accept_tcp_connections_def split: if_splits option.splits sum.splits out_phase.splits\<close>)
  with within tun_step_within show ?thesis by (metis channels_within_def)
qed

interpretation within_machine: invariant_machine "tun_accept_loop proto_of ip_view udp_view env config"
    "channels_within (udp_session_channel_capacity config)"
  for proto_of ip_view udp_view env config
  by unfold_locales (rule channels_within_step)

text \<open>A packet waits exactly for room in the channel of a flow that is there.\<close>

lemma packet_waits_iff:
  assumes inv: "tun_inv t" and cap: "0 < udp_session_channel_capacity config"
  shows "tun_step env config (TunPacket al packet) t = None \<longleftrightarrow>
    sa_port (sp_dst packet) \<noteq> 53 \<and> \<not> (disable_udp_443 config \<and> sa_port (sp_dst packet) = 443) \<and>
    (\<exists>addr f fl. tunnel_target (name_to_utf8 env) config (tun_fakedns t) (sp_src packet) (sp_dst packet) = Inr addr \<and>
       active_sessions t (sp_src packet) = Some f \<and> tun_flows t f = Some fl \<and> fl_phase fl \<noteq> FlowDone \<and>
       udp_session_channel_capacity config \<le> length (fl_queue fl))"
proof (cases "active_sessions t (sp_src packet)")
  case None
  with cap show ?thesis
    by (simp add: tun_step_def process_udp_packet_def handle_udp_data_packet_def Let_def split: sum.split)
next
  case (Some f)
  then obtain fl where "tun_flows t f = Some fl" "fl_phase fl \<noteq> FlowDone" using tun_invD(2) [OF inv] by blast
  with Some show ?thesis
    by (simp add: tun_step_def process_udp_packet_def handle_udp_data_packet_def Let_def not_less split: sum.split)
qed

section \<open>Where the endpoint hangs\<close>

text \<open>
  The UDP loop waits for room in the channel of a flow that has left its loop: the flow removes itself before it drops the receiver, and
  for that needs the entry the UDP loop holds.
\<close>

definition flow_deadlock :: "'n tun_env \<Rightarrow> tun_config \<Rightarrow> 'n tun_endpoint \<Rightarrow> bool" where
  "flow_deadlock env config s \<longleftrightarrow>
     (case te_udp s of
        UdpWait packet \<Rightarrow>
          tun_step env config (TunPacket True packet) (te_tun s) = None \<and>
          (case active_sessions (te_tun s) (sp_src packet) of
             None \<Rightarrow> False
           | Some f \<Rightarrow> (case tun_flows (te_tun s) f of None \<Rightarrow> False | Some fl \<Rightarrow> fl_phase fl = FlowBroken))
      | _ \<Rightarrow> False)"

text \<open>Or the forwarding into the stack waits for a poll that nothing asks for.\<close>

definition tun_stuck :: "'n tun_env \<Rightarrow> tun_config \<Rightarrow> 'n tun_endpoint \<Rightarrow> bool" where
  "tun_stuck env config s \<longleftrightarrow> te_in s = InSend \<or> flow_deadlock env config s"

lemma flow_deadlock_same:
  "te_udp s' = te_udp s \<Longrightarrow> te_tun s' = te_tun s \<Longrightarrow> flow_deadlock env config s' = flow_deadlock env config s"
  by (simp only: flow_deadlock_def)

lemma tun_stuck_token [simp]: "tun_stuck env config (s\<lparr>te_token := b\<rparr>) = tun_stuck env config s"
  using flow_deadlock_same [of "s\<lparr>te_token := b\<rparr>" s env config] by (simp add: tun_stuck_def)

lemma flow_deadlockE:
  assumes "flow_deadlock env config s" and inv: "tun_inv (te_tun s)" and cap: "0 < udp_session_channel_capacity config"
  obtains packet f fl where "te_udp s = UdpWait packet" and "\<And>al. tun_step env config (TunPacket al packet) (te_tun s) = None"
    and "active_sessions (te_tun s) (sp_src packet) = Some f" and "tun_flows (te_tun s) f = Some fl"
    and "fl_phase fl = FlowBroken" and "fl_local fl = sp_src packet"
proof -
  from assms(1) obtain packet f fl where p: "te_udp s = UdpWait packet" "tun_step env config (TunPacket True packet) (te_tun s) = None"
    "active_sessions (te_tun s) (sp_src packet) = Some f" "tun_flows (te_tun s) f = Some fl" "fl_phase fl = FlowBroken"
    by (auto simp: flow_deadlock_def split: udp_phase.splits option.splits)
  have "fl_local fl = sp_src packet" using tun_invD(2) [OF inv p(3)] p(4) by simp
  moreover have "tun_step env config (TunPacket al packet) (te_tun s) = None" for al
    using p(2) by (simp add: packet_waits_iff [OF inv cap])
  ultimately show thesis using that p by blast
qed

lemma flow_task_keeps:
  assumes "tun_step env config te t = Some t'" and "is_flow_event te" and "active_sessions t a = Some f"
    and "tun_flows t f = Some fl" and "fl_phase fl = FlowBroken" and "\<forall>g h. te = FlowRemove g \<longrightarrow> tun_flows t g = Some h \<longrightarrow> fl_local h \<noteq> a"
    and "fl_local fl = a"
  shows "tun_flows t' f = Some fl \<and> active_sessions t' a = Some f \<and> tun_fakedns t' = tun_fakedns t"
  using assms
  by (cases te)
    (auto simp: tun_step_def with_flow_def is_flow_event_def flow_recv_def write_packet_def Let_def split: option.splits if_splits)

lemma flow_deadlock_step:
  assumes inv: "endpoint_inv cap s" and cap: "0 < udp_session_channel_capacity config" and dead: "flow_deadlock env config s"
    and st: "tun_accept_loop proto_of ip_view udp_view env config e s = Some s'"
  shows "flow_deadlock env config s'"
proof -
  have ti: "tun_inv (te_tun s)" using inv by (simp add: endpoint_inv_def)
  from dead ti cap obtain packet f fl where p: "te_udp s = UdpWait packet" "\<And>al. tun_step env config (TunPacket al packet) (te_tun s) = None"
    "active_sessions (te_tun s) (sp_src packet) = Some f" "tun_flows (te_tun s) f = Some fl" "fl_phase fl = FlowBroken"
    "fl_local fl = sp_src packet" by (rule flow_deadlockE) blast
  have same: "te_udp s' = te_udp s \<and> te_tun s' = te_tun s" if "\<And>te. e \<noteq> FlowTask te"
  proof (cases e)
    case (DeviceNext r)
    from st [unfolded DeviceNext] show ?thesis
      by (cases rule: device_next_cases) (auto dest: forward_into_stack_frame)
  next
    case (StackNext r)
    with st show ?thesis
      by (auto simp: tun_accept_loop_def forward_packets_from_stack_to_tun_def split: if_splits option.splits sum.splits)
  next
    case (DeviceSent r)
    with st show ?thesis by (auto simp: tun_accept_loop_def device_send_result_def split: out_phase.splits sum.splits)
  next
    case (TcpNext r)
    with st show ?thesis by (auto simp: tun_accept_loop_def accept_tcp_connections_def split: if_splits option.splits)
  next
    case (UdpHandled al)
    with st p(1,2) show ?thesis by (simp add: tun_accept_loop_def handle_packet_def)
  next
    case UdpTurn
    with st p(1) show ?thesis by (simp add: tun_accept_loop_def process_incoming_udp_packets_def)
  qed (use st that in \<open>auto simp: tun_accept_loop_def split: if_splits\<close>)
  show ?thesis
  proof (cases "\<exists>te. e = FlowTask te")
    case True
    then obtain te where FlowTask: "e = FlowTask te" by blast
    with st obtain t where t: "is_flow_event te" "\<not> entry_locked env te s" "tun_step env config te (te_tun s) = Some t" "s' = s\<lparr>te_tun := t\<rparr>"
      by (auto simp: tun_accept_loop_def split: if_splits)
    have "tun_flows t f = Some fl \<and> active_sessions t (sp_src packet) = Some f \<and> tun_fakedns t = tun_fakedns (te_tun s)"
      using t(2) p(1) by (intro flow_task_keeps [OF t(3,1) p(3,4,5) _ p(6)]) (auto simp: entry_locked_def)
    moreover have "tun_inv t" using tun_machine.step_inv [OF ti t(3)] .
    moreover have "tun_step env config (TunPacket True packet) t = None"
      using p(2) [of True] p(3,4) calculation by (simp add: packet_waits_iff [OF _ cap] ti)
    ultimately show ?thesis using p(1,5) by (simp add: flow_deadlock_def t(4))
  next
    case False
    with same have "te_udp s' = te_udp s" "te_tun s' = te_tun s" by blast+
    from flow_deadlock_same [OF this] dead show ?thesis by (rule iffD2)
  qed
qed

text \<open>Without that poll a hanging endpoint hangs forever.\<close>

lemma tun_stuck_step:
  assumes inv: "endpoint_inv cap s \<and> tun_stuck env config s" and cap: "0 < udp_session_channel_capacity config"
    and st: "avoiding SendPoll (tun_accept_loop proto_of ip_view udp_view env config) e s = Some s'"
  shows "endpoint_inv cap s' \<and> tun_stuck env config s'"
proof -
  have e: "e \<noteq> SendPoll" and st: "tun_accept_loop proto_of ip_view udp_view env config e s = Some s'"
    using st by (auto simp: avoiding_def split: if_splits)
  have "te_in s' = InSend" if "te_in s = InSend"
    using st e that
    by (cases e)
      (auto simp: tun_accept_loop_def forward_packets_from_tun_to_stack_def forward_packets_from_stack_to_tun_def
        device_send_result_def process_incoming_udp_packets_def udp_end_def handle_packet_def accept_tcp_connections_def Let_def
        split: if_splits option.splits sum.splits out_phase.splits udp_phase.splits)
  moreover have "flow_deadlock env config s'" if "flow_deadlock env config s"
    using flow_deadlock_step [OF _ cap that st] inv by blast
  moreover have "endpoint_inv cap s'" using endpoint_machine.step_inv [OF _ st] inv by blast
  ultimately show ?thesis using inv by (auto simp: tun_stuck_def)
qed

lemma tun_stuck_run:
  assumes cap: "0 < udp_session_channel_capacity config"
  shows "endpoint_inv cap s \<and> tun_stuck env config s \<Longrightarrow>
    run_steps (avoiding SendPoll (tun_accept_loop proto_of ip_view udp_view env config)) es s = Some t \<Longrightarrow>
    endpoint_inv cap t \<and> tun_stuck env config t"
proof (induction es arbitrary: s)
  case (Cons e es)
  from Cons.prems(2) obtain s1 where
    "avoiding SendPoll (tun_accept_loop proto_of ip_view udp_view env config) e s = Some s1"
    "run_steps (avoiding SendPoll (tun_accept_loop proto_of ip_view udp_view env config)) es s1 = Some t"
    by (rule run_steps_Cons_SomeE)
  with Cons.IH tun_stuck_step [OF Cons.prems(1) cap] show ?case by blast
qed simp

lemma stuck_not_returned: "endpoint_inv cap s \<Longrightarrow> tun_stuck env config s \<Longrightarrow> \<not> te_returned s"
  by (auto simp: tun_stuck_def flow_deadlock_def endpoint_inv_def all_ended_def)

section \<open>The endpoint can shut down unless it hangs\<close>

abbreviation woken ::
    "(bytes \<Rightarrow> ip_protocol io_result) \<Rightarrow> (bytes \<Rightarrow> (nat \<times> ip_addr \<times> ip_addr) option) \<Rightarrow>
     (bytes \<Rightarrow> (u16 \<times> u16 \<times> nat) option) \<Rightarrow> 'n tun_env \<Rightarrow> tun_config \<Rightarrow> tun_task_event \<Rightarrow> 'n tun_endpoint \<Rightarrow> 'n tun_endpoint option" where
  "woken proto_of ip_view udp_view env config \<equiv> avoiding SendPoll (tun_accept_loop proto_of ip_view udp_view env config)"

text \<open>A packet that is being handled gets through after at most one step of the flow it waits for.\<close>

lemma packet_gets_through:
  assumes inv: "tun_inv t" and cap: "0 < udp_session_channel_capacity config"
    and within: "flows_within (udp_session_channel_capacity config) t"
  shows "(\<exists>t1. tun_step env config (TunPacket al packet) t = Some t1) \<or>
    (\<exists>te t1 t2. is_flow_event te \<and> tun_step env config te t = Some t1 \<and> tun_step env config (TunPacket al packet) t1 = Some t2 \<and>
       (\<forall>f. te = FlowRemove f \<longrightarrow> active_sessions t (sp_src packet) = Some f \<and> (\<exists>fl. tun_flows t f = Some fl \<and> fl_phase fl = FlowBroken)))"
proof (cases "tun_step env config (TunPacket al packet) t")
  case None
  then obtain addr f fl where stuck: "sa_port (sp_dst packet) \<noteq> 53" "\<not> (disable_udp_443 config \<and> sa_port (sp_dst packet) = 443)"
    and addr: "tunnel_target (name_to_utf8 env) config (tun_fakedns t) (sp_src packet) (sp_dst packet) = Inr addr"
    and f: "active_sessions t (sp_src packet) = Some f" and fl: "tun_flows t f = Some fl" "fl_phase fl \<noteq> FlowDone"
    and full: "udp_session_channel_capacity config \<le> length (fl_queue fl)"
    by (auto simp: packet_waits_iff [OF inv cap])
  show ?thesis
  proof (cases "fl_phase fl")
    case FlowRunning
    from full cap obtain m ms where q: "fl_queue fl = m # ms" by (cases "fl_queue fl") auto
    obtain fl' where s: "flow_send fl = Some fl'" "fl_queue fl' = ms" "fl_phase fl' = FlowRunning"
      using q FlowRunning by (cases m) (auto simp: flow_send_def)
    have short: "length ms < udp_session_channel_capacity config"
      using within [unfolded flows_within_def, rule_format, OF fl(1)] q by simp
    let ?t = "t\<lparr>tun_flows := (tun_flows t)(f \<mapsto> fl')\<rparr>"
    have "tun_step env config (FlowSend f) t = Some ?t" using fl FlowRunning s by (simp add: tun_step_def with_flow_def)
    moreover have "\<exists>t2. tun_step env config (TunPacket al packet) ?t = Some t2"
      using short stuck addr f s by (simp add: tun_step_def process_udp_packet_def handle_udp_data_packet_def Let_def)
    moreover have "is_flow_event (FlowSend f)" by (simp add: is_flow_event_def)
    ultimately show ?thesis by blast
  next
    case FlowBroken
    let ?t = "t\<lparr>active_sessions := (active_sessions t)(fl_local fl := None), tun_flows := (tun_flows t)(f \<mapsto> fl\<lparr>fl_phase := FlowDone\<rparr>)\<rparr>"
    have "tun_step env config (FlowRemove f) t = Some ?t" using fl FlowBroken by (simp add: tun_step_def with_flow_def)
    moreover have "fl_local fl = sp_src packet" using tun_invD(2) [OF inv f] fl by simp
    then have "\<exists>t2. tun_step env config (TunPacket al packet) ?t = Some t2"
      using stuck addr cap by (simp add: tun_step_def process_udp_packet_def handle_udp_data_packet_def Let_def)
    moreover have "is_flow_event (FlowRemove f)" by (simp add: is_flow_event_def)
    ultimately show ?thesis using f fl(1) FlowBroken by blast
  qed (use fl in simp)
qed auto

text \<open>Each task ends when the token is cancelled: the UDP loop, then the forwarding into the stack, to the device, and the acceptor.\<close>

definition ending :: "nat \<Rightarrow> 'n tun_env \<Rightarrow> tun_config \<Rightarrow> 'n tun_endpoint \<Rightarrow> bool" where
  "ending cap env config s \<longleftrightarrow> endpoint_inv cap s \<and> channels_within (udp_session_channel_capacity config) s \<and>
     te_token s \<and> \<not> te_returned s \<and> \<not> tun_stuck env config s"

lemma udp_task_ends:
  assumes s: "ending cap env config s" and cap: "0 < udp_session_channel_capacity config"
  shows "\<exists>t. reaches (woken proto_of ip_view udp_view env config) 3 s t \<and> te_udp t = UdpDone \<and> te_token t \<and> \<not> te_returned t \<and> te_in t \<noteq> InSend"
proof -
  let ?step = "woken proto_of ip_view udp_view env config"
  note rs = reaches_step [where step = ?step] and ro = reaches_one [where step = ?step]
  have turn: "te_udp a = UdpRead \<Longrightarrow> te_token a \<Longrightarrow> ?step UdpTurn a = Some (udp_end a)" for a
    by (simp add: avoiding_def tun_accept_loop_def process_incoming_udp_packets_def)
  have fin_frame: "te_udp (udp_end a) = UdpDone" "te_token (udp_end a) = te_token a" "te_returned (udp_end a) = te_returned a"
    "te_in (udp_end a) = te_in a" for a :: "'a tun_endpoint"
    by (simp_all add: udp_end_def)
  have tok: "te_token s" "\<not> te_returned s" "te_in s \<noteq> InSend" using s by (simp_all add: ending_def tun_stuck_def)
  have ti: "tun_inv (te_tun s)" "flows_within (udp_session_channel_capacity config) (te_tun s)"
    using s by (simp_all add: ending_def endpoint_inv_def channels_within_def)
  have handling: "\<exists>t. reaches ?step 3 s t \<and> te_udp t = UdpDone \<and> te_token t \<and> \<not> te_returned t \<and> te_in t \<noteq> InSend"
    if p: "te_udp s = UdpHandle packet \<or> te_udp s = UdpWait packet" for packet
  proof -
    have handle: "?step (UdpHandled True) a = Some (a\<lparr>te_tun := t1, te_udp := UdpRead\<rparr>)"
      if "te_udp a = te_udp s" "tun_step env config (TunPacket True packet) (te_tun a) = Some t1" for a t1
      using that p by (auto simp: avoiding_def tun_accept_loop_def handle_packet_def)
    have fin: "\<exists>t. reaches ?step 2 a t \<and> te_udp t = UdpDone \<and> te_token t \<and> \<not> te_returned t \<and> te_in t \<noteq> InSend"
      if "te_udp a = te_udp s" "tun_step env config (TunPacket True packet) (te_tun a) = Some t1" "te_token a" "\<not> te_returned a"
        "te_in a \<noteq> InSend" for a t1
    proof -
      let ?b = "a\<lparr>te_tun := t1, te_udp := UdpRead\<rparr>"
      have "?step UdpTurn ?b = Some (udp_end ?b)" using that by (intro turn) simp_all
      from rs [OF handle [OF that(1,2)] ro [OF this]] that show ?thesis
        by (intro exI [of _ "udp_end ?b"]) (simp add: fin_frame numeral_2_eq_2)
    qed
    from packet_gets_through [OF ti(1) cap ti(2), of env True packet] show ?thesis
    proof (elim disjE exE conjE)
      fix t1 assume "tun_step env config (TunPacket True packet) (te_tun s) = Some t1"
      from fin [OF refl this tok] show ?thesis by (blast intro: reaches_2_3)
    next
      fix te t1 t2
      assume te: "is_flow_event te" "tun_step env config te (te_tun s) = Some t1" "tun_step env config (TunPacket True packet) t1 = Some t2"
        and own: "\<forall>f. te = FlowRemove f \<longrightarrow> active_sessions (te_tun s) (sp_src packet) = Some f \<and>
          (\<exists>fl. tun_flows (te_tun s) f = Some fl \<and> fl_phase fl = FlowBroken)"
      show ?thesis
      proof (cases "tun_step env config (TunPacket True packet) (te_tun s)")
        case None
        have "te \<noteq> FlowRemove f" if "te_udp s = UdpWait packet" for f
          using own that None s by (auto simp: ending_def tun_stuck_def flow_deadlock_def)
        then have "\<not> entry_locked env te s" using p by (cases te) (auto simp: entry_locked_def)
        let ?a = "s\<lparr>te_tun := t1\<rparr>"
        have a: "?step (FlowTask te) s = Some ?a" using te \<open>\<not> entry_locked env te s\<close> by (simp add: avoiding_def tun_accept_loop_def)
        obtain t where "reaches ?step 2 ?a t" "te_udp t = UdpDone" "te_token t" "\<not> te_returned t" "te_in t \<noteq> InSend"
          using fin [of ?a t2] te(3) tok by auto
        with rs [OF a this(1)] show ?thesis by (auto simp: numeral_3_eq_3 numeral_2_eq_2)
      next
        case (Some t3)
        from fin [OF refl this tok] show ?thesis by (blast intro: reaches_2_3)
      qed
    qed
  qed
  show ?thesis
  proof (cases "te_udp s")
    case UdpRead
    from rs [OF turn [OF this tok(1)] reaches_refl, of 2] tok show ?thesis
      by (intro exI [of _ "udp_end s"]) (simp add: fin_frame numeral_3_eq_3)
  next
    case UdpDone
    with tok show ?thesis by (intro exI [of _ s]) simp
  qed (use handling in blast)+
qed

lemma in_task_ends:
  assumes "te_token s" "te_udp s = UdpDone" "te_in s \<noteq> InSend"
  shows "\<exists>t. reaches (woken proto_of ip_view udp_view env config) 1 s t \<and> te_in t = InDone \<and> te_udp t = UdpDone \<and>
    te_token t \<and> te_returned t = te_returned s"
proof (cases "te_in s")
  case InRead
  let ?t = "s\<lparr>te_in := InDone\<rparr>"
  have "woken proto_of ip_view udp_view env config (DeviceNext None) s = Some ?t"
    using assms InRead by (simp add: avoiding_def tun_accept_loop_def forward_packets_from_tun_to_stack_def)
  from reaches_one [where step = "woken proto_of ip_view udp_view env config", OF this] assms show ?thesis
    by (intro exI [of _ ?t]) simp
qed (use assms in \<open>auto intro!: exI [of _ s]\<close>)

text \<open>What is left when the two tasks at the sink have ended: at most a packet at the device, the acceptor, and joining.\<close>

lemma rest_ends:
  assumes "te_token s" and "te_in s = InDone" and "te_udp s = UdpDone" and "\<not> te_returned s"
  shows "\<exists>t. reaches (woken proto_of ip_view udp_view env config) 4 s t \<and> te_returned t"
proof -
  let ?step = "woken proto_of ip_view udp_view env config"
  note rs = reaches_step [where step = ?step] and ro = reaches_one [where step = ?step]
  have join: "\<exists>t. reaches ?step 1 a t \<and> te_returned t" if "te_token a" "all_ended a" "\<not> te_returned a" for a
  proof -
    have "?step AllJoined a = Some (a\<lparr>te_returned := True\<rparr>)" using that by (simp add: avoiding_def tun_accept_loop_def)
    from ro [OF this] show ?thesis by (intro exI [of _ "a\<lparr>te_returned := True\<rparr>"]) simp
  qed
  have acceptor: "\<exists>t. reaches ?step 2 a t \<and> te_returned t"
    if a: "te_token a" "te_in a = InDone" "te_udp a = UdpDone" "te_out a = OutDone" "\<not> te_returned a" for a
  proof (cases "te_accepting a")
    case True
    let ?b = "a\<lparr>te_accepting := False\<rparr>"
    have "?step (TcpNext None) a = Some ?b" using True a by (simp add: avoiding_def tun_accept_loop_def accept_tcp_connections_def)
    moreover obtain t where "reaches ?step 1 ?b t" "te_returned t" using join [of ?b] a by (auto simp: all_ended_def)
    ultimately show ?thesis using rs by (metis One_nat_def numeral_2_eq_2)
  next
    case False
    obtain t where "reaches ?step 1 a t" "te_returned t" using join [of a] a False by (auto simp: all_ended_def)
    then show ?thesis using reaches_mono [of ?step 1 a t 2] by auto
  qed
  have out: "\<exists>t. reaches ?step 3 a t \<and> te_returned t"
    if a: "te_token a" "te_in a = InDone" "te_udp a = UdpDone" "te_out a = OutRead" "\<not> te_returned a" for a
  proof -
    let ?b = "a\<lparr>te_out := OutDone\<rparr>"
    have "?step (StackNext None) a = Some ?b" using a
      by (simp add: avoiding_def tun_accept_loop_def forward_packets_from_stack_to_tun_def)
    moreover obtain t where "reaches ?step 2 ?b t" "te_returned t" using acceptor [of ?b] a by auto
    ultimately show ?thesis using rs by (metis numeral_2_eq_2 numeral_3_eq_3)
  qed
  show ?thesis
  proof (cases "te_out s")
    case OutRead
    with out [of s] assms reaches_mono [of ?step 3 s _ 4] show ?thesis by auto
  next
    case (OutSend p)
    let ?b = "s\<lparr>te_out := OutRead, te_written := te_written s @ [p]\<rparr>"
    have "?step (DeviceSent (Inr ())) s = Some ?b" using OutSend by (simp add: avoiding_def tun_accept_loop_def device_send_result_def)
    moreover obtain t where "reaches ?step 3 ?b t" "te_returned t" using out [of ?b] assms by auto
    ultimately have "reaches ?step (Suc 3) s t" using rs by blast
    with \<open>te_returned t\<close> show ?thesis by auto
  next
    case OutDone
    with acceptor [of s] assms reaches_mono [of ?step 2 s _ 4] show ?thesis by auto
  qed
qed

lemma endpoint_ends:
  assumes inv: "endpoint_inv cap s" and within: "channels_within (udp_session_channel_capacity config) s"
    and "te_token s" and "0 < udp_session_channel_capacity config" and "\<not> tun_stuck env config s"
  shows "\<exists>t. reaches (woken proto_of ip_view udp_view env config) 8 s t \<and> te_returned t"
proof (cases "te_returned s")
  case False
  let ?step = "woken proto_of ip_view udp_view env config"
  from False inv within assms(3,5) have "ending cap env config s" by (simp add: ending_def)
  from udp_task_ends [OF this assms(4), of proto_of ip_view udp_view] obtain a where
    a: "reaches ?step 3 s a" "te_udp a = UdpDone" "te_token a" "\<not> te_returned a" "te_in a \<noteq> InSend" by blast
  from in_task_ends [OF a(3,2,5), of proto_of ip_view udp_view env config] obtain b where
    b: "reaches ?step 1 a b" "te_in b = InDone" "te_udp b = UdpDone" "te_token b" "\<not> te_returned b"
    using a(4) by blast
  obtain t where t: "reaches ?step 4 b t" "te_returned t"
    using rest_ends [OF b(4,2,3,5)] by blast
  from reaches_trans [OF reaches_trans [OF a(1) b(1)] t(1)] t(2) show ?thesis by auto
qed (intro exI [of _ s], simp)

lemma endpoint_new_within: "channels_within c (endpoint_new cap fd)"
  by (simp add: channels_within_def flows_within_def endpoint_new_def tun_udp_new_def)



end
