(* ===== verification/Client_Service.thy ===== *)
theory Client_Service
  imports Services Quic_Endpoint Http_Endpoint Tun_Tasks
begin

text \<open>
  The client as a service, \<open>OmbracClient\<close> of \<open>crates/ombrac-client/src/service.rs\<close>: the endpoints it spawns, what each does to
  start, and the shutdown that ends them. The endpoints run as modelled in \<open>Http_Endpoint\<close>, whose accept loop is also that of the SOCKS
  endpoint, and in \<open>Tun_Tasks\<close>. Listening sockets, the TUN device and the parsers of networks are arguments. The build
  is one for a system with TUN devices.
\<close>

section \<open>Starting\<close>

text \<open>The transport: the configuration, then the endpoint on it, whose errors are converted.\<close>

definition client_transport ::
    "('c, 'k, 'u, 'e) quinn_env \<Rightarrow> (bytes \<Rightarrow> socket_addr list io_result) \<Rightarrow> (u64 \<Rightarrow> quic_error option) \<Rightarrow> client_config \<Rightarrow>
     ('c, 'k, 'e) quic_client io_result" where
  "client_transport env lookup_host varint config =
     and_then (quic_client_from_config lookup_host varint config) (\<lambda>quic_config.
       case quic_client_new env quic_config of Inl e \<Rightarrow> Inl (io_from_quic_error e) | Inr client \<Rightarrow> Inr client)"

text \<open>What the endpoints take from outside. A network of a TUN address is its address and its mask.\<close>

record device_settings =
  dev_mtu :: u16
  dev_ipv4 :: "(string \<times> string) option"
  dev_ipv6 :: "(string \<times> string) option"

record 'n client_env =
  cv_bind :: "socket_addr \<Rightarrow> unit io_result"
  cv_from_fd :: "32 word \<Rightarrow> unit io_result"
  cv_ipv4_net :: "string \<Rightarrow> string + (string \<times> string)"
  cv_ipv6_net :: "string \<Rightarrow> string + (string \<times> string)"
  cv_build :: "device_settings \<Rightarrow> string + unit"
  cv_default_net :: "string \<Rightarrow> ipv4_net"
  cv_parse_net :: "string \<Rightarrow> string + ipv4_net"
  cv_proto_of :: "bytes \<Rightarrow> ip_protocol io_result"
  cv_ip_view :: "bytes \<Rightarrow> (nat \<times> ip_addr \<times> ip_addr) option"
  cv_udp_view :: "bytes \<Rightarrow> (u16 \<times> u16 \<times> nat) option"
  cv_tun_env :: "'n tun_env"

definition via_service :: "'a io_result \<Rightarrow> service_error + 'a" where
  "via_service r = (case r of Inl e \<Rightarrow> Inl (SIo e) | Inr x \<Rightarrow> Inr x)"

definition endpoint_http_start :: "'n client_env \<Rightarrow> endpoint_config \<Rightarrow> service_error + unit" where
  "endpoint_http_start env config =
     and_then (require_config (ep_http config) ''endpoint.http'') (\<lambda>bind_addr. via_service (cv_bind env bind_addr))"

definition endpoint_socks_start :: "'n client_env \<Rightarrow> endpoint_config \<Rightarrow> service_error + unit" where
  "endpoint_socks_start env config =
     and_then (require_config (ep_socks config) ''endpoint.socks'') (\<lambda>bind_addr. via_service (cv_bind env bind_addr))"

definition parse_cidr :: "(string \<Rightarrow> string + (string \<times> string)) \<Rightarrow> string \<Rightarrow> string option \<Rightarrow> service_error + (string \<times> string) option" where
  "parse_cidr parse family addr =
     (case addr of
        None \<Rightarrow> Inr None
      | Some ip_str \<Rightarrow>
          (case parse ip_str of
             Inl e \<Rightarrow> Inl (SConfig (''failed to parse '' @ family @ '' cidr '' @ [CHR 0x27] @ ip_str @ [CHR 0x27] @ '': '' @ e))
           | Inr net \<Rightarrow> Inr (Some net)))"

definition tun_device :: "'n client_env \<Rightarrow> client_tun_config \<Rightarrow> service_error + unit" where
  "tun_device env config =
     (case tun_fd config of
        Some fd \<Rightarrow> via_service (cv_from_fd env fd)
      | None \<Rightarrow>
          and_then (parse_cidr (cv_ipv4_net env) ''ipv4'' (tun_ipv4 config)) (\<lambda>v4.
          and_then (parse_cidr (cv_ipv6_net env) ''ipv6'' (tun_ipv6 config)) (\<lambda>v6.
            case cv_build env \<lparr>dev_mtu = unwrap_or (tun_mtu config) 1500, dev_ipv4 = v4, dev_ipv6 = v6\<rparr> of
              Inl e \<Rightarrow> Inl (SEndpoint (''failed to build tun device: '' @ e))
            | Inr device \<Rightarrow> Inr device)))"

definition endpoint_tun_start :: "'n client_env \<Rightarrow> endpoint_config \<Rightarrow> service_error + tun_config" where
  "endpoint_tun_start env config =
     and_then (require_config (ep_tun config) ''endpoint.tun'') (\<lambda>tun.
     and_then (tun_device env tun) (\<lambda>_. tun_endpoint_settings (cv_default_net env) (cv_parse_net env) tun))"

section \<open>The service and its endpoints\<close>

text \<open>
  A spawned endpoint starts, runs and ends. \<open>spawn_endpoint\<close> wraps its task: an error is logged and goes no further.
\<close>

datatype 's endpoint_state = NotSpawned | Spawned | Runs 's | EndpointDone "service_error option"

definition spawn_endpoint :: "service_error + 's \<Rightarrow> 's endpoint_state" where
  "spawn_endpoint task = (case task of Inl e \<Rightarrow> EndpointDone (Some e) | Inr s \<Rightarrow> Runs s)"

datatype client_call = ClientServing | AwaitHandles "endpoint_task list" | ClientReturned

record 'n client_service =
  cl_http :: "accept_state endpoint_state"
  cl_socks :: "accept_state endpoint_state"
  cl_tun :: "(tun_config \<times> 'n tun_endpoint) endpoint_state"
  cl_signal :: bool
  cl_handles :: "endpoint_task list"
  cl_call :: client_call

definition client_service_new :: "endpoint_config \<Rightarrow> 'n client_service" where
  "client_service_new config =
     (let handles = endpoint_tasks config
      in \<lparr>cl_http = (if HttpEndpoint \<in> set handles then Spawned else NotSpawned),
          cl_socks = (if SocksEndpoint \<in> set handles then Spawned else NotSpawned),
          cl_tun = (if TunEndpoint \<in> set handles then Spawned else NotSpawned),
          cl_signal = False, cl_handles = handles, cl_call = ClientServing\<rparr>)"

datatype client_event =
    StartEndpoint endpoint_task
  | HttpEv accept_event
  | SocksEv accept_event
  | TunEv tun_task_event
  | ClientShutdown
  | AwaitNext

definition start_endpoint ::
    "nat \<Rightarrow> 'n client_env \<Rightarrow> endpoint_config \<Rightarrow> endpoint_task \<Rightarrow> 'n client_service \<Rightarrow> 'n client_service option" where
  "start_endpoint cap env config task s =
     (case task of
        HttpEndpoint \<Rightarrow>
          if cl_http s = Spawned
          then Some (s\<lparr>cl_http := spawn_endpoint (and_then (endpoint_http_start env config) (\<lambda>_. Inr accept_init))\<rparr>) else None
      | SocksEndpoint \<Rightarrow>
          if cl_socks s = Spawned
          then Some (s\<lparr>cl_socks := spawn_endpoint (and_then (endpoint_socks_start env config) (\<lambda>_. Inr accept_init))\<rparr>) else None
      | TunEndpoint \<Rightarrow>
          if cl_tun s = Spawned
          then Some (s\<lparr>cl_tun := spawn_endpoint (and_then (endpoint_tun_start env config) (\<lambda>c.
                                   Inr (c, endpoint_new cap (fake_dns_new (fakedns_cidr c)))))\<rparr>) else None)"

text \<open>A listener looks at the signal first; the TUN endpoint waits for it.\<close>

definition listener_step :: "bool \<Rightarrow> accept_event \<Rightarrow> accept_state endpoint_state \<Rightarrow> accept_state endpoint_state option" where
  "listener_step signal e st =
     (case st of
        Runs a \<Rightarrow>
          if (e = AcceptShutdown) = signal
          then map_option (\<lambda>a'. if accept_returned a' then EndpointDone None else Runs a') (endpoint_accept_loop e a) else None
      | _ \<Rightarrow> None)"

definition tun_task_step ::
    "'n client_env \<Rightarrow> bool \<Rightarrow> tun_task_event \<Rightarrow> (tun_config \<times> 'n tun_endpoint) endpoint_state \<Rightarrow>
     (tun_config \<times> 'n tun_endpoint) endpoint_state option" where
  "tun_task_step env signal e st =
     (case st of
        Runs (c, t) \<Rightarrow>
          if e = ShutdownSignal \<and> \<not> signal then None
          else map_option (\<lambda>t'. if te_returned t' then EndpointDone None else Runs (c, t'))
                 (tun_accept_loop (cv_proto_of env) (cv_ip_view env) (cv_udp_view env) (cv_tun_env env) c e t)
      | _ \<Rightarrow> None)"

definition endpoint_ended :: "endpoint_task \<Rightarrow> 'n client_service \<Rightarrow> bool" where
  "endpoint_ended task s =
     (case task of
        HttpEndpoint \<Rightarrow> (case cl_http s of EndpointDone _ \<Rightarrow> True | _ \<Rightarrow> False)
      | SocksEndpoint \<Rightarrow> (case cl_socks s of EndpointDone _ \<Rightarrow> True | _ \<Rightarrow> False)
      | TunEndpoint \<Rightarrow> (case cl_tun s of EndpointDone _ \<Rightarrow> True | _ \<Rightarrow> False))"

lemma endpoint_ended_call [simp]: "endpoint_ended h (s\<lparr>cl_call := any\<rparr>) = endpoint_ended h s"
  by (cases h) (simp_all add: endpoint_ended_def)

text \<open>\<open>shutdown\<close>: the signal, then every handle in turn.\<close>

definition client_shutdown :: "'n client_service \<Rightarrow> 'n client_service option" where
  "client_shutdown s =
     (if cl_call s = ClientServing then Some (s\<lparr>cl_signal := True, cl_call := AwaitHandles (cl_handles s)\<rparr>) else None)"

definition await_next :: "'n client_service \<Rightarrow> 'n client_service option" where
  "await_next s =
     (case cl_call s of
        AwaitHandles [] \<Rightarrow> Some (s\<lparr>cl_call := ClientReturned\<rparr>)
      | AwaitHandles (h # hs) \<Rightarrow> if endpoint_ended h s then Some (s\<lparr>cl_call := AwaitHandles hs\<rparr>) else None
      | _ \<Rightarrow> None)"

definition client_step ::
    "nat \<Rightarrow> 'n client_env \<Rightarrow> endpoint_config \<Rightarrow> client_event \<Rightarrow> 'n client_service \<Rightarrow> 'n client_service option" where
  "client_step cap env config e s =
     (case e of
        StartEndpoint task \<Rightarrow> start_endpoint cap env config task s
      | HttpEv ae \<Rightarrow> map_option (\<lambda>st. s\<lparr>cl_http := st\<rparr>) (listener_step (cl_signal s) ae (cl_http s))
      | SocksEv ae \<Rightarrow> map_option (\<lambda>st. s\<lparr>cl_socks := st\<rparr>) (listener_step (cl_signal s) ae (cl_socks s))
      | TunEv te \<Rightarrow> map_option (\<lambda>st. s\<lparr>cl_tun := st\<rparr>) (tun_task_step env (cl_signal s) te (cl_tun s))
      | ClientShutdown \<Rightarrow> client_shutdown s
      | AwaitNext \<Rightarrow> await_next s)"

section \<open>What the service keeps\<close>

lemma tun_token:
  "tun_accept_loop proto_of ip_view udp_view env config e t = Some t' \<Longrightarrow> e \<noteq> ShutdownSignal \<Longrightarrow> te_token t' = te_token t"
  by (auto simp: tun_accept_loop_def forward_packets_from_tun_to_stack_def forward_into_stack_def in_flush_def split_def Let_def
      forward_packets_from_stack_to_tun_def device_send_result_def process_incoming_udp_packets_def udp_end_def handle_packet_def
      accept_tcp_connections_def split: tun_task_event.splits if_splits option.splits sum.splits in_phase.splits out_phase.splits
      udp_phase.splits poll.splits)

definition listener_inv :: "bool \<Rightarrow> bool \<Rightarrow> service_error + unit \<Rightarrow> accept_state endpoint_state \<Rightarrow> bool" where
  "listener_inv configured signal started st \<longleftrightarrow>
     (case st of
        NotSpawned \<Rightarrow> \<not> configured
      | Spawned \<Rightarrow> configured
      | Runs a \<Rightarrow> configured \<and> started = Inr () \<and> \<not> accept_returned a
      | EndpointDone None \<Rightarrow> configured \<and> started = Inr () \<and> signal
      | EndpointDone (Some e) \<Rightarrow> configured \<and> started = Inl e)"

definition tun_task_inv ::
    "nat \<Rightarrow> bool \<Rightarrow> bool \<Rightarrow> service_error + tun_config \<Rightarrow> (tun_config \<times> 'n tun_endpoint) endpoint_state \<Rightarrow> bool" where
  "tun_task_inv cap configured signal started st \<longleftrightarrow>
     (case st of
        NotSpawned \<Rightarrow> \<not> configured
      | Spawned \<Rightarrow> configured
      | Runs (c, t) \<Rightarrow>
          configured \<and> started = Inr c \<and> endpoint_inv cap t \<and> channels_within (udp_session_channel_capacity c) t \<and>
          \<not> te_returned t \<and> (te_token t \<longrightarrow> signal)
      | EndpointDone None \<Rightarrow> configured \<and> (\<exists>c. started = Inr c) \<and> signal
      | EndpointDone (Some e) \<Rightarrow> configured \<and> started = Inl e)"

definition client_inv :: "nat \<Rightarrow> 'n client_env \<Rightarrow> endpoint_config \<Rightarrow> 'n client_service \<Rightarrow> bool" where
  "client_inv cap env config s \<longleftrightarrow>
     cl_handles s = endpoint_tasks config \<and>
     listener_inv (HttpEndpoint \<in> set (endpoint_tasks config)) (cl_signal s) (endpoint_http_start env config) (cl_http s) \<and>
     listener_inv (SocksEndpoint \<in> set (endpoint_tasks config)) (cl_signal s) (endpoint_socks_start env config) (cl_socks s) \<and>
     tun_task_inv cap (TunEndpoint \<in> set (endpoint_tasks config)) (cl_signal s) (endpoint_tun_start env config) (cl_tun s) \<and>
     (case cl_call s of
        ClientServing \<Rightarrow> \<not> cl_signal s
      | AwaitHandles hs \<Rightarrow> cl_signal s \<and> (\<exists>ended. endpoint_tasks config = ended @ hs \<and> (\<forall>h \<in> set ended. endpoint_ended h s))
      | ClientReturned \<Rightarrow> cl_signal s \<and> (\<forall>h \<in> set (endpoint_tasks config). endpoint_ended h s))"

lemma client_inv_new: "client_inv cap env config (client_service_new config)"
  by (simp add: client_inv_def client_service_new_def listener_inv_def tun_task_inv_def Let_def)

text \<open>A step of one endpoint.\<close>

lemma client_inv_keeps:
  assumes "client_inv cap env config s" and "cl_call s' = cl_call s" "cl_signal s' = cl_signal s" "cl_handles s' = cl_handles s"
    and "listener_inv (HttpEndpoint \<in> set (endpoint_tasks config)) (cl_signal s) (endpoint_http_start env config) (cl_http s')"
    and "listener_inv (SocksEndpoint \<in> set (endpoint_tasks config)) (cl_signal s) (endpoint_socks_start env config) (cl_socks s')"
    and "tun_task_inv cap (TunEndpoint \<in> set (endpoint_tasks config)) (cl_signal s) (endpoint_tun_start env config) (cl_tun s')"
    and "\<And>h. endpoint_ended h s \<Longrightarrow> endpoint_ended h s'"
  shows "client_inv cap env config s'"
proof -
  have "case cl_call s of
        ClientServing \<Rightarrow> \<not> cl_signal s'
      | AwaitHandles hs \<Rightarrow> cl_signal s' \<and> (\<exists>ended. endpoint_tasks config = ended @ hs \<and> (\<forall>h \<in> set ended. endpoint_ended h s'))
      | ClientReturned \<Rightarrow> cl_signal s' \<and> (\<forall>h \<in> set (endpoint_tasks config). endpoint_ended h s')"
    using assms(1,3,8) by (cases "cl_call s") (auto simp: client_inv_def)
  with assms(1-7) show ?thesis by (simp add: client_inv_def)
qed

lemma listener_step_inv:
  assumes "listener_inv configured signal started st" and "listener_step signal e st = Some st'"
  shows "listener_inv configured signal started st'" and "\<And>r. st \<noteq> EndpointDone r"
  using assms
  by (auto simp: listener_inv_def listener_step_def endpoint_accept_loop_def
      split: endpoint_state.splits if_splits accept_event.splits sum.splits)

lemma tun_task_step_inv:
  assumes inv: "tun_task_inv cap configured signal started st" and st: "tun_task_step env signal e st = Some st'"
  shows "tun_task_inv cap configured signal started st'" and "\<And>r. st \<noteq> EndpointDone r"
proof -
  obtain c t t' where r: "st = Runs (c, t)" "e = ShutdownSignal \<longrightarrow> signal"
    "tun_accept_loop (cv_proto_of env) (cv_ip_view env) (cv_udp_view env) (cv_tun_env env) c e t = Some t'"
    "st' = (if te_returned t' then EndpointDone None else Runs (c, t'))"
    using st by (auto simp: tun_task_step_def split: endpoint_state.splits prod.splits if_splits)
  from inv r(1) have t: "configured" "started = Inr c" "endpoint_inv cap t" "channels_within (udp_session_channel_capacity c) t"
    "te_token t \<longrightarrow> signal" by (auto simp: tun_task_inv_def)
  have "endpoint_inv cap t'" using endpoint_machine.step_inv [OF t(3) r(3)] .
  moreover have "channels_within (udp_session_channel_capacity c) t'" using within_machine.step_inv [OF t(4) r(3)] .
  moreover have "te_token t' \<longrightarrow> signal" using tun_token [OF r(3)] t(5) r(2) by blast
  moreover have "te_returned t' \<longrightarrow> te_token t'" using \<open>endpoint_inv cap t'\<close> by (simp add: endpoint_inv_def)
  ultimately show "tun_task_inv cap configured signal started st'" using t(1,2) by (auto simp: tun_task_inv_def r(4))
  show "\<And>r. st \<noteq> EndpointDone r" by (simp add: r(1))
qed

lemma start_endpoint_inv:
  assumes "client_inv cap env config s" and "start_endpoint cap env config task s = Some s'"
  shows "client_inv cap env config s'" and "endpoint_ended h s \<Longrightarrow> endpoint_ended h s'"
proof -
  have tun: "tun_task_inv cap True (cl_signal s) started (spawn_endpoint (and_then started (\<lambda>c. Inr (c, endpoint_new cap (fake_dns_new (fakedns_cidr c))))))"
    for started :: "service_error + tun_config"
    using endpoint_new_inv endpoint_new_within
    by (cases started) (auto simp: tun_task_inv_def spawn_endpoint_def, simp_all add: endpoint_new_def)
  have listener: "listener_inv True (cl_signal s) started (spawn_endpoint (and_then started (\<lambda>_. Inr accept_init)))" for started
    by (cases started) (auto simp: listener_inv_def spawn_endpoint_def accept_init_def)
  have frame: "endpoint_ended h s \<Longrightarrow> endpoint_ended h s'" for h
    using assms(2) by (cases h) (auto simp: start_endpoint_def endpoint_ended_def split: endpoint_task.splits if_splits)
  then show "endpoint_ended h s \<Longrightarrow> endpoint_ended h s'" .
  have "cl_call s' = cl_call s" "cl_signal s' = cl_signal s" "cl_handles s' = cl_handles s"
    using assms(2) by (auto simp: start_endpoint_def split: endpoint_task.splits if_splits)
  moreover have "listener_inv (HttpEndpoint \<in> set (endpoint_tasks config)) (cl_signal s) (endpoint_http_start env config) (cl_http s') \<and>
     listener_inv (SocksEndpoint \<in> set (endpoint_tasks config)) (cl_signal s) (endpoint_socks_start env config) (cl_socks s') \<and>
     tun_task_inv cap (TunEndpoint \<in> set (endpoint_tasks config)) (cl_signal s) (endpoint_tun_start env config) (cl_tun s')"
    using assms tun listener
    by (cases task) (auto simp: start_endpoint_def client_inv_def listener_inv_def [of _ _ _ Spawned] tun_task_inv_def [of _ _ _ _ Spawned]
        split: if_splits)
  ultimately show "client_inv cap env config s'" using client_inv_keeps [OF assms(1)] frame by blast
qed

lemma client_step_inv:
  assumes inv: "client_inv cap env config s" and st: "client_step cap env config e s = Some s'"
  shows "client_inv cap env config s'" and "endpoint_ended h s \<Longrightarrow> endpoint_ended h s'"
proof -
  have parts: "listener_inv (HttpEndpoint \<in> set (endpoint_tasks config)) (cl_signal s) (endpoint_http_start env config) (cl_http s)"
    "listener_inv (SocksEndpoint \<in> set (endpoint_tasks config)) (cl_signal s) (endpoint_socks_start env config) (cl_socks s)"
    "tun_task_inv cap (TunEndpoint \<in> set (endpoint_tasks config)) (cl_signal s) (endpoint_tun_start env config) (cl_tun s)"
    using inv by (simp_all add: client_inv_def)
  have "client_inv cap env config s' \<and> (endpoint_ended h s \<longrightarrow> endpoint_ended h s')" for h
  proof (cases e)
    case (StartEndpoint task)
    with start_endpoint_inv [OF inv, of task s'] st show ?thesis by (simp add: client_step_def)
  next
    case (HttpEv ae)
    with st obtain st' where st': "listener_step (cl_signal s) ae (cl_http s) = Some st'" "s' = s\<lparr>cl_http := st'\<rparr>"
      by (auto simp: client_step_def)
    have "endpoint_ended h s \<Longrightarrow> endpoint_ended h s'" for h
      using listener_step_inv(2) [OF parts(1) st'(1)] by (cases h) (auto simp: endpoint_ended_def st'(2) split: endpoint_state.splits)
    with client_inv_keeps [OF inv, of s'] listener_step_inv(1) [OF parts(1) st'(1)] parts show ?thesis by (simp add: st'(2))
  next
    case (SocksEv ae)
    with st obtain st' where st': "listener_step (cl_signal s) ae (cl_socks s) = Some st'" "s' = s\<lparr>cl_socks := st'\<rparr>"
      by (auto simp: client_step_def)
    have "endpoint_ended h s \<Longrightarrow> endpoint_ended h s'" for h
      using listener_step_inv(2) [OF parts(2) st'(1)] by (cases h) (auto simp: endpoint_ended_def st'(2) split: endpoint_state.splits)
    with client_inv_keeps [OF inv, of s'] listener_step_inv(1) [OF parts(2) st'(1)] parts show ?thesis by (simp add: st'(2))
  next
    case (TunEv te)
    with st obtain st' where st': "tun_task_step env (cl_signal s) te (cl_tun s) = Some st'" "s' = s\<lparr>cl_tun := st'\<rparr>"
      by (auto simp: client_step_def)
    have "endpoint_ended h s \<Longrightarrow> endpoint_ended h s'" for h
      using tun_task_step_inv(2) [OF parts(3) st'(1)] by (cases h) (auto simp: endpoint_ended_def st'(2) split: endpoint_state.splits)
    with client_inv_keeps [OF inv, of s'] tun_task_step_inv(1) [OF parts(3) st'(1)] parts show ?thesis by (simp add: st'(2))
  next
    case ClientShutdown
    with st have s': "cl_call s = ClientServing" "s' = s\<lparr>cl_signal := True, cl_call := AwaitHandles (cl_handles s)\<rparr>"
      by (auto simp: client_step_def client_shutdown_def split: if_splits)
    with parts have "listener_inv (HttpEndpoint \<in> set (endpoint_tasks config)) True (endpoint_http_start env config) (cl_http s)"
      "listener_inv (SocksEndpoint \<in> set (endpoint_tasks config)) True (endpoint_socks_start env config) (cl_socks s)"
      "tun_task_inv cap (TunEndpoint \<in> set (endpoint_tasks config)) True (endpoint_tun_start env config) (cl_tun s)"
      by (auto simp: listener_inv_def tun_task_inv_def split: endpoint_state.splits option.splits)
    moreover have "endpoint_ended h s' = endpoint_ended h s" for h by (cases h) (simp_all add: endpoint_ended_def s'(2))
    ultimately show ?thesis using inv by (simp add: client_inv_def s'(2))
  next
    case AwaitNext
    obtain hs where hs: "cl_call s = AwaitHandles hs" using st AwaitNext by (auto simp: client_step_def await_next_def split: client_call.splits)
    with inv obtain ended where ended: "endpoint_tasks config = ended @ hs" "\<forall>h \<in> set ended. endpoint_ended h s" "cl_signal s"
      by (auto simp: client_inv_def)
    show ?thesis
    proof (cases hs)
      case Nil
      with st AwaitNext hs ended inv show ?thesis by (auto simp: client_step_def await_next_def client_inv_def)
    next
      case (Cons x xs)
      with st AwaitNext hs have s': "s' = s\<lparr>cl_call := AwaitHandles xs\<rparr>" "endpoint_ended x s"
        by (auto simp: client_step_def await_next_def split: if_splits)
      from ended(1,2) s'(2) Cons have "endpoint_tasks config = (ended @ [x]) @ xs \<and> (\<forall>h \<in> set (ended @ [x]). endpoint_ended h s)" by simp
      then have "\<exists>ended. endpoint_tasks config = ended @ xs \<and> (\<forall>h \<in> set ended. endpoint_ended h s)" by blast
      with inv ended(3) show ?thesis by (simp add: client_inv_def s'(1))
    qed
  qed
  then show "client_inv cap env config s'" and "endpoint_ended h s \<Longrightarrow> endpoint_ended h s'" by blast+
qed

interpretation client_machine: invariant_machine "client_step cap env config" "client_inv cap env config" for cap env config
  by unfold_locales (rule client_step_inv(1))

section \<open>A shutdown returns\<close>

lemma ended_run:
  "client_inv cap env config s \<Longrightarrow> run_steps (client_step cap env config) es s = Some t \<Longrightarrow> endpoint_ended h s \<Longrightarrow> endpoint_ended h t"
  by (induction es arbitrary: s) (auto dest: client_step_inv split: option.splits)

text \<open>The service without the poll of the TUN endpoint's sink that nothing asks for, and when that endpoint hangs.\<close>

abbreviation client_woken ::
    "nat \<Rightarrow> 'n client_env \<Rightarrow> endpoint_config \<Rightarrow> client_event \<Rightarrow> 'n client_service \<Rightarrow> 'n client_service option" where
  "client_woken cap env config \<equiv> avoiding (TunEv SendPoll) (client_step cap env config)"

definition client_hangs :: "'n client_env \<Rightarrow> 'n client_service \<Rightarrow> bool" where
  "client_hangs env s \<longleftrightarrow> (case cl_tun s of Runs (c, t) \<Rightarrow> tun_stuck (cv_tun_env env) c t | _ \<Rightarrow> False)"

text \<open>The steps of the TUN endpoint on its own are steps of the service, up to the one in which it returns.\<close>

lemma tun_run_lifts:
  assumes "run_steps (tun_accept_loop (cv_proto_of env) (cv_ip_view env) (cv_udp_view env) (cv_tun_env env) c) es t = Some t'"
    and "te_returned t'" and "\<not> te_returned t" and "cl_tun s = Runs (c, t)" and "cl_signal s" and "SendPoll \<notin> set es"
  shows "\<exists>fs s'. length fs \<le> length es \<and> run_steps (client_woken cap env config) fs s = Some s' \<and> endpoint_ended TunEndpoint s' \<and>
    cl_call s' = cl_call s \<and> cl_signal s'"
  using assms
proof (induction es arbitrary: t s)
  case (Cons e es)
  then obtain t1 where t1: "tun_accept_loop (cv_proto_of env) (cv_ip_view env) (cv_udp_view env) (cv_tun_env env) c e t = Some t1"
    "run_steps (tun_accept_loop (cv_proto_of env) (cv_ip_view env) (cv_udp_view env) (cv_tun_env env) c) es t1 = Some t'"
    by (auto split: option.splits)
  let ?s = "s\<lparr>cl_tun := if te_returned t1 then EndpointDone None else Runs (c, t1)\<rparr>"
  have st: "client_woken cap env config (TunEv e) s = Some ?s"
    using Cons.prems(4-6) t1(1) by (auto simp: avoiding_def client_step_def tun_task_step_def)
  show ?case
  proof (cases "te_returned t1")
    case True
    with st Cons.prems(5) show ?thesis by (intro exI [of _ "[TunEv e]"] exI [of _ ?s]) (simp add: endpoint_ended_def)
  next
    case False
    then obtain fs s' where "length fs \<le> length es" "run_steps (client_woken cap env config) fs ?s = Some s'" "endpoint_ended TunEndpoint s'"
      "cl_call s' = cl_call s" "cl_signal s'"
      using Cons.IH [OF t1(2) Cons.prems(2) False, of ?s] Cons.prems(5,6) by auto
    with st show ?thesis by (intro exI [of _ "TunEv e # fs"] exI [of _ s']) simp
  qed
qed simp

lemma tun_endpoint_settings_capacity:
  "tun_endpoint_settings default_net parse config = Inr c \<Longrightarrow> udp_session_channel_capacity c = 2048"
  by (cases "fake_dns config"; cases "ctun_disable_udp_443 config"; cases "parse (the (fake_dns config))")
    (auto simp: tun_endpoint_settings_def tun_config_default_def Let_def)

lemma endpoint_tun_capacity: "endpoint_tun_start env config = Inr c \<Longrightarrow> udp_session_channel_capacity c = 2048"
  by (auto simp: endpoint_tun_start_def and_then_Inr_iff dest: tun_endpoint_settings_capacity)

definition ends_within :: "nat \<Rightarrow> nat \<Rightarrow> 'n client_env \<Rightarrow> endpoint_config \<Rightarrow> endpoint_task \<Rightarrow> 'n client_service \<Rightarrow> bool" where
  "ends_within n cap env config task s \<longleftrightarrow>
     (\<exists>t. reaches (client_woken cap env config) n s t \<and> endpoint_ended task t \<and> cl_call t = cl_call s \<and> cl_signal t)"

lemma ends_within_now: "endpoint_ended task s \<Longrightarrow> cl_signal s \<Longrightarrow> ends_within n cap env config task s"
  unfolding ends_within_def by (rule exI [of _ s]) simp

lemma ends_within_step:
  assumes "client_step cap env config e s = Some s'" and "cl_call s' = cl_call s" and "ends_within n cap env config task s'"
    and "e \<noteq> TunEv SendPoll"
  shows "ends_within (Suc n) cap env config task s"
proof -
  from assms(3) obtain t where t: "reaches (client_woken cap env config) n s' t" "endpoint_ended task t" "cl_call t = cl_call s'" "cl_signal t"
    unfolding ends_within_def by blast
  have "client_woken cap env config e s = Some s'" using assms(1,4) by (simp add: avoiding_def)
  from reaches_step [where step = "client_woken cap env config", OF this t(1)] t(2-4) assms(2) show ?thesis
    unfolding ends_within_def by (intro exI [of _ t]) simp
qed

lemma ends_within_mono:
  assumes "ends_within m cap env config task s" and "m \<le> n"
  shows "ends_within n cap env config task s"
proof -
  from assms(1) obtain t where t: "reaches (client_woken cap env config) m s t"
    "endpoint_ended task t \<and> cl_call t = cl_call s \<and> cl_signal t"
    unfolding ends_within_def by blast
  from reaches_mono [OF t(1) assms(2)] t(2) show ?thesis unfolding ends_within_def by blast
qed

lemma listener_stops:
  assumes "listener_inv configured True started st" and "st \<noteq> NotSpawned" and "st \<noteq> Spawned"
  shows "(\<exists>r. st = EndpointDone r) \<or> listener_step True AcceptShutdown st = Some (EndpointDone None)"
proof (cases st)
  case (Runs a)
  with assms(1) have "\<not> accept_returned a" by (simp add: listener_inv_def)
  with Runs show ?thesis by (simp add: listener_step_def endpoint_accept_loop_def)
qed (use assms in simp_all)

text \<open>A listener ends: \<open>st\<close> is its part of the state and \<open>ev\<close> the event of its loop.\<close>

lemma listener_ends:
  assumes inv: "client_inv cap env config s" and sig: "cl_signal s"
    and own: "\<And>a. client_inv cap env config a \<Longrightarrow> cl_signal a \<Longrightarrow> listener_inv True True started (st a)"
    and ended: "\<And>a r. st a = EndpointDone r \<Longrightarrow> endpoint_ended task a"
    and stop: "\<And>a. cl_signal a \<Longrightarrow> listener_step True AcceptShutdown (st a) = Some (EndpointDone None) \<Longrightarrow>
      \<exists>b. client_step cap env config (ev AcceptShutdown) a = Some b \<and> endpoint_ended task b \<and> cl_call b = cl_call a \<and> cl_signal b"
    and listens: "ev AcceptShutdown \<noteq> TunEv SendPoll"
    and start: "st s = Spawned \<Longrightarrow> \<exists>a. client_step cap env config (StartEndpoint task) s = Some a \<and> cl_call a = cl_call s \<and>
      cl_signal a = cl_signal s \<and> st a \<noteq> Spawned"
  shows "ends_within 2 cap env config task s"
proof -
  have stops: "ends_within 1 cap env config task a"
    if a: "client_inv cap env config a" "cl_signal a" "st a \<noteq> Spawned" for a
  proof -
    have "st a \<noteq> NotSpawned" using own [OF a(1,2)] by (auto simp: listener_inv_def)
    then consider r where "st a = EndpointDone r" | "listener_step True AcceptShutdown (st a) = Some (EndpointDone None)"
      using listener_stops [OF own [OF a(1,2)]] a(3) by blast
    then show ?thesis
    proof cases
      case 1
      with ended a(2) show ?thesis by (blast intro: ends_within_now)
    next
      case 2
      from stop [OF a(2) this] obtain b where b: "client_step cap env config (ev AcceptShutdown) a = Some b" "endpoint_ended task b"
        "cl_call b = cl_call a" "cl_signal b" by blast
      from ends_within_step [OF b(1,3) ends_within_now [OF b(2,4)] listens, of 0] show ?thesis by simp
    qed
  qed
  show ?thesis
  proof (cases "st s = Spawned")
    case True
    with start obtain a where a: "client_step cap env config (StartEndpoint task) s = Some a" "cl_call a = cl_call s"
      "cl_signal a = cl_signal s" "st a \<noteq> Spawned" by blast
    have "ends_within 1 cap env config task a" using stops [OF client_step_inv(1) [OF inv a(1)]] a(3,4) sig by simp
    from ends_within_step [OF a(1,2) this] show ?thesis by (simp add: numeral_2_eq_2)
  next
    case False
    from stops [OF inv sig this] show ?thesis by (rule ends_within_mono) simp
  qed
qed

lemma http_ends:
  assumes "client_inv cap env config s" and "cl_signal s" and h: "HttpEndpoint \<in> set (endpoint_tasks config)"
  shows "ends_within 2 cap env config HttpEndpoint s"
  by (rule listener_ends [OF assms(1,2), where st = cl_http and ev = HttpEv and started = "endpoint_http_start env config"])
    (auto simp: client_inv_def h endpoint_ended_def client_step_def start_endpoint_def spawn_endpoint_def split: sum.splits)

lemma socks_ends:
  assumes "client_inv cap env config s" and "cl_signal s" and h: "SocksEndpoint \<in> set (endpoint_tasks config)"
  shows "ends_within 2 cap env config SocksEndpoint s"
  by (rule listener_ends [OF assms(1,2), where st = cl_socks and ev = SocksEv and started = "endpoint_socks_start env config"])
    (auto simp: client_inv_def h endpoint_ended_def client_step_def start_endpoint_def spawn_endpoint_def split: sum.splits)

lemma tun_ends:
  assumes inv: "client_inv cap env config s" and sig: "cl_signal s" and h: "TunEndpoint \<in> set (endpoint_tasks config)"
    and free: "\<not> client_hangs env s"
  shows "ends_within 10 cap env config TunEndpoint s"
proof -
  have cancelled: "ends_within 8 cap env config TunEndpoint a"
    if a: "client_inv cap env config a" "cl_signal a" "cl_tun a = Runs (c, t)" "te_token t" "\<not> client_hangs env a" for a c t
  proof -
    have t: "endpoint_inv cap t" "channels_within (udp_session_channel_capacity c) t" "\<not> te_returned t" "endpoint_tun_start env config = Inr c"
      "\<not> tun_stuck (cv_tun_env env) c t"
      using a(1,3,5) by (auto simp: client_inv_def tun_task_inv_def client_hangs_def)
    have "0 < udp_session_channel_capacity c" using endpoint_tun_capacity [OF t(4)] by simp
    from endpoint_ends [OF t(1,2) a(4) this t(5), of "cv_proto_of env" "cv_ip_view env" "cv_udp_view env"]
    obtain t' es where es: "length es \<le> 8" "te_returned t'"
      "run_steps (tun_accept_loop (cv_proto_of env) (cv_ip_view env) (cv_udp_view env) (cv_tun_env env) c) es t = Some t'" "SendPoll \<notin> set es"
      by (auto simp: reaches_avoiding)
    from tun_run_lifts [OF es(3,2) t(3) a(3,2) es(4), of cap config] es(1) show ?thesis
      unfolding ends_within_def reaches_def by (meson order.trans)
  qed
  have running: "ends_within 9 cap env config TunEndpoint a"
    if a: "client_inv cap env config a" "cl_signal a" "cl_tun a \<noteq> Spawned" "\<not> client_hangs env a" for a
  proof (cases "cl_tun a")
    case (Runs ct)
    obtain c t where ct: "ct = (c, t)" by force
    show ?thesis
    proof (cases "te_token t")
      case True
      from cancelled [OF a(1,2) Runs [unfolded ct] True a(4)] show ?thesis by (rule ends_within_mono) simp
    next
      case False
      have "\<not> te_returned t" using a(1) Runs ct by (auto simp: client_inv_def tun_task_inv_def)
      let ?a = "a\<lparr>cl_tun := Runs (c, t\<lparr>te_token := True\<rparr>)\<rparr>"
      have st: "client_step cap env config (TunEv ShutdownSignal) a = Some ?a"
        using Runs ct False a(2) \<open>\<not> te_returned t\<close> by (simp add: client_step_def tun_task_step_def tun_accept_loop_def)
      have "\<not> client_hangs env ?a" using a(4) Runs ct by (simp add: client_hangs_def)
      then have "ends_within 8 cap env config TunEndpoint ?a"
        using cancelled [OF client_step_inv(1) [OF a(1) st], of c "t\<lparr>te_token := True\<rparr>"] a(2) by simp
      from ends_within_step [OF st _ this] show ?thesis by simp
    qed
  next
    case (EndpointDone r)
    with a(2) show ?thesis by (intro ends_within_now) (simp_all add: endpoint_ended_def)
  qed (use a h in \<open>simp_all add: client_inv_def tun_task_inv_def\<close>)
  show ?thesis
  proof (cases "cl_tun s = Spawned")
    case True
    then obtain a where a: "client_step cap env config (StartEndpoint TunEndpoint) s = Some a" "cl_call a = cl_call s"
      "cl_signal a = cl_signal s" "cl_tun a \<noteq> Spawned" "\<not> client_hangs env a"
      by (auto simp: client_step_def start_endpoint_def spawn_endpoint_def client_hangs_def tun_stuck_def flow_deadlock_def endpoint_new_def
          and_then_def split: sum.splits)
    have "ends_within 9 cap env config TunEndpoint a" using running [OF client_step_inv(1) [OF inv a(1)]] a(3-5) sig by simp
    from ends_within_step [OF a(1,2) this] show ?thesis by simp
  next
    case False
    from running [OF inv sig this free] show ?thesis by (rule ends_within_mono) simp
  qed
qed

lemma reaches_inv:
  assumes "client_inv cap env config s" and "reaches (client_woken cap env config) n s t"
  shows "client_inv cap env config t" and "endpoint_ended h s \<Longrightarrow> endpoint_ended h t"
  using assms client_machine.run_inv ended_run unfolding reaches_avoiding by blast+

text \<open>One endpoint after the other; those that are not configured take no step.\<close>

lemma next_ends:
  assumes "client_inv cap env config s" and "cl_signal s"
    and "task \<in> set (endpoint_tasks config) \<Longrightarrow> ends_within n cap env config task s"
  shows "\<exists>t. reaches (client_woken cap env config) n s t \<and> client_inv cap env config t \<and> cl_signal t \<and> cl_call t = cl_call s \<and>
    (task \<in> set (endpoint_tasks config) \<longrightarrow> endpoint_ended task t) \<and> (\<forall>h. endpoint_ended h s \<longrightarrow> endpoint_ended h t)"
proof (cases "task \<in> set (endpoint_tasks config)")
  case True
  with assms(3) obtain t where t: "reaches (client_woken cap env config) n s t" "endpoint_ended task t" "cl_call t = cl_call s" "cl_signal t"
    unfolding ends_within_def by blast
  from reaches_inv [OF assms(1) t(1)] t show ?thesis by blast
next
  case False
  with assms(1,2) show ?thesis by (intro exI [of _ s]) simp
qed

lemma all_end:
  assumes inv: "client_inv cap env config s" and sig: "cl_signal s" and free: "\<not> client_hangs env s"
  shows "\<exists>t. reaches (client_woken cap env config) 14 s t \<and> client_inv cap env config t \<and> cl_call t = cl_call s \<and>
    (\<forall>h \<in> set (endpoint_tasks config). endpoint_ended h t)"
proof -
  let ?step = "client_woken cap env config" and ?tasks = "set (endpoint_tasks config)"
  obtain a where a: "reaches ?step 10 s a" "client_inv cap env config a" "cl_signal a" "cl_call a = cl_call s"
    "TunEndpoint \<in> ?tasks \<longrightarrow> endpoint_ended TunEndpoint a"
    using next_ends [OF inv sig tun_ends [OF inv sig _ free]] by blast
  obtain b where b: "reaches ?step 2 a b" "client_inv cap env config b" "cl_signal b" "cl_call b = cl_call a"
    "SocksEndpoint \<in> ?tasks \<longrightarrow> endpoint_ended SocksEndpoint b" "\<forall>h. endpoint_ended h a \<longrightarrow> endpoint_ended h b"
    using next_ends [OF a(2,3) socks_ends [OF a(2,3)]] by blast
  obtain t where t: "reaches ?step 2 b t" "client_inv cap env config t" "cl_call t = cl_call b"
    "HttpEndpoint \<in> ?tasks \<longrightarrow> endpoint_ended HttpEndpoint t" "\<forall>h. endpoint_ended h b \<longrightarrow> endpoint_ended h t"
    using next_ends [OF b(2,3) http_ends [OF b(2,3)]] by blast
  have "endpoint_ended h t" if "h \<in> ?tasks" for h
    using that a(5) b(5,6) t(4,5) by (cases h rule: endpoint_task.exhaust) blast+
  with reaches_trans [OF reaches_trans [OF a(1) b(1)] t(1)] t(2,3) a(4) b(4) show ?thesis by auto
qed

lemma awaits_all:
  "cl_call s = AwaitHandles hs \<Longrightarrow> \<forall>h \<in> set hs. endpoint_ended h s \<Longrightarrow>
   \<exists>t. reaches (client_woken cap env config) (Suc (length hs)) s t \<and> cl_call t = ClientReturned"
proof (induction hs arbitrary: s)
  case Nil
  then have "client_woken cap env config AwaitNext s = Some (s\<lparr>cl_call := ClientReturned\<rparr>)"
    by (simp add: avoiding_def client_step_def await_next_def)
  from reaches_one [where step = "client_woken cap env config", OF this] show ?case by (intro exI [of _ "s\<lparr>cl_call := ClientReturned\<rparr>"]) simp
next
  case (Cons h hs)
  let ?s = "s\<lparr>cl_call := AwaitHandles hs\<rparr>"
  have st: "client_woken cap env config AwaitNext s = Some ?s" using Cons.prems by (simp add: avoiding_def client_step_def await_next_def)
  have "\<forall>h \<in> set hs. endpoint_ended h ?s" using Cons.prems(2) by simp
  with Cons.IH [of ?s] obtain t where "reaches (client_woken cap env config) (Suc (length hs)) ?s t" "cl_call t = ClientReturned" by auto
  with reaches_step [where step = "client_woken cap env config", OF st] show ?case by (intro exI [of _ t]) simp
qed

lemma endpoint_tasks_length: "length (endpoint_tasks config) \<le> 3"
  by (simp add: endpoint_tasks_def split: option.split)

text \<open>A TUN endpoint that hangs keeps the service from returning.\<close>

lemma client_hangs_step:
  assumes inv: "client_inv cap env config s" and hang: "client_hangs env s" and st: "client_woken cap env config e s = Some s'"
  shows "client_inv cap env config s' \<and> client_hangs env s'"
proof -
  have e: "e \<noteq> TunEv SendPoll" and st: "client_step cap env config e s = Some s'" using st by (auto simp: avoiding_def split: if_splits)
  from hang obtain c t where r: "cl_tun s = Runs (c, t)" and t: "tun_stuck (cv_tun_env env) c t"
    by (auto simp: client_hangs_def split: endpoint_state.splits)
  have ti: "endpoint_inv cap t" "endpoint_tun_start env config = Inr c" using inv r by (auto simp: client_inv_def tun_task_inv_def)
  have cap: "0 < udp_session_channel_capacity c" using endpoint_tun_capacity [OF ti(2)] by simp
  have "client_hangs env s'"
  proof (cases e)
    case (TunEv te)
    with st r obtain t' where t':
      "tun_accept_loop (cv_proto_of env) (cv_ip_view env) (cv_udp_view env) (cv_tun_env env) c te t = Some t'"
      "cl_tun s' = (if te_returned t' then EndpointDone None else Runs (c, t'))"
      by (auto simp: client_step_def tun_task_step_def split: if_splits)
    have "avoiding SendPoll (tun_accept_loop (cv_proto_of env) (cv_ip_view env) (cv_udp_view env) (cv_tun_env env) c) te t = Some t'"
      using t'(1) e TunEv by (simp add: avoiding_def)
    from tun_stuck_step [OF conjI [OF ti(1) t] cap this] stuck_not_returned t'(2) show ?thesis by (auto simp: client_hangs_def)
  next
    case (StartEndpoint task)
    with st r have "cl_tun s' = cl_tun s"
      by (cases task) (auto simp: client_step_def start_endpoint_def split: if_splits)
    with hang show ?thesis by (simp add: client_hangs_def)
  next
    case AwaitNext
    with st have "cl_tun s' = cl_tun s" by (auto simp: client_step_def await_next_def split: client_call.splits list.splits if_splits)
    with hang show ?thesis by (simp add: client_hangs_def)
  qed (use st hang in \<open>auto simp: client_step_def client_shutdown_def client_hangs_def split: if_splits\<close>)
  with client_step_inv(1) [OF inv st] show ?thesis by blast
qed

lemma client_hangs_run:
  "client_inv cap env config s \<Longrightarrow> client_hangs env s \<Longrightarrow> run_steps (client_woken cap env config) es s = Some t \<Longrightarrow>
   client_inv cap env config t \<and> client_hangs env t"
proof (induction es arbitrary: s)
  case (Cons e es)
  from Cons.prems(3) obtain s1 where "client_woken cap env config e s = Some s1" "run_steps (client_woken cap env config) es s1 = Some t"
    by (rule run_steps_Cons_SomeE)
  with Cons.IH client_hangs_step [OF Cons.prems(1,2)] show ?case by blast
qed simp

lemma client_hangs_waits: "client_inv cap env config s \<Longrightarrow> client_hangs env s \<Longrightarrow> cl_call s \<noteq> ClientReturned"
proof
  assume inv: "client_inv cap env config s" and "client_hangs env s" and ret: "cl_call s = ClientReturned"
  then obtain c t where "cl_tun s = Runs (c, t)" by (auto simp: client_hangs_def split: endpoint_state.splits)
  moreover from this inv have "TunEndpoint \<in> set (endpoint_tasks config)" by (simp add: client_inv_def tun_task_inv_def)
  with inv ret have "endpoint_ended TunEndpoint s" by (simp add: client_inv_def)
  ultimately show False by (simp add: endpoint_ended_def)
qed


text \<open>Two endpoints, of which one cannot bind its address: the client serves with the other, and shuts down.\<close>

definition sample_endpoints :: endpoint_config where
  "sample_endpoints = \<lparr>ep_http = Some (socket_addr_new (IpV4 (Ipv4 127 0 0 1)) 80), ep_socks = Some (socket_addr_new (IpV4 (Ipv4 127 0 0 1)) 1080),
     ep_tun = None\<rparr>"

definition port_80_denied :: "u8 client_env" where
  "port_80_denied =
     \<lparr>cv_bind = (\<lambda>a. if sa_port a = 80 then Inl (io_err KPermissionDenied ''no permission'') else Inr ()),
      cv_from_fd = (\<lambda>_. Inr ()), cv_ipv4_net = (\<lambda>t. Inr (t, [])), cv_ipv6_net = (\<lambda>t. Inr (t, [])), cv_build = (\<lambda>_. Inr ()),
      cv_default_net = (\<lambda>_. tiny_net), cv_parse_net = (\<lambda>_. Inr tiny_net), cv_proto_of = tiny_proto, cv_ip_view = (\<lambda>_. None),
      cv_udp_view = (\<lambda>_. None), cv_tun_env = tiny_env\<rparr>"


end
