(* ===== verification/Server_Auth.thy ===== *)
theory Server_Auth
  imports Protocol Std_Text Metrics Machine
begin

text \<open>
  Accepting and authenticating clients: \<open>crates/ombrac-server/src/connection/mod.rs\<close>. The handshake is a
  function of what its awaits give (\<open>auth_input\<close>) that returns its result and the list of what it did, in order.
  The acceptor is a machine whose events are the accepted connections and the ends of their
  tasks; its semaphore is the number of free permits.
\<close>

section \<open>Authentication\<close>

datatype connection_auth_error =
    IncompatibleVersion
  | InvalidSecret
  | ServerError
  | OtherAuthError string

fun auth_error_to_io :: "connection_auth_error \<Rightarrow> io_error" where
  "auth_error_to_io IncompatibleVersion = io_err KUnsupported ''incompatible protocol version''"
| "auth_error_to_io InvalidSecret = io_err KPermissionDenied ''invalid authentication secret''"
| "auth_error_to_io ServerError = io_err KConnectionAborted ''internal server error during auth''"
| "auth_error_to_io (OtherAuthError msg) = io_err KOther msg"

text \<open>\<open>impl Authenticator for Secret\<close>\<close>

definition secret_verify :: "secret \<Rightarrow> client_hello \<Rightarrow> connection_auth_error + unit" where
  "secret_verify own hello = (if hello_secret hello = own then Inr () else Inl InvalidSecret)"

text \<open>
  What the awaits of the handshake give: the control stream; its next frame (\<open>None\<close> when the timeout
  fires, \<open>Some None\<close> when the stream is closed); whether the authenticator or the response times out;
  the result of sending it; the random delay in milliseconds.
\<close>

record auth_input =
  ai_accept :: "unit io_result"
  ai_next :: "bytes io_result option option"
  ai_decode :: "bytes \<Rightarrow> client_message io_result"
  ai_verify_timeout :: bool
  ai_encode :: "server_auth_response \<Rightarrow> bytes io_result"
  ai_send :: "unit io_result option"
  ai_delay_ms :: nat

datatype auth_effect =
    Slept nat
  | StreamShutdown
  | ResponseSent bytes
  | AuthenticatorAccept
  | TunnelLoops

definition disconnect_with_random_delay :: "auth_input \<Rightarrow> auth_effect list" where
  "disconnect_with_random_delay inp = [Slept (ai_delay_ms inp), StreamShutdown]"

definition secs_text :: "nat \<Rightarrow> string" where
  "secs_text secs = text_of (show_nat secs) @ ''s''"

definition read_hello_message :: "auth_input \<Rightarrow> nat \<Rightarrow> client_hello io_result \<times> auth_effect list" where
  "read_hello_message inp timeout_secs =
     (case ai_next inp of
        None \<Rightarrow> (Inl (io_err KTimedOut
                  (''authentication timeout: failed to receive hello message within '' @ secs_text timeout_secs)), [])
      | Some None \<Rightarrow> (Inl (io_err KUnexpectedEof ''stream closed before hello''), [])
      | Some (Some (Inl e)) \<Rightarrow> (Inl e, [])
      | Some (Some (Inr payload)) \<Rightarrow>
          (case ai_decode inp payload of
             Inl e \<Rightarrow> (Inl (io_err KInvalidData (''failed to decode client message: '' @ err_msg e)), [])
           | Inr (Hello hello) \<Rightarrow> (Inr hello, [])
           | Inr (Connect _) \<Rightarrow>
               (Inl (io_err KInvalidData ''authentication failed: invalid message type (expected Hello)''),
                disconnect_with_random_delay inp)))"

definition send_auth_ok_response :: "auth_input \<Rightarrow> nat \<Rightarrow> unit io_result \<times> auth_effect list" where
  "send_auth_ok_response inp timeout_secs =
     (case ai_encode inp AuthOk of
        Inl e \<Rightarrow> (Inl e, [])
      | Inr encoded \<Rightarrow>
          (case ai_send inp of
             None \<Rightarrow> (Inl (io_err KTimedOut
                       (''authentication timeout: failed to send response within '' @ secs_text timeout_secs)), [])
           | Some (Inl e) \<Rightarrow> (Inl e, [])
           | Some (Inr _) \<Rightarrow> (Inr (), [ResponseSent encoded])))"

definition verify_authentication ::
    "(client_hello \<Rightarrow> connection_auth_error + 'ctx) \<Rightarrow> auth_input \<Rightarrow> nat \<Rightarrow> client_hello \<Rightarrow>
     'ctx io_result \<times> auth_effect list" where
  "verify_authentication verify inp timeout_secs hello =
     (if hello_version hello \<noteq> PROTOCOL_VERSION
      then (Inl (io_err KPermissionDenied ''incompatible version''), disconnect_with_random_delay inp)
      else if ai_verify_timeout inp then (Inl (io_err KTimedOut ''deadline has elapsed''), [])
      else case verify hello of
             Inl err \<Rightarrow> (Inl (auth_error_to_io err), [])
           | Inr ctx \<Rightarrow>
               (case send_auth_ok_response inp timeout_secs of
                  (Inl e, effs) \<Rightarrow> (Inl e, effs)
                | (Inr _, effs) \<Rightarrow> (Inr ctx, effs)))"

definition perform_authentication ::
    "(client_hello \<Rightarrow> connection_auth_error + 'ctx) \<Rightarrow> auth_input \<Rightarrow> nat \<Rightarrow> 'ctx io_result \<times> auth_effect list" where
  "perform_authentication verify inp timeout_secs =
     (case ai_accept inp of
        Inl e \<Rightarrow> (Inl (io_err KOther (''failed to accept bidirectional stream: '' @ err_msg e)), [])
      | Inr _ \<Rightarrow>
          (case read_hello_message inp timeout_secs of
             (Inl e, effs) \<Rightarrow> (Inl e, effs)
           | (Inr hello, effs) \<Rightarrow>
               (let (r, effs') = verify_authentication verify inp timeout_secs hello in (r, effs @ effs'))))"

text \<open>\<open>ClientConnectionProcessor::handle\<close>\<close>

definition handle_client ::
    "(client_hello \<Rightarrow> connection_auth_error + 'ctx) \<Rightarrow> auth_input \<Rightarrow> nat \<Rightarrow> unit io_result \<times> auth_effect list" where
  "handle_client verify inp timeout_secs =
     (case perform_authentication verify inp timeout_secs of
        (Inl e, effs) \<Rightarrow> (Inl e, effs)
      | (Inr _, effs) \<Rightarrow> (Inr (), effs @ [AuthenticatorAccept, TunnelLoops]))"

section \<open>The acceptor\<close>

record acceptor =
  permits :: nat
  running :: "nat list"
  accept_ended :: bool
  acc_metrics :: counters

definition acceptor_with_config :: "nat \<Rightarrow> acceptor" where
  "acceptor_with_config max_connections =
     \<lparr>permits = max_connections, running = [], accept_ended = False, acc_metrics = metrics_new\<rparr>"

datatype acceptor_event =
    ShutdownSignal
  | Incoming "nat io_result"
  | Finished nat "unit io_result"

definition handle_incoming_connection :: "nat io_result \<Rightarrow> acceptor \<Rightarrow> acceptor" where
  "handle_incoming_connection result s =
     (case result of
        Inr conn \<Rightarrow>
          if 0 < permits s
          then s\<lparr>permits := permits s - 1, running := conn # running s,
                 acc_metrics := (acc_metrics s)\<lparr>connections_accepted := connections_accepted (acc_metrics s) + 1\<rparr>\<rparr>
          else s\<lparr>acc_metrics := (acc_metrics s)\<lparr>connections_rejected := connections_rejected (acc_metrics s) + 1\<rparr>\<rparr>
      | Inl _ \<Rightarrow> s)"

text \<open>The end of \<open>process_connection_with_permit\<close>: \<open>process_connection\<close> counts an error, and the permit is
  released.\<close>

definition process_connection_end :: "nat \<Rightarrow> unit io_result \<Rightarrow> acceptor \<Rightarrow> acceptor" where
  "process_connection_end conn result s =
     (let m = acc_metrics s;
          m' = (case result of
                  Inl _ \<Rightarrow> m\<lparr>connections_auth_failed := connections_auth_failed m + 1\<rparr>
                | Inr _ \<Rightarrow> m)
      in s\<lparr>acc_metrics := m', permits := permits s + 1, running := remove1 conn (running s)\<rparr>)"

definition accept_loop :: "acceptor_event \<Rightarrow> acceptor \<Rightarrow> acceptor option" where
  "accept_loop e s =
     (case e of
        ShutdownSignal \<Rightarrow> if accept_ended s then None else Some (s\<lparr>accept_ended := True\<rparr>)
      | Incoming result \<Rightarrow> if accept_ended s then None else Some (handle_incoming_connection result s)
      | Finished conn result \<Rightarrow>
          if conn \<in> set (running s) then Some (process_connection_end conn result s) else None)"

section \<open>Properties of authentication\<close>



definition sample_input :: "u8 \<Rightarrow> bytes \<Rightarrow> auth_input" where
  "sample_input ver sec =
     \<lparr>ai_accept = Inr (), ai_next = Some (Some (Inr [0])),
      ai_decode = (\<lambda>_. Inr (Hello \<lparr>hello_version = ver, hello_secret = sec, hello_options = []\<rparr>)),
      ai_verify_timeout = False, ai_encode = (\<lambda>_. Inr [0]), ai_send = Some (Inr ()), ai_delay_ms = 250\<rparr>"


section \<open>Properties of the acceptor\<close>

definition acceptor_inv :: "nat \<Rightarrow> acceptor \<Rightarrow> bool" where
  "acceptor_inv max_connections s \<longleftrightarrow> permits s + length (running s) = max_connections"

interpretation acceptor: invariant_machine accept_loop "acceptor_inv n" for n
proof
  fix s e s'
  assume inv: "acceptor_inv n s" and step: "accept_loop e s = Some s'"
  show "acceptor_inv n s'"
  proof (cases e)
    case (Finished conn r)
    with step have "conn \<in> set (running s)" by (auto simp: accept_loop_def split: if_splits)
    then have "Suc (length (remove1 conn (running s))) = length (running s)"
      using length_pos_if_in_set [of conn "running s"] by (simp add: length_remove1)
    moreover have "permits s' = Suc (permits s)" "running s' = remove1 conn (running s)"
      using step Finished by (auto simp: accept_loop_def process_connection_end_def Let_def split: if_splits)
    ultimately show ?thesis using inv by (simp add: acceptor_inv_def del: length_remove1)
  qed (use inv step in \<open>auto simp: accept_loop_def acceptor_inv_def handle_incoming_connection_def
      split: if_splits sum.splits\<close>)
qed

fun arrived :: "acceptor_event list \<Rightarrow> nat" where
  "arrived [] = 0"
| "arrived (Incoming (Inr _) # es) = Suc (arrived es)"
| "arrived (_ # es) = arrived es"

lemma accept_loop_counts:
  assumes "accept_loop e s = Some s'"
  shows "connections_accepted (acc_metrics s') + connections_rejected (acc_metrics s') =
    connections_accepted (acc_metrics s) + connections_rejected (acc_metrics s) + of_nat (arrived [e])"
  using assms
  by (cases e rule: acceptor_event.exhaust)
    (auto simp: accept_loop_def handle_incoming_connection_def process_connection_end_def Let_def
      split: if_splits sum.splits)

lemma arrived_Cons: "arrived (e # es) = arrived [e] + arrived es"
  by (cases "e # es" rule: arrived.cases) auto

lemma run_accept_loop_counts:
  "run_steps accept_loop es s = Some s' \<Longrightarrow>
     connections_accepted (acc_metrics s') + connections_rejected (acc_metrics s') =
     connections_accepted (acc_metrics s) + connections_rejected (acc_metrics s) + of_nat (arrived es)"
proof (induction es arbitrary: s)
  case (Cons e es)
  then obtain t where t: "accept_loop e s = Some t" "run_steps accept_loop es t = Some s'"
    by (auto split: option.splits)
  show ?case
    using Cons.IH [OF t(2)] accept_loop_counts [OF t(1)] arrived_Cons [of e es] by (simp del: arrived.simps)
qed simp

text \<open>
  The connection limit holds at every moment: the free permits and the connections being
  processed add up to the configured maximum, so there are never more than that many; every
  connection that arrives is counted as accepted or as rejected, and it is rejected only when all
  permits are taken.
\<close>

theorem connection_limit:
  assumes "run_steps accept_loop es (acceptor_with_config n) = Some s"
  shows "permits s + length (running s) = n \<and> length (running s) \<le> n \<and>
    connections_accepted (acc_metrics s) + connections_rejected (acc_metrics s) = of_nat (arrived es) \<and>
    (\<forall>conn s'. accept_loop (Incoming (Inr conn)) s = Some s' \<longrightarrow>
       (if length (running s) < n then running s' = conn # running s
        else running s' = running s \<and> connections_rejected (acc_metrics s') = connections_rejected (acc_metrics s) + 1))"
proof -
  have "acceptor_inv n (acceptor_with_config n)" by (simp add: acceptor_inv_def acceptor_with_config_def)
  from acceptor.run_inv [OF this assms] have inv: "permits s + length (running s) = n" by (simp add: acceptor_inv_def)
  moreover have "connections_accepted (acc_metrics s) + connections_rejected (acc_metrics s) = of_nat (arrived es)"
    using run_accept_loop_counts [OF assms] by (simp add: acceptor_with_config_def)
  moreover have "accept_loop (Incoming (Inr conn)) s = Some s' \<Longrightarrow>
      (if length (running s) < n then running s' = conn # running s
       else running s' = running s \<and> connections_rejected (acc_metrics s') = connections_rejected (acc_metrics s) + 1)"
    for conn s'
    using inv by (auto simp: accept_loop_def handle_incoming_connection_def split: if_splits)
  ultimately show ?thesis by auto
qed

theorem connection_limit_witness:
  "\<exists>s. run_steps accept_loop [Incoming (Inr 7), Incoming (Inr 8), Finished 7 (Inr ()), Incoming (Inr 9)]
      (acceptor_with_config 1) = Some s \<and> running s = [9] \<and> permits s + length (running s) = 1 \<and>
     connections_accepted (acc_metrics s) + connections_rejected (acc_metrics s) = 3"
proof -
  let ?es = "[Incoming (Inr 7), Incoming (Inr 8), Finished 7 (Inr ()), Incoming (Inr 9)]"
  have "map_option running (run_steps accept_loop ?es (acceptor_with_config 1)) = Some [9]" by code_simp
  then obtain s where s: "run_steps accept_loop ?es (acceptor_with_config 1) = Some s" "running s = [9]" by auto
  from connection_limit [OF s(1)] s show ?thesis by auto
qed

end
