(* ===== verification/Server_Stream.thy ===== *)
theory Server_Stream
  imports Protocol Std_Text Metrics Transport_Io
begin

text \<open>
  Tunnelled TCP streams on the server: \<open>crates/ombrac-server/src/connection/stream.rs\<close>, and name resolution in
  \<open>dns.rs\<close>. The handling of one stream is a function of what its awaits give (\<open>stream_input\<close>) that
  returns the result, the guard (the per-stream record) and what was done, in order; the
  accept loop with its semaphore and shutdown is a machine over the streams.
\<close>

section \<open>Name resolution\<close>

text \<open>The answers of a lookup that matter, and the resolver as an argument: its creation may fail.\<close>

datatype rdata = RAaaa ipv6_addr | RA ipv4_addr | ROther

datatype record_type = RtAaaa | RtA

record resolver =
  res_init :: "unit io_result"
  res_lookup :: "bytes \<Rightarrow> record_type \<Rightarrow> rdata list io_result"

fun first_aaaa :: "rdata list \<Rightarrow> ipv6_addr option" where
  "first_aaaa [] = None"
| "first_aaaa (RAaaa ip # rs) = Some ip"
| "first_aaaa (_ # rs) = first_aaaa rs"

fun first_a :: "rdata list \<Rightarrow> ipv4_addr option" where
  "first_a [] = None"
| "first_a (RA ip # rs) = Some ip"
| "first_a (_ # rs) = first_a rs"

definition lookup_aaaa :: "resolver \<Rightarrow> bytes \<Rightarrow> ipv6_addr option" where
  "lookup_aaaa res d = (case res_lookup res d RtAaaa of Inr rs \<Rightarrow> first_aaaa rs | Inl _ \<Rightarrow> None)"

definition lookup_a :: "resolver \<Rightarrow> bytes \<Rightarrow> ipv4_addr option" where
  "lookup_a res d = (case res_lookup res d RtA of Inr rs \<Rightarrow> first_a rs | Inl _ \<Rightarrow> None)"

definition resolve_domain :: "resolver \<Rightarrow> bytes \<Rightarrow> u16 \<Rightarrow> socket_addr io_result" where
  "resolve_domain res domain port =
     (if \<not> utf8_valid domain
      then Inl (io_err KInvalidInput ''domain name contains invalid utf-8 characters'')
      else case parse_ip_addr domain of
             Some ip \<Rightarrow> Inr (socket_addr_new ip port)
           | None \<Rightarrow>
               (case res_init res of
                  Inl e \<Rightarrow> Inl e
                | Inr _ \<Rightarrow>
                    (case lookup_aaaa res domain of
                       Some ip \<Rightarrow> Inr (socket_addr_new (IpV6 ip) port)
                     | None \<Rightarrow>
                         (case lookup_a res domain of
                            Some ip \<Rightarrow> Inr (socket_addr_new (IpV4 ip) port)
                          | None \<Rightarrow> Inl (io_err KNotFound
                              (''dns resolution failed for '' @ text_of domain @ '': no records found''))))))"

section \<open>One stream\<close>

record stream_guard =
  initial_upstream_bytes :: u64
  guard_destination :: "address option"
  guard_reason :: "io_error option"
  guard_stats :: "copy_bidirectional_stats option"

definition stream_guard_default :: stream_guard where
  "stream_guard_default =
     \<lparr>initial_upstream_bytes = 0, guard_destination = None, guard_reason = None, guard_stats = None\<rparr>"

text \<open>
  The next frame (\<open>None\<close> when the handshake timeout fires, \<open>Some None\<close> when the stream is closed); the
  resolver; the connect (\<open>None\<close> when it times out); sending the response; what the framing layer
  has read beyond the request, and writing it to the destination; whether the shutdown comes before
  the relay ends, and the relay's result.
\<close>

record stream_input =
  si_next :: "bytes io_result option option"
  si_decode :: "bytes \<Rightarrow> client_message io_result"
  si_resolver :: resolver
  si_connect :: "socket_addr \<Rightarrow> unit io_result option"
  si_encode :: "server_message \<Rightarrow> bytes io_result"
  si_send :: "unit io_result"
  si_read_buf :: bytes
  si_write :: "unit io_result"
  si_shutdown :: bool
  si_copy :: "(io_error \<times> copy_bidirectional_stats) + copy_bidirectional_stats"

datatype stream_effect =
    ConnectAttempt socket_addr
  | SentResponse server_message
  | WroteUpstream bytes
  | Relayed

definition read_connect_message :: "stream_input \<Rightarrow> address io_result" where
  "read_connect_message inp =
     (case si_next inp of
        None \<Rightarrow> Inl (io_err KTimedOut ''timeout reading connect message'')
      | Some None \<Rightarrow> Inl (io_err KUnexpectedEof ''stream closed unexpectedly'')
      | Some (Some (Inl e)) \<Rightarrow> Inl e
      | Some (Some (Inr payload)) \<Rightarrow>
          (case si_decode inp payload of
             Inl e \<Rightarrow> Inl e
           | Inr (Connect connect) \<Rightarrow> Inr (connect_address connect)
           | Inr (Hello _) \<Rightarrow> Inl (io_err KInvalidData ''expected connect message'')))"

definition connect_to_destination :: "stream_input \<Rightarrow> address \<Rightarrow> unit io_result \<times> stream_effect list" where
  "connect_to_destination inp destination =
     (case (case destination of
              SocketV4 addr \<Rightarrow> Inr (SAV4 addr)
            | SocketV6 addr \<Rightarrow> Inr (SAV6 addr)
            | Domain domain port \<Rightarrow> resolve_domain (si_resolver inp) domain port) of
        Inl e \<Rightarrow> (Inl e, [])
      | Inr addr \<Rightarrow>
          ((case si_connect inp addr of
              None \<Rightarrow> Inl (io_err KTimedOut ''connection timeout'')
            | Some r \<Rightarrow> r), [ConnectAttempt addr]))"

definition connect_response :: "unit io_result \<Rightarrow> server_connect_response" where
  "connect_response connect_result =
     (case connect_result of
        Inr _ \<Rightarrow> ConnectOk
      | Inl e \<Rightarrow> ConnectErr (from_io_error e) (err_msg e))"

definition send_connect_response :: "stream_input \<Rightarrow> unit io_result \<Rightarrow> unit io_result \<times> stream_effect list" where
  "send_connect_response inp connect_result =
     (let response_message = ConnectResponse (connect_response connect_result)
      in case si_encode inp response_message of
           Inl e \<Rightarrow> (Inl e, [])
         | Inr _ \<Rightarrow>
             (case si_send inp of
                Inl e \<Rightarrow> (Inl e, [])
              | Inr _ \<Rightarrow> (Inr (), [SentResponse response_message])))"

definition exchange_data :: "stream_input \<Rightarrow> stream_guard \<Rightarrow> unit io_result \<times> stream_guard \<times> stream_effect list" where
  "exchange_data inp guard =
     (let buf = si_read_buf inp;
          guard1 = guard\<lparr>initial_upstream_bytes := word_of_nat (length buf)\<rparr>
      in case (if buf = [] then Inr () else si_write inp) of
           Inl e \<Rightarrow> (Inl e, guard1, [])
         | Inr _ \<Rightarrow>
             (let effs = (if buf = [] then [] else [WroteUpstream buf])
              in if si_shutdown inp
                 then (Inl (io_err KInterrupted ''connection closed due to active closure''), guard1, effs)
                 else (case si_copy inp of
                         Inr stats \<Rightarrow> (Inr (), guard1\<lparr>guard_stats := Some stats\<rparr>, effs @ [Relayed])
                       | Inl (e, stats) \<Rightarrow> (Inl e, guard1\<lparr>guard_stats := Some stats\<rparr>, effs @ [Relayed]))))"

definition handle_stream_connect :: "stream_input \<Rightarrow> stream_guard \<Rightarrow> unit io_result \<times> stream_guard \<times> stream_effect list" where
  "handle_stream_connect inp guard =
     (case read_connect_message inp of
        Inl e \<Rightarrow> (Inl e, guard, [])
      | Inr destination \<Rightarrow>
          (let guard1 = guard\<lparr>guard_destination := Some destination\<rparr>;
               (connect_result, effs1) = connect_to_destination inp destination;
               (sent, effs2) = send_connect_response inp connect_result
           in case sent of
                Inl e \<Rightarrow> (Inl e, guard1, effs1 @ effs2)
              | Inr _ \<Rightarrow>
                  (case connect_result of
                     Inl e \<Rightarrow> (Inl e, guard1, effs1 @ effs2)
                   | Inr _ \<Rightarrow>
                       (let (r, guard2, effs3) = exchange_data inp guard1
                        in (r, guard2, effs1 @ effs2 @ effs3)))))"

section \<open>The task of a stream and the accept loop\<close>

definition stream_opened :: "counters \<Rightarrow> counters" where
  "stream_opened m = m\<lparr>streams_opened := streams_opened m + 1\<rparr>"

text \<open>The end of the task, when \<open>handle_stream_connect\<close> has returned.\<close>

definition stream_finished :: "unit io_result \<Rightarrow> stream_guard \<Rightarrow> counters \<Rightarrow> stream_guard \<times> counters" where
  "stream_finished result guard m =
     (let (guard1, m1) =
            (case result of
               Inl e \<Rightarrow> (guard\<lparr>guard_reason := Some e\<rparr>, m\<lparr>streams_failed := streams_failed m + 1\<rparr>)
             | Inr _ \<Rightarrow> (guard, m));
          m2 = (case guard_stats guard1 of
                  None \<Rightarrow> m1
                | Some stats \<Rightarrow>
                    m1\<lparr>bytes_rx := bytes_rx m1 + b_to_a_bytes stats,
                       bytes_tx := bytes_tx m1 + (a_to_b_bytes stats + initial_upstream_bytes guard1)\<rparr>)
      in (guard1, m2\<lparr>streams_closed := streams_closed m2 + 1\<rparr>))"

definition MAX_CONCURRENT_CONNECTIONS :: nat where
  "MAX_CONCURRENT_CONNECTIONS = 4096"

text \<open>The tunnel: streams that wait for a permit, streams being handled, and the free permits.\<close>

record stream_tunnel =
  st_waiting :: "nat list"
  st_active :: "nat list"
  st_permits :: nat
  st_returned :: "unit io_result option"
  st_metrics :: counters

definition stream_tunnel_new :: "counters \<Rightarrow> stream_tunnel" where
  "stream_tunnel_new m =
     \<lparr>st_waiting = [], st_active = [], st_permits = MAX_CONCURRENT_CONNECTIONS, st_returned = None, st_metrics = m\<rparr>"

datatype tunnel_event =
    TunnelShutdown
  | AcceptStream "nat io_result"
  | PermitAcquired nat
  | HandlerDone nat stream_input

definition tunnel_step :: "tunnel_event \<Rightarrow> stream_tunnel \<Rightarrow> stream_tunnel option" where
  "tunnel_step e s =
     (case e of
        TunnelShutdown \<Rightarrow> if st_returned s = None then Some (s\<lparr>st_returned := Some (Inr ())\<rparr>) else None
      | AcceptStream r \<Rightarrow>
          if st_returned s \<noteq> None then None
          else (case r of
                  Inl err \<Rightarrow> Some (s\<lparr>st_returned := Some (Inl err)\<rparr>)
                | Inr i \<Rightarrow> Some (s\<lparr>st_waiting := i # st_waiting s\<rparr>))
      | PermitAcquired i \<Rightarrow>
          if i \<in> set (st_waiting s) \<and> 0 < st_permits s
          then Some (s\<lparr>st_waiting := remove1 i (st_waiting s), st_active := i # st_active s,
                       st_permits := st_permits s - 1, st_metrics := stream_opened (st_metrics s)\<rparr>)
          else None
      | HandlerDone i inp \<Rightarrow>
          if i \<in> set (st_active s)
          then (let (result, guard, effs) = handle_stream_connect inp stream_guard_default;
                    (guard', m) = stream_finished result guard (st_metrics s)
                in Some (s\<lparr>st_active := remove1 i (st_active s), st_permits := st_permits s + 1, st_metrics := m\<rparr>))
          else None)"

section \<open>Properties of one stream\<close>


definition sample_stream :: "unit io_result option \<Rightarrow> stream_input" where
  "sample_stream connect =
     \<lparr>si_next = Some (Some (Inr [0])),
      si_decode = (\<lambda>_. Inr (Connect \<lparr>connect_address = SocketV4 \<lparr>v4_ip = Ipv4 1 2 3 4, v4_port = 80\<rparr>\<rparr>)),
      si_resolver = \<lparr>res_init = Inr (), res_lookup = (\<lambda>_ _. Inr [])\<rparr>, si_connect = (\<lambda>_. connect),
      si_encode = (\<lambda>_. Inr [0]), si_send = Inr (), si_read_buf = [7], si_write = Inr (), si_shutdown = False,
      si_copy = Inr \<lparr>a_to_b_bytes = 2, b_to_a_bytes = 3\<rparr>\<rparr>"


text \<open>
  What the byte counters count: when a stream's relay has run, the task adds to \<open>bytes_tx\<close> the bytes
  that went from the client to the destination, those read ahead with the request included, and to
  \<open>bytes_rx\<close> the bytes that came from the destination; exactly the bytes the relay has written, when it
  ended without error. The stream is counted as closed once, and as failed exactly when its handler
  returned an error.
\<close>

theorem stream_accounting:
  assumes "run_steps copy_bidirectional es bidi_init = Some t"
    and "copy_bidirectional_return t = Some (Inr stats)" and "si_copy inp = Inr stats"
    and "\<not> si_shutdown inp" and "si_read_buf inp = [] \<or> si_write inp = Inr ()"
    and "exchange_data inp guard = (r, guard1, effs)" and "stream_finished r guard1 m = (guard2, m')"
  shows "m' = m\<lparr>bytes_rx := bytes_rx m + word_of_nat (length (cp_out (b_to_a t))),
              bytes_tx := bytes_tx m + word_of_nat (length (cp_out (a_to_b t)) + length (si_read_buf inp)),
              streams_closed := streams_closed m + 1\<rparr>"
proof -
  obtain ra rb where cnts: "counts_ok ra (a_to_b t)" "counts_ok rb (b_to_a t)" and
    "copy_bidirectional_return t = Some (bidi_result ra rb)"
    using bidi_return_counts [OF assms(1)] assms(2) by blast
  with assms(2) obtain na nb where "ra = Inr na" "rb = Inr nb" and
    stats: "stats = \<lparr>a_to_b_bytes = word_of_nat na, b_to_a_bytes = word_of_nat nb\<rparr>"
    by (auto simp: bidi_result_def Let_def split: sum.splits)
  with cnts have n: "na = length (cp_out (a_to_b t))" "nb = length (cp_out (b_to_a t))"
    by (simp_all add: counts_ok_def)
  have "r = Inr ()" "guard_stats guard1 = Some stats"
    "initial_upstream_bytes guard1 = word_of_nat (length (si_read_buf inp))"
    using assms(3-6) by (auto simp: exchange_data_def Let_def split: if_splits)
  with assms(7) n stats show ?thesis
    by (simp add: stream_finished_def)
qed

theorem stream_accounting_witness:
  "snd (stream_finished (Inr ()) \<lparr>initial_upstream_bytes = 1, guard_destination = None, guard_reason = None,
      guard_stats = Some \<lparr>a_to_b_bytes = 2, b_to_a_bytes = 3\<rparr>\<rparr> metrics_new) =
   metrics_new\<lparr>bytes_rx := 3, bytes_tx := 3, streams_closed := 1\<rparr>"
proof -
  let ?es = "[(AtoB, Poll), (BtoA, Poll), (AtoB, ReadOk [1, 2]), (BtoA, ReadOk [7, 8, 9]), (AtoB, WriteSome 2),
       (BtoA, WriteSome 3), (AtoB, ReadOk []), (BtoA, Poll)]"
  let ?t = "\<lparr>a_to_b = \<lparr>cp_pc = CopyDone (Inr 2), copied = 2, cp_in = [1, 2], cp_out = [1, 2]\<rparr>,
              b_to_a = \<lparr>cp_pc = CopyDone (Inr 3), copied = 3, cp_in = [7, 8, 9], cp_out = [7, 8, 9]\<rparr>, bidi_token = True\<rparr>"
  let ?g = "\<lparr>initial_upstream_bytes = 1, guard_destination = None, guard_reason = None,
      guard_stats = Some \<lparr>a_to_b_bytes = 2, b_to_a_bytes = 3\<rparr>\<rparr>"
  have run: "run_steps copy_bidirectional ?es bidi_init = Some ?t" by code_simp
  have ret: "copy_bidirectional_return ?t = Some (Inr \<lparr>a_to_b_bytes = 2, b_to_a_bytes = 3\<rparr>)" by code_simp
  have x: "exchange_data (sample_stream None) stream_guard_default = (Inr (), ?g, [WroteUpstream [7], Relayed])"
    by (simp add: exchange_data_def sample_stream_def stream_guard_default_def)
  have "si_copy (sample_stream None) = Inr \<lparr>a_to_b_bytes = 2, b_to_a_bytes = 3\<rparr>" "\<not> si_shutdown (sample_stream None)"
    "si_read_buf (sample_stream None) = [] \<or> si_write (sample_stream None) = Inr ()"
    by (simp_all add: sample_stream_def)
  from stream_accounting [OF run ret this x surjective_pairing, of metrics_new] show ?thesis
    by (simp add: sample_stream_def)
qed

section \<open>Properties of the tunnel\<close>

definition tunnel_inv :: "u64 \<Rightarrow> stream_tunnel \<Rightarrow> bool" where
  "tunnel_inv d s \<longleftrightarrow>
     st_permits s + length (st_active s) = 4096 \<and>
     streams_opened (st_metrics s) = d + streams_closed (st_metrics s) + word_of_nat (length (st_active s))"

lemma stream_finished_closed:
  "streams_closed (snd (stream_finished r g m)) = streams_closed m + 1 \<and>
   streams_opened (snd (stream_finished r g m)) = streams_opened m"
  by (auto simp: stream_finished_def Let_def split: sum.splits option.splits)

lemma Suc_length_remove1: "x \<in> set xs \<Longrightarrow> Suc (length (remove1 x xs)) = length xs"
  using length_pos_if_in_set [of x xs] by (simp add: length_remove1)

interpretation tunnel: invariant_machine tunnel_step "tunnel_inv d" for d
proof
  fix s e s'
  assume inv: "tunnel_inv d s" and step: "tunnel_step e s = Some s'"
  show "tunnel_inv d s'"
  proof (cases e)
    case (HandlerDone i inp)
    obtain result guard effs where h: "handle_stream_connect inp stream_guard_default = (result, guard, effs)"
      by (metis prod_cases3)
    from HandlerDone step h have i: "i \<in> set (st_active s)" and
      s': "st_active s' = remove1 i (st_active s)" "st_permits s' = st_permits s + 1"
        "st_metrics s' = snd (stream_finished result guard (st_metrics s))"
      by (auto simp: tunnel_step_def split: if_splits prod.splits)
    from Suc_length_remove1 [OF i] inv s' stream_finished_closed [of result guard "st_metrics s"] show ?thesis
      by (simp add: tunnel_inv_def flip: of_nat_Suc del: length_remove1)
  qed (use inv step in \<open>auto simp: tunnel_inv_def tunnel_step_def stream_opened_def split: if_splits sum.splits\<close>)
qed

text \<open>
  Every stream that was opened is closed once, and never more than 4096 are handled at a time:
  under every interleaving of accepted streams, permits, handlers that end and a shutdown, the
  opened count exceeds the closed count by exactly the streams being handled, and the free permits
  and those streams add up to the limit.
\<close>

theorem tunnel_balance:
  assumes "run_steps tunnel_step es (stream_tunnel_new m) = Some s"
  shows "st_permits s + length (st_active s) = 4096 \<and>
    streams_opened (st_metrics s) - streams_closed (st_metrics s) =
      streams_opened m - streams_closed m + word_of_nat (length (st_active s))"
proof -
  have "tunnel_inv (streams_opened m - streams_closed m) (stream_tunnel_new m)"
    by (simp add: tunnel_inv_def stream_tunnel_new_def MAX_CONCURRENT_CONNECTIONS_def)
  from tunnel.run_inv [OF this assms] show ?thesis by (simp add: tunnel_inv_def)
qed

theorem tunnel_balance_witness:
  "\<exists>s. run_steps tunnel_step [AcceptStream (Inr 1), AcceptStream (Inr 2), PermitAcquired 1, PermitAcquired 2, TunnelShutdown,
      HandlerDone 1 (sample_stream None)] (stream_tunnel_new metrics_new) = Some s \<and>
     length (st_active s) = 1 \<and> streams_opened (st_metrics s) - streams_closed (st_metrics s) = 1"
proof -
  let ?es = "[AcceptStream (Inr 1), AcceptStream (Inr 2), PermitAcquired 1, PermitAcquired 2, TunnelShutdown,
      HandlerDone 1 (sample_stream None)]"
  have "map_option st_active (run_steps tunnel_step ?es (stream_tunnel_new metrics_new)) = Some [2]"
    by (simp add: tunnel_step_def stream_tunnel_new_def MAX_CONCURRENT_CONNECTIONS_def split_def Let_def)
  then obtain s where s: "run_steps tunnel_step ?es (stream_tunnel_new metrics_new) = Some s" "st_active s = [2]" by auto
  from tunnel_balance [OF s(1)] s show ?thesis by simp
qed

end
