(* ===== verification/Server_Datagram.thy ===== *)
theory Server_Datagram
  imports Reassembly Server_Stream
begin

text \<open>
  Tunnelled UDP on the server: \<open>crates/ombrac-server/src/connection/datagram.rs\<close>. A session owns a UDP socket
  and a task that sends what arrives there to the client. Sessions are shared (\<open>Arc\<close>), so they
  live in a heap; the session cache of \<open>moka\<close> is the map from session identifiers to them, and its
  eviction, which the cache decides on, is an event. The DNS cache is an argument given by its operations, as
  is the resolver.
\<close>

section \<open>Looking up destinations\<close>

definition lookup_host ::
    "('d, bytes, socket_addr) cache_ops \<Rightarrow> resolver \<Rightarrow> 'd \<Rightarrow> address \<Rightarrow> socket_addr io_result \<times> 'd" where
  "lookup_host ops res dns_cache addr =
     (case addr of
        SocketV4 a \<Rightarrow> (Inr (SAV4 a), dns_cache)
      | SocketV6 a \<Rightarrow> (Inr (SAV6 a), dns_cache)
      | Domain domain port \<Rightarrow>
          (case cache_get ops dns_cache domain of
             Some a \<Rightarrow> (Inr a, dns_cache)
           | None \<Rightarrow>
               (case resolve_domain res domain port of
                  Inl e \<Rightarrow> (Inl e, dns_cache)
                | Inr a \<Rightarrow> (Inr a, cache_insert ops dns_cache domain a))))"

text \<open>
  \<open>bind_udp_socket_with_retry\<close>: the result of each attempt is an argument; the second component counts the
  pauses of 100 ms between attempts.
\<close>

definition SOCKET_BIND_RETRY_MAX :: nat where
  "SOCKET_BIND_RETRY_MAX = 3"

fun bind_attempts :: "(nat \<Rightarrow> unit io_result) \<Rightarrow> nat list \<Rightarrow> io_error option \<Rightarrow> unit io_result \<times> nat" where
  "bind_attempts bind [] last_error =
     (Inl (unwrap_or last_error (io_err KOther ''UDP socket bind failed after 3 retries'')), 0)"
| "bind_attempts bind (attempt # rest) last_error =
     (case bind attempt of
        Inr _ \<Rightarrow> (Inr (), 0)
      | Inl e \<Rightarrow>
          (let (r, pauses) = bind_attempts bind rest (Some e)
           in (r, (if attempt < SOCKET_BIND_RETRY_MAX - 1 then 1 else 0) + pauses)))"

definition bind_udp_socket_with_retry :: "(nat \<Rightarrow> unit io_result) \<Rightarrow> unit io_result \<times> nat" where
  "bind_udp_socket_with_retry bind = bind_attempts bind [0..<SOCKET_BIND_RETRY_MAX] None"

section \<open>Sessions\<close>

text \<open>\<open>ds_session_id\<close> is the identifier its downstream task was started with, \<open>ds_bind\<close> the local address its
  socket was bound to.\<close>

record datagram_session =
  ds_session_id :: u64
  ds_bind :: socket_addr
  upstream_bytes :: u64
  downstream_bytes :: u64
  ds_destination :: address
  ds_aborted :: bool

record ('c, 'd) datagram_tunnel =
  dt_sessions :: "u64 \<Rightarrow> nat option"
  dt_heap :: "nat \<Rightarrow> datagram_session"
  dt_next :: nat
  dt_dns :: 'd
  dt_reassembler :: "'c reassembler"
  dt_pending :: "(nat \<times> address \<times> bytes) list"
  dt_sent :: "(nat \<times> bytes \<times> socket_addr) list"
  dt_to_client :: "udp_packet list"
  dt_metrics :: counters

definition MAX_CONCURRENT_HANDLERS :: nat where
  "MAX_CONCURRENT_HANDLERS = 4096"

definition dead_session :: datagram_session where
  "dead_session =
     \<lparr>ds_session_id = 0, ds_bind = SAV4 \<lparr>v4_ip = Ipv4 0 0 0 0, v4_port = 0\<rparr>, upstream_bytes = 0,
      downstream_bytes = 0, ds_destination = Domain [] 0, ds_aborted = True\<rparr>"

definition datagram_tunnel_new :: "'c \<Rightarrow> 'd \<Rightarrow> counters \<Rightarrow> ('c, 'd) datagram_tunnel" where
  "datagram_tunnel_new cache dns m =
     \<lparr>dt_sessions = Map.empty, dt_heap = (\<lambda>_. dead_session), dt_next = 0, dt_dns = dns,
      dt_reassembler = reassembler_new cache, dt_pending = [], dt_sent = [], dt_to_client = [], dt_metrics = m\<rparr>"

text \<open>What the tunnel relies on: the caches, the deserialisation, the resolver and the system's bind.\<close>

record ('c, 'd) datagram_env =
  de_cache :: "('c, cache_key, nat) cache_ops"
  de_dns :: "('d, bytes, socket_addr) cache_ops"
  de_decode :: "bytes \<Rightarrow> udp_packet io_result"
  de_resolver :: resolver
  de_bind :: "socket_addr \<Rightarrow> nat \<Rightarrow> unit io_result"

definition bind_addr_of :: "socket_addr \<Rightarrow> socket_addr" where
  "bind_addr_of dest =
     (case dest of
        SAV4 _ \<Rightarrow> SAV4 \<lparr>v4_ip = Ipv4 0 0 0 0, v4_port = 0\<rparr>
      | SAV6 _ \<Rightarrow> SAV6 \<lparr>v6_ip = Ipv6 0 0 0 0 0 0 0 0, v6_port = 0, v6_flowinfo = 0, v6_scope_id = 0\<rparr>)"

definition get_or_create_session ::
    "('c, 'd) datagram_env \<Rightarrow> u64 \<Rightarrow> address \<Rightarrow> ('c, 'd) datagram_tunnel \<Rightarrow>
     nat io_result \<times> ('c, 'd) datagram_tunnel" where
  "get_or_create_session env session_id dest_addr t =
     (case dt_sessions t session_id of
        Some r \<Rightarrow> (Inr r, t)
      | None \<Rightarrow>
          (let (looked, dns') = lookup_host (de_dns env) (de_resolver env) (dt_dns t) dest_addr;
               t1 = t\<lparr>dt_dns := dns'\<rparr>
           in case looked of
                Inl e \<Rightarrow> (Inl (io_err KOther (err_msg e)), t1)
              | Inr dest \<Rightarrow>
                  (let bind_addr = bind_addr_of dest
                   in case fst (bind_udp_socket_with_retry (de_bind env bind_addr)) of
                        Inl e \<Rightarrow> (Inl (io_err KOther (err_msg e)), t1)
                      | Inr _ \<Rightarrow>
                          (let r = dt_next t1;
                               session = \<lparr>ds_session_id = session_id, ds_bind = bind_addr, upstream_bytes = 0,
                                          downstream_bytes = 0, ds_destination = dest_addr, ds_aborted = False\<rparr>;
                               m = dt_metrics t1
                           in (Inr r, t1\<lparr>dt_heap := (dt_heap t1)(r := session), dt_next := Suc r,
                                         dt_sessions := (dt_sessions t1)(session_id \<mapsto> r),
                                         dt_metrics := m\<lparr>udp_sessions_opened := udp_sessions_opened m + 1\<rparr>\<rparr>)))))"

text \<open>
  \<open>handle_upstream_packet\<close>: the spawned future joins \<open>dt_pending\<close>; \<open>None\<close> while all permits of the semaphore are
  taken by pending futures.
\<close>

definition handle_upstream_packet ::
    "('c, 'd) datagram_env \<Rightarrow> bytes \<Rightarrow> ('c, 'd) datagram_tunnel \<Rightarrow>
     (unit io_result \<times> ('c, 'd) datagram_tunnel) option" where
  "handle_upstream_packet env packet_bytes t =
     (case de_decode env packet_bytes of
        Inl _ \<Rightarrow> Some (Inr (), t)
      | Inr packet \<Rightarrow>
          (let (reassembled, rs) = process (de_cache env) (dt_reassembler t) packet;
               t1 = t\<lparr>dt_reassembler := rs\<rparr>
           in case reassembled of
                Inl e \<Rightarrow> Some (Inl e, t1)
              | Inr None \<Rightarrow> Some (Inr (), t1)
              | Inr (Some (session_id, addr, data)) \<Rightarrow>
                  (let m = dt_metrics t1;
                       t2 = t1\<lparr>dt_metrics := m\<lparr>reassemblies_completed := reassemblies_completed m + 1\<rparr>\<rparr>
                   in case get_or_create_session env session_id addr t2 of
                        (Inl _, t3) \<Rightarrow> Some (Inr (), t3)
                      | (Inr r, t3) \<Rightarrow>
                          if MAX_CONCURRENT_HANDLERS \<le> length (dt_pending t3) then None
                          else Some (Inr (), t3\<lparr>dt_pending := dt_pending t3 @ [(r, addr, data)]\<rparr>))))"

text \<open>The spawned future, for the \<open>i\<close>-th pending packet.\<close>

definition run_pending :: "('c, 'd) datagram_env \<Rightarrow> nat \<Rightarrow> ('c, 'd) datagram_tunnel \<Rightarrow> ('c, 'd) datagram_tunnel option" where
  "run_pending env i t =
     (if i < length (dt_pending t) then
        (let (r, addr, data) = dt_pending t ! i;
             s = dt_heap t r;
             t1 = t\<lparr>dt_pending := take i (dt_pending t) @ drop (Suc i) (dt_pending t),
                    dt_heap := (dt_heap t)(r := s\<lparr>upstream_bytes := upstream_bytes s + word_of_nat (length data)\<rparr>)\<rparr>;
             (looked, dns') = lookup_host (de_dns env) (de_resolver env) (dt_dns t1) addr;
             t2 = t1\<lparr>dt_dns := dns'\<rparr>
         in case looked of
              Inl _ \<Rightarrow> Some t2
            | Inr dest \<Rightarrow> Some (t2\<lparr>dt_sent := dt_sent t2 @ [(r, data, dest)]\<rparr>))
      else None)"

text \<open>The eviction listener of the session cache.\<close>

definition evict_session :: "u64 \<Rightarrow> ('c, 'd) datagram_tunnel \<Rightarrow> ('c, 'd) datagram_tunnel option" where
  "evict_session session_id t =
     (case dt_sessions t session_id of
        None \<Rightarrow> None
      | Some r \<Rightarrow>
          (let s = dt_heap t r; m = dt_metrics t
           in Some (t\<lparr>dt_sessions := (dt_sessions t)(session_id := None),
                      dt_heap := (dt_heap t)(r := s\<lparr>ds_aborted := True\<rparr>),
                      dt_metrics := m\<lparr>udp_sessions_closed := udp_sessions_closed m + 1,
                                      bytes_rx := bytes_rx m + upstream_bytes s,
                                      bytes_tx := bytes_tx m + downstream_bytes s\<rparr>\<rparr>)))"

text \<open>
  One turn of \<open>DownstreamHandler::accept_loop\<close> with a received datagram; \<open>sent\<close> tells whether the packet
  could be encoded and sent to the client in time.
\<close>

definition downstream_packet :: "u64 \<Rightarrow> socket_addr \<Rightarrow> bytes \<Rightarrow> udp_packet" where
  "downstream_packet session_id source data = Unfragmented session_id (address_from_socket_addr source) data"

definition downstream_recv ::
    "nat \<Rightarrow> socket_addr \<Rightarrow> bytes \<Rightarrow> bool \<Rightarrow> ('c, 'd) datagram_tunnel \<Rightarrow> ('c, 'd) datagram_tunnel option" where
  "downstream_recv r source data sent t =
     (let s = dt_heap t r
      in if ds_aborted s then None
         else
           (let t1 = t\<lparr>dt_heap := (dt_heap t)
                  (r := s\<lparr>downstream_bytes := downstream_bytes s + word_of_nat (length data)\<rparr>)\<rparr>
            in Some (if sent
                     then t1\<lparr>dt_to_client := dt_to_client t1 @ [downstream_packet (ds_session_id s) source data]\<rparr>
                     else t1)))"

datatype datagram_event =
    Upstream bytes
  | RunPending nat
  | Evict u64
  | Downstream nat socket_addr bytes bool

definition datagram_step ::
    "('c, 'd) datagram_env \<Rightarrow> datagram_event \<Rightarrow> ('c, 'd) datagram_tunnel \<Rightarrow> ('c, 'd) datagram_tunnel option" where
  "datagram_step env e t =
     (case e of
        Upstream packet_bytes \<Rightarrow> map_option snd (handle_upstream_packet env packet_bytes t)
      | RunPending i \<Rightarrow> run_pending env i t
      | Evict session_id \<Rightarrow> evict_session session_id t
      | Downstream r source data sent \<Rightarrow> downstream_recv r source data sent t)"

section \<open>Lookups and binding\<close>

lemma resolve_domain_cases:
  assumes "resolve_domain res d p = Inr a"
  shows "\<exists>ip. a = socket_addr_new ip p"
proof -
  have v: "utf8_valid d" using assms by (cases "utf8_valid d") (simp_all add: resolve_domain_def)
  show ?thesis
  proof (cases "parse_ip_addr d")
    case None
    note simps = resolve_domain_def v None
    show ?thesis
    proof (cases "res_init res")
      case (Inr u)
      with assms show ?thesis
        by (cases "lookup_aaaa res d"; cases "lookup_a res d") (auto simp: simps simp del: socket_addr_new.simps)
    qed (use assms in \<open>simp add: simps\<close>)
  next
    case (Some ip)
    with v assms show ?thesis by (auto simp: resolve_domain_def simp del: socket_addr_new.simps)
  qed
qed

lemma resolve_domain_port: "resolve_domain res d p = Inr a \<Longrightarrow> sa_port a = p"
  using resolve_domain_cases by fastforce

text \<open>
  C39. The DNS cache forgets the port: when the cache keeps what was inserted, a lookup of a name for
  one port makes every later lookup of that name, whatever port it asks for, return the address with the
  first port.
\<close>

theorem lookup_host_ignores_port:
  assumes "\<And>c k v. cache_get ops (cache_insert ops c k v) k = Some v"
    and "cache_get ops dns d = None" and "resolve_domain res d p1 = Inr a"
    and "lookup_host ops res dns (Domain d p1) = (r1, dns1)"
  shows "r1 = Inr a \<and> (\<forall>p2. lookup_host ops res dns1 (Domain d p2) = (Inr a, dns1)) \<and> sa_port a = p1"
proof -
  have l: "r1 = Inr a" "dns1 = cache_insert ops dns d a"
    using assms(2-4) by (simp_all add: lookup_host_def)
  have "lookup_host ops res dns1 (Domain d p2) = (Inr a, dns1)" for p2
    using assms(1) [of dns d a] by (simp add: lookup_host_def l)
  with l resolve_domain_port [OF assms(3)] show ?thesis by simp
qed

theorem lookup_host_ignores_port_witness:
  "lookup_host map_cache \<lparr>res_init = Inr (), res_lookup = (\<lambda>_ _. Inr [RA (Ipv4 1 2 3 4)])\<rparr>
     [[122] \<mapsto> SAV4 \<lparr>v4_ip = Ipv4 1 2 3 4, v4_port = 53\<rparr>] (Domain [122] 443) =
   (Inr (SAV4 \<lparr>v4_ip = Ipv4 1 2 3 4, v4_port = 53\<rparr>), [[122] \<mapsto> SAV4 \<lparr>v4_ip = Ipv4 1 2 3 4, v4_port = 53\<rparr>])"
proof -
  let ?res = "\<lparr>res_init = Inr (), res_lookup = (\<lambda>_ _. Inr [RA (Ipv4 1 2 3 4)])\<rparr>"
  have r: "resolve_domain ?res [122] 53 = Inr (SAV4 \<lparr>v4_ip = Ipv4 1 2 3 4, v4_port = 53\<rparr>)"
  proof -
    have "utf8_valid [122]" by code_simp
    moreover have "parse_ip_addr [122] = None"
    proof -
      have z: "to_digit 10 0x7A = None" "to_digit 16 0x7A = None" by (simp_all add: to_digit_def)
      have "read_groups (Suc 7) 0 [122] = ([], False, [122])"
        by (subst read_groups.simps(2)) (simp add: read_separator_def read_ipv4_addr_def read_octet_def read_number_def z)
      then have "read_ipv6_addr [122] = None"
        by (simp add: read_ipv6_addr_def read_given_char_def del: read_groups.simps)
      then show ?thesis
        by (simp add: parse_ip_addr_def read_ipv4_addr_def read_octet_def read_separator_def read_number_def z)
    qed
    ultimately show ?thesis by (simp add: resolve_domain_def lookup_aaaa_def lookup_a_def)
  qed
  have g: "cache_get map_cache (cache_insert map_cache c k v) k = Some v" for c :: "bytes \<Rightarrow> socket_addr option" and k v
    by (simp add: map_cache_def)
  have n: "cache_get map_cache Map.empty ([122] :: bytes) = (None :: socket_addr option)" by (simp add: map_cache_def)
  have l: "lookup_host map_cache ?res Map.empty (Domain [122] 53) =
      (Inr (SAV4 \<lparr>v4_ip = Ipv4 1 2 3 4, v4_port = 53\<rparr>), [[122] \<mapsto> SAV4 \<lparr>v4_ip = Ipv4 1 2 3 4, v4_port = 53\<rparr>])"
    using r by (simp add: lookup_host_def map_cache_def)
  from lookup_host_ignores_port [OF g n r l] show ?thesis by blast
qed

text \<open>
  Binding the socket of a session is tried at most three times: it succeeds exactly when one of
  the first three attempts does, with one pause before each further attempt, and otherwise
  returns the error of the third attempt.
\<close>

theorem bind_retry_spec:
  "bind_udp_socket_with_retry bind =
     (case bind 0 of Inr _ \<Rightarrow> (Inr (), 0) | Inl _ \<Rightarrow>
     (case bind 1 of Inr _ \<Rightarrow> (Inr (), 1) | Inl _ \<Rightarrow>
     (case bind 2 of Inr _ \<Rightarrow> (Inr (), 2) | Inl e \<Rightarrow> (Inl e, 2))))"
  by (simp add: bind_udp_socket_with_retry_def SOCKET_BIND_RETRY_MAX_def upt_conv_Cons numeral_2_eq_2 split: sum.split)

section \<open>Invariant of the sessions\<close>

definition live_sessions :: "('c, 'd) datagram_tunnel \<Rightarrow> nat list" where
  "live_sessions t = filter (\<lambda>r. \<not> ds_aborted (dt_heap t r)) [0..<dt_next t]"

definition datagram_inv :: "u64 \<Rightarrow> ('c, 'd) datagram_tunnel \<Rightarrow> bool" where
  "datagram_inv d t \<longleftrightarrow>
     (\<forall>sid r. dt_sessions t sid = Some r \<longleftrightarrow>
        r < dt_next t \<and> \<not> ds_aborted (dt_heap t r) \<and> ds_session_id (dt_heap t r) = sid) \<and>
     (\<forall>(r, _) \<in> set (dt_pending t). r < dt_next t) \<and>
     udp_sessions_opened (dt_metrics t) =
       d + udp_sessions_closed (dt_metrics t) + word_of_nat (length (live_sessions t)) \<and>
     length (dt_pending t) \<le> 4096 \<and>
     (\<forall>r. \<not> ds_aborted (dt_heap t r) \<longrightarrow> r < dt_next t)"

lemma datagram_invI:
  assumes "\<And>sid r. dt_sessions t sid = Some r \<longleftrightarrow>
      r < dt_next t \<and> \<not> ds_aborted (dt_heap t r) \<and> ds_session_id (dt_heap t r) = sid"
    and "\<And>r a b. (r, a, b) \<in> set (dt_pending t) \<Longrightarrow> r < dt_next t"
    and "udp_sessions_opened (dt_metrics t) =
      d + udp_sessions_closed (dt_metrics t) + word_of_nat (length (live_sessions t))"
    and "length (dt_pending t) \<le> 4096"
    and "\<And>r. \<not> ds_aborted (dt_heap t r) \<Longrightarrow> r < dt_next t"
  shows "datagram_inv d t"
  using assms by (auto simp: datagram_inv_def)

lemma datagram_invD:
  assumes "datagram_inv d t"
  shows "dt_sessions t sid = Some r \<longleftrightarrow>
      r < dt_next t \<and> \<not> ds_aborted (dt_heap t r) \<and> ds_session_id (dt_heap t r) = sid"
    and "(r, a, b) \<in> set (dt_pending t) \<Longrightarrow> r < dt_next t"
    and "udp_sessions_opened (dt_metrics t) =
      d + udp_sessions_closed (dt_metrics t) + word_of_nat (length (live_sessions t))"
    and "length (dt_pending t) \<le> 4096"
    and "\<not> ds_aborted (dt_heap t r) \<Longrightarrow> r < dt_next t"
  using assms by (auto simp: datagram_inv_def)

lemma datagram_inv_pending: "datagram_inv d t \<Longrightarrow> p \<in> set (dt_pending t) \<Longrightarrow> fst p < dt_next t"
  using datagram_invD(2) by (cases p) fastforce

text \<open>Changes that touch neither the sessions nor their counters.\<close>

lemma datagram_inv_cong:
  assumes "datagram_inv d t" and "dt_sessions t' = dt_sessions t" and "dt_next t' = dt_next t"
    and "\<And>r. ds_aborted (dt_heap t' r) = ds_aborted (dt_heap t r)"
    and "\<And>r. ds_session_id (dt_heap t' r) = ds_session_id (dt_heap t r)"
    and "udp_sessions_opened (dt_metrics t') = udp_sessions_opened (dt_metrics t)"
    and "udp_sessions_closed (dt_metrics t') = udp_sessions_closed (dt_metrics t)"
    and "\<And>p. p \<in> set (dt_pending t') \<Longrightarrow> fst p < dt_next t" and "length (dt_pending t') \<le> 4096"
  shows "datagram_inv d t'"
proof -
  have "live_sessions t' = live_sessions t" using assms(3,4) by (simp add: live_sessions_def)
  moreover have "(r, a, b) \<in> set (dt_pending t') \<Longrightarrow> r < dt_next t" for r a b using assms(8) by force
  ultimately show ?thesis
    using assms(2-7,9) datagram_invD(1,3,5) [OF assms(1)] by (intro datagram_invI) auto
qed

lemma get_or_create_session_inv:
  assumes inv: "datagram_inv d t" and step: "get_or_create_session env sid a t = (r, t')"
  shows "datagram_inv d t' \<and> dt_pending t' = dt_pending t \<and> (\<forall>q. r = Inr q \<longrightarrow> dt_sessions t' sid = Some q)"
proof (cases "dt_sessions t sid")
  case (Some q)
  with assms show ?thesis by (auto simp: get_or_create_session_def)
next
  case None
  obtain looked dns' where look: "lookup_host (de_dns env) (de_resolver env) (dt_dns t) a = (looked, dns')" by fastforce
  have dns: "datagram_inv d (t\<lparr>dt_dns := dns'\<rparr>)"
    by (rule datagram_inv_cong [OF inv]) (use datagram_inv_pending [OF inv] datagram_invD(4) [OF inv] in simp_all)
  show ?thesis
  proof (cases "\<exists>dest. looked = Inr dest \<and> fst (bind_udp_socket_with_retry (de_bind env (bind_addr_of dest))) = Inr ()")
    case False
    with step None look dns show ?thesis
      by (auto simp: get_or_create_session_def Let_def split: sum.splits)
  next
    case True
    then obtain dest where "looked = Inr dest"
      "fst (bind_udp_socket_with_retry (de_bind env (bind_addr_of dest))) = Inr ()" by blast
    with step None look have r: "r = Inr (dt_next t)" and
      t': "t' = t\<lparr>dt_dns := dns',
        dt_heap := (dt_heap t)(dt_next t := \<lparr>ds_session_id = sid, ds_bind = bind_addr_of dest, upstream_bytes = 0,
          downstream_bytes = 0, ds_destination = a, ds_aborted = False\<rparr>), dt_next := Suc (dt_next t),
        dt_sessions := (dt_sessions t)(sid \<mapsto> dt_next t),
        dt_metrics := (dt_metrics t)\<lparr>udp_sessions_opened := udp_sessions_opened (dt_metrics t) + 1\<rparr>\<rparr>"
      by (auto simp: get_or_create_session_def Let_def)
    have "live_sessions t' = live_sessions t @ [dt_next t]"
      by (auto simp: live_sessions_def t' intro!: filter_cong)
    moreover have "((dt_sessions t)(sid \<mapsto> dt_next t)) s = Some q \<longleftrightarrow> q < Suc (dt_next t) \<and>
        (q = dt_next t \<and> s = sid \<or> q \<noteq> dt_next t \<and> \<not> ds_aborted (dt_heap t q) \<and> ds_session_id (dt_heap t q) = s)" for s q
      using datagram_invD(1) [OF inv, of s q] None by (auto simp: less_Suc_eq)
    ultimately have "datagram_inv d t'"
      using datagram_invD(2-5) [OF inv] by (intro datagram_invI) (auto simp: t' less_Suc_eq split: if_splits)
    with r t' show ?thesis by simp
  qed
qed

lemma handle_upstream_packet_inv:
  assumes inv: "datagram_inv d t" and step: "handle_upstream_packet env b t = Some (res, t')"
  shows "datagram_inv d t'"
proof (cases "de_decode env b")
  case (Inl e)
  with assms show ?thesis by (simp add: handle_upstream_packet_def)
next
  case (Inr packet)
  obtain re rs where pr: "process (de_cache env) (dt_reassembler t) packet = (re, rs)" by fastforce
  have keep: "datagram_inv d (t\<lparr>dt_reassembler := rs, dt_metrics := (dt_metrics t)\<lparr>reassemblies_completed := n\<rparr>\<rparr>)"
    and keep0: "datagram_inv d (t\<lparr>dt_reassembler := rs\<rparr>)" for n
    by (rule datagram_inv_cong [OF inv]; use datagram_inv_pending [OF inv] datagram_invD(4) [OF inv] in simp)+
  show ?thesis
  proof (cases "\<exists>sid a data. re = Inr (Some (sid, a, data))")
    case False
    with step Inr pr keep0 show ?thesis
      by (auto simp: handle_upstream_packet_def Let_def split: sum.splits option.splits)
  next
    case True
    then obtain sid a data where re: "re = Inr (Some (sid, a, data))" by blast
    let ?t2 = "t\<lparr>dt_reassembler := rs,
      dt_metrics := (dt_metrics t)\<lparr>reassemblies_completed := reassemblies_completed (dt_metrics t) + 1\<rparr>\<rparr>"
    obtain g t3 where g: "get_or_create_session env sid a ?t2 = (g, t3)" by fastforce
    note i3 = get_or_create_session_inv [OF keep g]
    show ?thesis
    proof (cases g)
      case (Inl e)
      with step Inr pr re g i3 show ?thesis \<comment> \<open>the packet is dropped\<close>
        by (simp add: handle_upstream_packet_def)
    next
      case (Inr q)
      with step \<open>de_decode env b = Inr packet\<close> pr re g have
        t': "t' = t3\<lparr>dt_pending := dt_pending t3 @ [(q, a, data)]\<rparr>" "length (dt_pending t3) < 4096"
        by (auto simp: handle_upstream_packet_def MAX_CONCURRENT_HANDLERS_def split: if_splits)
      have inv3: "datagram_inv d t3" using i3 by simp
      have "q < dt_next t3" using i3 Inr datagram_invD(1) [OF inv3, of sid q] by simp
      then show ?thesis using t'(2) datagram_invD(2) [OF inv3]
        by (intro datagram_inv_cong [OF inv3]) (auto simp: t'(1))
    qed
  qed
qed

lemma run_pending_inv:
  assumes inv: "datagram_inv d t" and step: "run_pending env i t = Some t'"
  shows "datagram_inv d t'"
proof -
  have i: "i < length (dt_pending t)" using step by (simp add: run_pending_def split: if_splits)
  obtain r a data where p: "dt_pending t ! i = (r, a, data)" by (metis prod_cases3)
  have "set (dt_pending t') \<subseteq> set (dt_pending t)" "length (dt_pending t') \<le> length (dt_pending t)"
    using step p i set_take_subset [of i "dt_pending t"] set_drop_subset [of "Suc i" "dt_pending t"]
    by (auto simp: run_pending_def Let_def split: prod.splits sum.splits)
  moreover have "dt_sessions t' = dt_sessions t" "dt_next t' = dt_next t" "dt_metrics t' = dt_metrics t"
    "ds_aborted (dt_heap t' q) = ds_aborted (dt_heap t q)"
    "ds_session_id (dt_heap t' q) = ds_session_id (dt_heap t q)" for q
    using step p by (auto simp: run_pending_def Let_def split: prod.splits sum.splits if_splits)
  ultimately show ?thesis
    using datagram_inv_pending [OF inv] datagram_invD(4) [OF inv]
    by (intro datagram_inv_cong [OF inv]) (simp_all add: subset_eq)
qed

lemma length_filter_remove:
  "distinct xs \<Longrightarrow> x \<in> set xs \<Longrightarrow> P x \<Longrightarrow>
     Suc (length (filter (\<lambda>y. y \<noteq> x \<and> P y) xs)) = length (filter P xs)"
proof (induction xs)
  case (Cons y ys)
  show ?case
  proof (cases "y = x")
    case True
    with Cons.prems have "filter (\<lambda>z. z \<noteq> x \<and> P z) ys = filter P ys" by (intro filter_cong) auto
    with True Cons.prems show ?thesis by simp
  next
    case False
    with Cons show ?thesis by auto
  qed
qed simp

lemma evict_session_inv:
  assumes inv: "datagram_inv d t" and step: "evict_session sid t = Some t'"
  shows "datagram_inv d t'"
proof -
  from step obtain r where r: "dt_sessions t sid = Some r" by (auto simp: evict_session_def split: option.splits)
  let ?s = "dt_heap t r" and ?m = "dt_metrics t"
  from step r have t': "t' = t\<lparr>dt_sessions := (dt_sessions t)(sid := None),
      dt_heap := (dt_heap t)(r := ?s\<lparr>ds_aborted := True\<rparr>),
      dt_metrics := ?m\<lparr>udp_sessions_closed := udp_sessions_closed ?m + 1,
        bytes_rx := bytes_rx ?m + upstream_bytes ?s, bytes_tx := bytes_tx ?m + downstream_bytes ?s\<rparr>\<rparr>"
    by (simp add: evict_session_def Let_def)
  note live = datagram_invD(1) [OF inv, of sid r, unfolded r, simplified]
  have "live_sessions t' = filter (\<lambda>q. q \<noteq> r \<and> \<not> ds_aborted (dt_heap t q)) [0..<dt_next t]"
    by (auto simp: live_sessions_def t' intro!: filter_cong)
  then have len: "length (live_sessions t) = Suc (length (live_sessions t'))"
    using length_filter_remove [of "[0..<dt_next t]" r "\<lambda>q. \<not> ds_aborted (dt_heap t q)"] live
    by (simp add: live_sessions_def)
  show ?thesis
  proof (rule datagram_invI, goal_cases)
    case (1 s q)
    show ?case using datagram_invD(1) [OF inv, of s q] live r by (auto simp: t')
  qed (use datagram_invD(2-5) [OF inv] len in \<open>auto simp: t' split: if_splits\<close>)
qed

lemma downstream_recv_inv:
  assumes inv: "datagram_inv d t" and step: "downstream_recv r source data sent t = Some t'"
  shows "datagram_inv d t'"
proof -
  let ?t1 = "t\<lparr>dt_heap := (dt_heap t)(r := (dt_heap t r)
      \<lparr>downstream_bytes := downstream_bytes (dt_heap t r) + word_of_nat (length data)\<rparr>)\<rparr>"
  have "datagram_inv d ?t1"
    by (rule datagram_inv_cong [OF inv]) (use datagram_inv_pending [OF inv] datagram_invD(4) [OF inv] in simp_all)
  moreover from step have "t' = ?t1 \<or> (\<exists>x. t' = ?t1\<lparr>dt_to_client := x\<rparr>)"
    by (simp add: downstream_recv_def Let_def split: if_splits) blast
  moreover have "datagram_inv d t1 \<Longrightarrow> datagram_inv d (t1\<lparr>dt_to_client := x\<rparr>)" for t1 x
    by (simp add: datagram_inv_def live_sessions_def)
  ultimately show ?thesis by blast
qed

interpretation datagram: invariant_machine "datagram_step env" "datagram_inv d" for env d
proof
  fix s e s'
  assume inv: "datagram_inv d s" and step: "datagram_step env e s = Some s'"
  show "datagram_inv d s'"
  proof (cases e)
    case (Upstream b)
    with step obtain res where "handle_upstream_packet env b s = Some (res, s')"
      by (auto simp: datagram_step_def)
    then show ?thesis by (rule handle_upstream_packet_inv [OF inv])
  next
    case (RunPending i)
    with step show ?thesis by (intro run_pending_inv [OF inv]) (simp add: datagram_step_def)
  next
    case (Evict sid)
    with step show ?thesis by (intro evict_session_inv [OF inv]) (simp add: datagram_step_def)
  next
    case (Downstream r source data sent)
    with step show ?thesis by (intro downstream_recv_inv [OF inv]) (simp add: datagram_step_def)
  qed
qed


definition sample_env :: "(cache_key \<Rightarrow> nat option, bytes \<Rightarrow> socket_addr option) datagram_env" where
  "sample_env =
     \<lparr>de_cache = map_cache, de_dns = map_cache,
      de_decode = (\<lambda>b. Inr (Unfragmented 7 (SocketV4 \<lparr>v4_ip = Ipv4 1 2 3 4, v4_port = 53\<rparr>) b)),
      de_resolver = \<lparr>res_init = Inr (), res_lookup = (\<lambda>_ _. Inr [])\<rparr>, de_bind = (\<lambda>_ _. Inr ())\<rparr>"


end
