(* ===== verification/Server_Connections.thy ===== *)
theory Server_Connections
  imports Server_Auth Server_Stream Server_Datagram Services
begin

text \<open>
  The server with all its connections: the acceptor, and for every authenticated connection the two tunnels that
  \<open>run_tunnel_loops\<close> (\<open>crates/ombrac-server/src/connection/mod.rs\<close>) starts, which count into the same metrics. The loop of the
  datagram tunnel (\<open>connection/datagram.rs\<close>) is completed here. On top of it stands what \<open>shutdown_with_drain\<close>
  (\<open>service.rs\<close>) sees.
\<close>

section \<open>One connection\<close>

record ('c, 'd) server_conn =
  sc_token :: bool
  sc_stream :: stream_tunnel
  sc_datagram :: "('c, 'd) datagram_tunnel"
  sc_datagram_returned :: "unit io_result option"
  sc_returned :: bool

definition server_conn_new :: "'c \<Rightarrow> 'd \<Rightarrow> counters \<Rightarrow> ('c, 'd) server_conn" where
  "server_conn_new cache dns m =
     \<lparr>sc_token = False, sc_stream = stream_tunnel_new m, sc_datagram = datagram_tunnel_new cache dns m,
      sc_datagram_returned = None, sc_returned = False\<rparr>"

text \<open>
  The loop of the stream tunnel looks at the token first, so it accepts nothing once that is cancelled; and a handler finds its
  token cancelled only then.
\<close>

definition stream_event_allowed :: "bool \<Rightarrow> tunnel_event \<Rightarrow> bool" where
  "stream_event_allowed token e =
     (case e of
        TunnelShutdown \<Rightarrow> token
      | AcceptStream _ \<Rightarrow> \<not> token
      | HandlerDone _ inp \<Rightarrow> si_shutdown inp \<longrightarrow> token
      | _ \<Rightarrow> True)"

text \<open>
  One turn of \<open>DatagramTunnel::accept_loop\<close>, with what \<open>read_datagram\<close> gave, or \<open>None\<close> for the token. The two branches are not
  ordered.
\<close>

definition datagram_accept_loop ::
    "('c, 'd) datagram_env \<Rightarrow> bytes io_result option \<Rightarrow> ('c, 'd) server_conn \<Rightarrow> ('c, 'd) server_conn option" where
  "datagram_accept_loop env result c =
     (if sc_datagram_returned c \<noteq> None then None
      else case result of
        None \<Rightarrow> if sc_token c then Some (c\<lparr>sc_datagram_returned := Some (Inr ())\<rparr>) else None
      | Some (Inr packet_bytes) \<Rightarrow>
          map_option (\<lambda>t. c\<lparr>sc_datagram := t\<rparr>) (datagram_step env (Upstream packet_bytes) (sc_datagram c))
      | Some (Inl e) \<Rightarrow>
          if err_kind e = KTimedOut then Some c else Some (c\<lparr>sc_datagram_returned := Some (Inl e)\<rparr>))"

text \<open>\<open>run_tunnel_loops\<close> returns with the first of the two loops, and cancels the token.\<close>

definition run_tunnel_loops :: "('c, 'd) server_conn \<Rightarrow> ('c, 'd) server_conn option" where
  "run_tunnel_loops c =
     (if \<not> sc_returned c \<and> (st_returned (sc_stream c) \<noteq> None \<or> sc_datagram_returned c \<noteq> None)
      then Some (c\<lparr>sc_token := True, sc_returned := True\<rparr>) else None)"

datatype conn_event =
    StreamEv tunnel_event
  | DatagramRead "bytes io_result option"
  | DatagramTask datagram_event
  | LoopsReturn

text \<open>A step of a connection on the shared counters. \<open>DatagramTask\<close> is a step of a task that the datagram tunnel has spawned.\<close>

definition server_conn_step ::
    "('c, 'd) datagram_env \<Rightarrow> conn_event \<Rightarrow> counters \<Rightarrow> ('c, 'd) server_conn \<Rightarrow> (counters \<times> ('c, 'd) server_conn) option" where
  "server_conn_step env e m c =
     (case e of
        StreamEv te \<Rightarrow>
          if stream_event_allowed (sc_token c) te
          then map_option (\<lambda>st. (st_metrics st, c\<lparr>sc_stream := st\<rparr>)) (tunnel_step te ((sc_stream c)\<lparr>st_metrics := m\<rparr>))
          else None
      | DatagramRead r \<Rightarrow>
          map_option (\<lambda>c'. (dt_metrics (sc_datagram c'), c'))
            (datagram_accept_loop env r (c\<lparr>sc_datagram := (sc_datagram c)\<lparr>dt_metrics := m\<rparr>\<rparr>))
      | DatagramTask de \<Rightarrow>
          (case de of
             Upstream _ \<Rightarrow> None
           | _ \<Rightarrow> map_option (\<lambda>t. (dt_metrics t, c\<lparr>sc_datagram := t\<rparr>)) (datagram_step env de ((sc_datagram c)\<lparr>dt_metrics := m\<rparr>)))
      | LoopsReturn \<Rightarrow> map_option (\<lambda>c'. (m, c')) (run_tunnel_loops c))"

section \<open>The server\<close>

text \<open>Connections are numbered as they arrive; \<open>sv_conns\<close> has those that were authenticated, and keeps them for their tasks.\<close>

record ('c, 'd) server =
  sv_acceptor :: acceptor
  sv_next :: nat
  sv_conns :: "nat \<Rightarrow> ('c, 'd) server_conn option"

record ('c, 'd) server_env =
  se_secret :: secret
  se_timeout_secs :: nat
  se_datagram :: "('c, 'd) datagram_env"
  se_cache :: 'c
  se_dns :: 'd

definition server_new :: "nat \<Rightarrow> ('c, 'd) server" where
  "server_new n = \<lparr>sv_acceptor = acceptor_with_config n, sv_next = 0, sv_conns = Map.empty\<rparr>"

abbreviation sv_metrics :: "('c, 'd) server \<Rightarrow> counters" where
  "sv_metrics s \<equiv> acc_metrics (sv_acceptor s)"

datatype server_event =
    ServerShutdown
  | Arrive "unit io_result"
  | Handshake nat auth_input
  | ConnEv nat conn_event

text \<open>\<open>process_connection\<close> as far as the tunnels: a failed handshake ends it.\<close>

definition process_handshake :: "('c, 'd) server_env \<Rightarrow> nat \<Rightarrow> auth_input \<Rightarrow> ('c, 'd) server \<Rightarrow> ('c, 'd) server option" where
  "process_handshake env i inp s =
     (if i \<notin> set (running (sv_acceptor s)) \<or> sv_conns s i \<noteq> None then None
      else case fst (handle_client (secret_verify (se_secret env)) inp (se_timeout_secs env)) of
        Inl err \<Rightarrow> map_option (\<lambda>a. s\<lparr>sv_acceptor := a\<rparr>) (accept_loop (Finished i (Inl err)) (sv_acceptor s))
      | Inr _ \<Rightarrow> Some (s\<lparr>sv_conns := (sv_conns s)(i \<mapsto> server_conn_new (se_cache env) (se_dns env) (sv_metrics s))\<rparr>))"

text \<open>When \<open>run_tunnel_loops\<close> has returned, \<open>handle\<close> has as well, and the permit is released.\<close>

definition release_if_returned :: "nat \<Rightarrow> conn_event \<Rightarrow> acceptor \<Rightarrow> acceptor option" where
  "release_if_returned i e a = (if e = LoopsReturn then accept_loop (Finished i (Inr ())) a else Some a)"

definition connection_event :: "('c, 'd) server_env \<Rightarrow> nat \<Rightarrow> conn_event \<Rightarrow> ('c, 'd) server \<Rightarrow> ('c, 'd) server option" where
  "connection_event env i e s =
     (case sv_conns s i of
        None \<Rightarrow> None
      | Some c \<Rightarrow>
          (case server_conn_step (se_datagram env) e (sv_metrics s) c of
             None \<Rightarrow> None
           | Some (m, c') \<Rightarrow>
               map_option (\<lambda>a. s\<lparr>sv_acceptor := a, sv_conns := (sv_conns s)(i \<mapsto> c')\<rparr>)
                 (release_if_returned i e ((sv_acceptor s)\<lparr>acc_metrics := m\<rparr>))))"

definition server_step :: "('c, 'd) server_env \<Rightarrow> server_event \<Rightarrow> ('c, 'd) server \<Rightarrow> ('c, 'd) server option" where
  "server_step env e s =
     (case e of
        ServerShutdown \<Rightarrow> map_option (\<lambda>a. s\<lparr>sv_acceptor := a\<rparr>) (accept_loop ShutdownSignal (sv_acceptor s))
      | Arrive (Inl err) \<Rightarrow> map_option (\<lambda>a. s\<lparr>sv_acceptor := a\<rparr>) (accept_loop (Incoming (Inl err)) (sv_acceptor s))
      | Arrive (Inr _) \<Rightarrow>
          map_option (\<lambda>a. s\<lparr>sv_acceptor := a, sv_next := Suc (sv_next s)\<rparr>) (accept_loop (Incoming (Inr (sv_next s))) (sv_acceptor s))
      | Handshake i inp \<Rightarrow> process_handshake env i inp s
      | ConnEv i ce \<Rightarrow> connection_event env i ce s)"

section \<open>Counting\<close>

text \<open>How many streams an event opens and closes, and how many a connection is handling.\<close>

definition opens :: "server_event \<Rightarrow> nat" where
  "opens e = (case e of ConnEv _ (StreamEv (PermitAcquired _)) \<Rightarrow> 1 | _ \<Rightarrow> 0)"

definition closes :: "server_event \<Rightarrow> nat" where
  "closes e = (case e of ConnEv _ (StreamEv (HandlerDone _ _)) \<Rightarrow> 1 | _ \<Rightarrow> 0)"

definition active_in :: "('c, 'd) server_conn option \<Rightarrow> nat" where
  "active_in c = (case c of None \<Rightarrow> 0 | Some c' \<Rightarrow> length (st_active (sc_stream c')))"

definition total_active :: "('c, 'd) server \<Rightarrow> nat" where
  "total_active s = (\<Sum>i < sv_next s. active_in (sv_conns s i))"

lemma tunnel_step_counts:
  assumes "tunnel_step te st = Some st'"
  shows "streams_opened (st_metrics st') = streams_opened (st_metrics st) + of_nat (opens (ConnEv i (StreamEv te)))"
    and "streams_closed (st_metrics st') = streams_closed (st_metrics st) + of_nat (closes (ConnEv i (StreamEv te)))"
    and "length (st_active st') + closes (ConnEv i (StreamEv te)) = length (st_active st) + opens (ConnEv i (StreamEv te))"
proof -
  have "streams_opened (st_metrics st') = streams_opened (st_metrics st) + of_nat (opens (ConnEv i (StreamEv te))) \<and>
    streams_closed (st_metrics st') = streams_closed (st_metrics st) + of_nat (closes (ConnEv i (StreamEv te))) \<and>
    length (st_active st') + closes (ConnEv i (StreamEv te)) = length (st_active st) + opens (ConnEv i (StreamEv te))"
  proof (cases te)
    case (HandlerDone j inp)
    obtain result guard effs where h: "handle_stream_connect inp stream_guard_default = (result, guard, effs)"
      by (metis prod_cases3)
    from HandlerDone assms h have j: "j \<in> set (st_active st)"
      and st': "st_metrics st' = snd (stream_finished result guard (st_metrics st))" "st_active st' = remove1 j (st_active st)"
      by (auto simp: tunnel_step_def Let_def split_def split: if_splits)
    from stream_finished_closed [of result guard "st_metrics st"] Suc_length_remove1 [OF j] show ?thesis
      using HandlerDone by (simp add: st' opens_def closes_def del: length_remove1)
  qed (use assms in \<open>auto simp: tunnel_step_def stream_opened_def opens_def closes_def split: if_splits sum.splits\<close>)
  then show "streams_opened (st_metrics st') = streams_opened (st_metrics st) + of_nat (opens (ConnEv i (StreamEv te)))"
    and "streams_closed (st_metrics st') = streams_closed (st_metrics st) + of_nat (closes (ConnEv i (StreamEv te)))"
    and "length (st_active st') + closes (ConnEv i (StreamEv te)) = length (st_active st) + opens (ConnEv i (StreamEv te))"
    by blast+
qed

text \<open>The datagram tunnel does not touch the counters of streams and of arrived connections.\<close>

abbreviation arrivals :: "counters \<Rightarrow> u64" where
  "arrivals m \<equiv> connections_accepted m + connections_rejected m"

lemma get_or_create_session_streams:
  "get_or_create_session env sid a t = (r, t') \<Longrightarrow>
   streams_opened (dt_metrics t') = streams_opened (dt_metrics t) \<and> streams_closed (dt_metrics t') = streams_closed (dt_metrics t) \<and>
   arrivals (dt_metrics t') = arrivals (dt_metrics t)"
  by (auto simp: get_or_create_session_def Let_def split: option.splits prod.splits sum.splits)

lemma datagram_step_streams:
  assumes "datagram_step env e t = Some t'"
  shows "streams_opened (dt_metrics t') = streams_opened (dt_metrics t) \<and> streams_closed (dt_metrics t') = streams_closed (dt_metrics t) \<and>
   arrivals (dt_metrics t') = arrivals (dt_metrics t)"
proof (cases e)
  case (Upstream b)
  then obtain r where "handle_upstream_packet env b t = Some (r, t')" using assms by (auto simp: datagram_step_def)
  then show ?thesis
    by (auto simp: handle_upstream_packet_def Let_def dest: get_or_create_session_streams
        split: sum.splits prod.splits option.splits if_splits)
next
  case (RunPending i)
  with assms show ?thesis
    by (auto simp: datagram_step_def run_pending_def Let_def split: if_splits prod.splits sum.splits)
next
  case (Evict sid)
  with assms show ?thesis by (auto simp: datagram_step_def evict_session_def Let_def split: option.splits)
next
  case (Downstream r a b ok)
  with assms show ?thesis by (auto simp: datagram_step_def downstream_recv_def Let_def split: if_splits)
qed

lemma datagram_accept_loop_streams:
  assumes "datagram_accept_loop env r c = Some c'"
  shows "streams_opened (dt_metrics (sc_datagram c')) = streams_opened (dt_metrics (sc_datagram c)) \<and>
    streams_closed (dt_metrics (sc_datagram c')) = streams_closed (dt_metrics (sc_datagram c)) \<and>
    arrivals (dt_metrics (sc_datagram c')) = arrivals (dt_metrics (sc_datagram c)) \<and> sc_stream c' = sc_stream c \<and>
    sc_token c' = sc_token c \<and> sc_returned c' = sc_returned c"
  using assms
  by (auto simp: datagram_accept_loop_def dest: datagram_step_streams split: if_splits option.splits sum.splits)

lemma server_conn_step_counts:
  assumes "server_conn_step env e m c = Some (m', c')"
  shows "streams_opened m' = streams_opened m + of_nat (opens (ConnEv i e))"
    and "streams_closed m' = streams_closed m + of_nat (closes (ConnEv i e))"
    and "active_in (Some c') + closes (ConnEv i e) = active_in (Some c) + opens (ConnEv i e)"
proof -
  have "streams_opened m' = streams_opened m + of_nat (opens (ConnEv i e)) \<and>
    streams_closed m' = streams_closed m + of_nat (closes (ConnEv i e)) \<and>
    active_in (Some c') + closes (ConnEv i e) = active_in (Some c) + opens (ConnEv i e)"
  proof (cases e)
    case (StreamEv te)
    with assms obtain st where "tunnel_step te ((sc_stream c)\<lparr>st_metrics := m\<rparr>) = Some st" "m' = st_metrics st" "c' = c\<lparr>sc_stream := st\<rparr>"
      by (auto simp: server_conn_step_def split: if_splits)
    with tunnel_step_counts [OF this(1), of i] StreamEv show ?thesis by (simp add: active_in_def)
  next
    case (DatagramRead r)
    with assms obtain c1 where "datagram_accept_loop env r (c\<lparr>sc_datagram := (sc_datagram c)\<lparr>dt_metrics := m\<rparr>\<rparr>) = Some c1"
      "m' = dt_metrics (sc_datagram c1)" "c' = c1"
      by (auto simp: server_conn_step_def)
    with datagram_accept_loop_streams [OF this(1)] DatagramRead show ?thesis by (simp add: active_in_def opens_def closes_def)
  next
    case (DatagramTask de)
    with assms obtain t where "datagram_step env de ((sc_datagram c)\<lparr>dt_metrics := m\<rparr>) = Some t" "m' = dt_metrics t" "c' = c\<lparr>sc_datagram := t\<rparr>"
      by (auto simp: server_conn_step_def split: datagram_event.splits)
    with datagram_step_streams [OF this(1)] DatagramTask show ?thesis by (simp add: active_in_def opens_def closes_def)
  next
    case LoopsReturn
    with assms show ?thesis
      by (auto simp: server_conn_step_def run_tunnel_loops_def active_in_def opens_def closes_def split: if_splits)
  qed
  then show "streams_opened m' = streams_opened m + of_nat (opens (ConnEv i e))"
    and "streams_closed m' = streams_closed m + of_nat (closes (ConnEv i e))"
    and "active_in (Some c') + closes (ConnEv i e) = active_in (Some c) + opens (ConnEv i e)"
    by blast+
qed

section \<open>The whole server\<close>

definition server_inv :: "nat \<Rightarrow> ('c, 'd) server \<Rightarrow> bool" where
  "server_inv n s \<longleftrightarrow>
     acceptor_inv n (sv_acceptor s) \<and> set (running (sv_acceptor s)) \<subseteq> {..<sv_next s} \<and>
     (\<forall>i c. sv_conns s i = Some c \<longrightarrow>
        i < sv_next s \<and> st_permits (sc_stream c) + length (st_active (sc_stream c)) = 4096 \<and> (sc_returned c \<longrightarrow> sc_token c))"

lemma server_invD:
  assumes "server_inv n s"
  shows "permits (sv_acceptor s) + length (running (sv_acceptor s)) = n"
    and "i \<in> set (running (sv_acceptor s)) \<Longrightarrow> i < sv_next s"
    and "sv_conns s i = Some c \<Longrightarrow> i < sv_next s"
    and "sv_conns s i = Some c \<Longrightarrow> st_permits (sc_stream c) + length (st_active (sc_stream c)) = 4096"
    and "sv_conns s i = Some c \<Longrightarrow> sc_returned c \<Longrightarrow> sc_token c"
  using assms by (auto simp: server_inv_def acceptor_inv_def)

lemma server_new_inv: "server_inv n (server_new n)"
  by (simp add: server_inv_def server_new_def acceptor_inv_def acceptor_with_config_def)

lemma sum_upd:
  fixes f :: "'b option \<Rightarrow> nat" and n :: nat
  assumes "i < n"
  shows "(\<Sum>j < n. f ((g(i \<mapsto> x)) j)) + f (g i) = (\<Sum>j < n. f (g j)) + f (Some x)"
proof -
  have "(\<Sum>j < n. f ((g(i \<mapsto> x)) j)) = f (Some x) + (\<Sum>j \<in> {..<n} - {i}. f (g j))"
    using assms by (subst sum.remove [of _ i]) auto
  moreover have "(\<Sum>j < n. f (g j)) = f (g i) + (\<Sum>j \<in> {..<n} - {i}. f (g j))"
    using assms by (subst sum.remove [of _ i]) auto
  ultimately show ?thesis by simp
qed

text \<open>What an event of the acceptor leaves alone.\<close>

lemma accept_loop_frame:
  assumes "accept_loop e a = Some a'"
  shows "streams_opened (acc_metrics a') = streams_opened (acc_metrics a)" and "streams_closed (acc_metrics a') = streams_closed (acc_metrics a)"
    and "set (running a') \<subseteq> set (running a) \<union> (case e of Incoming (Inr i) \<Rightarrow> {i} | _ \<Rightarrow> {})"
  using assms
  by (auto simp: accept_loop_def handle_incoming_connection_def process_connection_end_def Let_def
      split: acceptor_event.splits if_splits sum.splits dest: subsetD [OF set_remove1_subset])

lemma server_conn_step_inv:
  assumes "server_conn_step env e m c = Some (m', c')" and "st_permits (sc_stream c) + length (st_active (sc_stream c)) = 4096"
    and "sc_returned c \<longrightarrow> sc_token c"
  shows "st_permits (sc_stream c') + length (st_active (sc_stream c')) = 4096 \<and> (sc_returned c' \<longrightarrow> sc_token c')"
proof (cases e)
  case (StreamEv te)
  with assms(1) obtain st where st: "tunnel_step te ((sc_stream c)\<lparr>st_metrics := m\<rparr>) = Some st" "c' = c\<lparr>sc_stream := st\<rparr>"
    by (auto simp: server_conn_step_def split: if_splits)
  define d where "d = streams_opened m - streams_closed m - word_of_nat (length (st_active (sc_stream c)))"
  have "tunnel_inv d ((sc_stream c)\<lparr>st_metrics := m\<rparr>)" using assms(2) by (simp add: tunnel_inv_def d_def)
  from tunnel.step_inv [OF this st(1)] assms(3) show ?thesis by (simp add: tunnel_inv_def st(2))
next
  case (DatagramRead r)
  with assms(1) have "datagram_accept_loop env r (c\<lparr>sc_datagram := (sc_datagram c)\<lparr>dt_metrics := m\<rparr>\<rparr>) = Some c'"
    by (auto simp: server_conn_step_def)
  from datagram_accept_loop_streams [OF this] assms(2,3) show ?thesis by simp
next
  case (DatagramTask de)
  with assms show ?thesis by (auto simp: server_conn_step_def split: datagram_event.splits)
next
  case LoopsReturn
  with assms show ?thesis by (auto simp: server_conn_step_def run_tunnel_loops_def split: if_splits)
qed

lemma connection_event_cases:
  assumes "connection_event env i e s = Some s'"
  obtains c m c' a where "sv_conns s i = Some c" and "server_conn_step (se_datagram env) e (sv_metrics s) c = Some (m, c')"
    and "release_if_returned i e ((sv_acceptor s)\<lparr>acc_metrics := m\<rparr>) = Some a"
    and "s' = s\<lparr>sv_acceptor := a, sv_conns := (sv_conns s)(i \<mapsto> c')\<rparr>"
  using assms by (auto simp: connection_event_def split: option.splits prod.splits)

lemma release_if_returned_frame:
  assumes "release_if_returned i e a = Some a'"
  shows "streams_opened (acc_metrics a') = streams_opened (acc_metrics a)" and "streams_closed (acc_metrics a') = streams_closed (acc_metrics a)"
    and "set (running a') \<subseteq> set (running a)" and "acceptor_inv n a \<Longrightarrow> acceptor_inv n a'"
  using assms accept_loop_frame [of "Finished i (Inr ())" a a'] acceptor.step_inv [of n a "Finished i (Inr ())" a']
  by (auto simp: release_if_returned_def split: if_splits)

lemma server_step_inv:
  assumes inv: "server_inv n s" and st: "server_step env e s = Some s'"
  shows "server_inv n s'"
proof -
  have acc: "acceptor_inv n a" if "accept_loop ae (sv_acceptor s) = Some a" for ae a
    using acceptor.step_inv [OF _ that] inv by (simp add: server_inv_def)
  show ?thesis
  proof (cases e)
    case ServerShutdown
    with st obtain a where a: "accept_loop ShutdownSignal (sv_acceptor s) = Some a" "s' = s\<lparr>sv_acceptor := a\<rparr>"
      by (auto simp: server_step_def)
    from acc [OF a(1)] accept_loop_frame(3) [OF a(1)] inv show ?thesis by (auto simp: server_inv_def a(2))
  next
    case (Arrive r)
    show ?thesis
    proof (cases r)
      case (Inl err)
      with st Arrive obtain a where a: "accept_loop (Incoming (Inl err)) (sv_acceptor s) = Some a" "s' = s\<lparr>sv_acceptor := a\<rparr>"
        by (auto simp: server_step_def)
      from acc [OF a(1)] accept_loop_frame(3) [OF a(1)] inv show ?thesis by (auto simp: server_inv_def a(2))
    next
      case (Inr u)
      with st Arrive obtain a where a: "accept_loop (Incoming (Inr (sv_next s))) (sv_acceptor s) = Some a"
        "s' = s\<lparr>sv_acceptor := a, sv_next := Suc (sv_next s)\<rparr>"
        by (auto simp: server_step_def)
      from acc [OF a(1)] accept_loop_frame(3) [OF a(1)] inv show ?thesis
        by (fastforce simp: server_inv_def a(2))
    qed
  next
    case (Handshake i inp)
    then have h: "i \<in> set (running (sv_acceptor s))" "process_handshake env i inp s = Some s'"
      using st by (auto simp: server_step_def process_handshake_def split: if_splits)
    show ?thesis
    proof (cases "fst (handle_client (secret_verify (se_secret env)) inp (se_timeout_secs env))")
      case (Inl err)
      with h obtain a where a: "accept_loop (Finished i (Inl err)) (sv_acceptor s) = Some a" "s' = s\<lparr>sv_acceptor := a\<rparr>"
        by (auto simp: process_handshake_def split: if_splits)
      from acc [OF a(1)] accept_loop_frame(3) [OF a(1)] inv show ?thesis by (auto simp: server_inv_def a(2))
    next
      case (Inr u)
      with h have "s' = s\<lparr>sv_conns := (sv_conns s)(i \<mapsto> server_conn_new (se_cache env) (se_dns env) (sv_metrics s))\<rparr>"
        by (auto simp: process_handshake_def split: if_splits)
      with inv h(1) show ?thesis
        by (auto simp: server_inv_def server_conn_new_def stream_tunnel_new_def MAX_CONCURRENT_CONNECTIONS_def)
    qed
  next
    case (ConnEv i ce)
    with st have "connection_event env i ce s = Some s'" by (simp add: server_step_def)
    then obtain c m c' a where c: "sv_conns s i = Some c" "server_conn_step (se_datagram env) ce (sv_metrics s) c = Some (m, c')"
      "release_if_returned i ce ((sv_acceptor s)\<lparr>acc_metrics := m\<rparr>) = Some a"
      and s': "s' = s\<lparr>sv_acceptor := a, sv_conns := (sv_conns s)(i \<mapsto> c')\<rparr>"
      by (rule connection_event_cases)
    have "acceptor_inv n ((sv_acceptor s)\<lparr>acc_metrics := m\<rparr>)" using inv by (simp add: server_inv_def acceptor_inv_def)
    moreover have "sc_returned c \<longrightarrow> sc_token c" using server_invD(5) [OF inv c(1)] by blast
    ultimately show ?thesis
      using release_if_returned_frame(3,4) [OF c(3)] inv server_conn_step_inv [OF c(2) server_invD(4) [OF inv c(1)]] server_invD(3) [OF inv c(1)]
      by (auto simp: server_inv_def s')
  qed
qed

interpretation server_machine: invariant_machine "server_step env" "server_inv n" for env n
  by unfold_locales (rule server_step_inv)

lemma server_step_counts:
  assumes inv: "server_inv n s" and st: "server_step env e s = Some s'"
  shows "streams_opened (sv_metrics s') = streams_opened (sv_metrics s) + of_nat (opens e) \<and>
    streams_closed (sv_metrics s') = streams_closed (sv_metrics s) + of_nat (closes e) \<and>
    total_active s' + closes e = total_active s + opens e"
proof (cases e)
  case (ConnEv i ce)
  with st have "connection_event env i ce s = Some s'" by (simp add: server_step_def)
  then obtain c m c' a where c: "sv_conns s i = Some c" "server_conn_step (se_datagram env) ce (sv_metrics s) c = Some (m, c')"
    "release_if_returned i ce ((sv_acceptor s)\<lparr>acc_metrics := m\<rparr>) = Some a"
    and s': "s' = s\<lparr>sv_acceptor := a, sv_conns := (sv_conns s)(i \<mapsto> c')\<rparr>"
    by (rule connection_event_cases)
  have "total_active s' + active_in (Some c) = total_active s + active_in (Some c')"
    using sum_upd [OF server_invD(3) [OF inv c(1)], of active_in "sv_conns s" c'] by (simp add: total_active_def s' c(1))
  with server_conn_step_counts [OF c(2), of i] release_if_returned_frame(1,2) [OF c(3)] ConnEv show ?thesis by (simp add: s')
next
  case (Handshake i inp)
  then have h: "i \<in> set (running (sv_acceptor s))" "sv_conns s i = None" "process_handshake env i inp s = Some s'"
    using st by (auto simp: server_step_def process_handshake_def split: if_splits)
  show ?thesis
  proof (cases "fst (handle_client (secret_verify (se_secret env)) inp (se_timeout_secs env))")
    case (Inl err)
    with h obtain a where a: "accept_loop (Finished i (Inl err)) (sv_acceptor s) = Some a" "s' = s\<lparr>sv_acceptor := a\<rparr>"
      by (auto simp: process_handshake_def split: if_splits)
    with accept_loop_frame [OF a(1)] Handshake show ?thesis by (simp add: opens_def closes_def total_active_def)
  next
    case (Inr u)
    define c where "c = server_conn_new (se_cache env) (se_dns env) (sv_metrics s)"
    have s': "s' = s\<lparr>sv_conns := (sv_conns s)(i \<mapsto> c)\<rparr>"
      using h Inr by (auto simp: process_handshake_def c_def split: if_splits)
    have "active_in (Some c) = 0" by (simp add: c_def active_in_def server_conn_new_def stream_tunnel_new_def)
    then have "total_active s' = total_active s"
      using sum_upd [OF server_invD(2) [OF inv h(1)], of active_in "sv_conns s" c] h(2)
      by (simp add: total_active_def s') (simp add: active_in_def)
    with Handshake show ?thesis by (simp add: opens_def closes_def s')
  qed
next
  case (Arrive r)
  have "sv_conns s (sv_next s) = None" using server_invD(3) [OF inv, of "sv_next s"] by (cases "sv_conns s (sv_next s)") auto
  with Arrive st accept_loop_frame [of _ "sv_acceptor s"] show ?thesis
    by (cases r) (auto simp: server_step_def opens_def closes_def total_active_def active_in_def)
next
  case ServerShutdown
  with st accept_loop_frame [of _ "sv_acceptor s"] show ?thesis
    by (auto simp: server_step_def opens_def closes_def total_active_def)
qed

text \<open>Every connection that arrives is counted, and nothing else is counted as one.\<close>

lemma tunnel_step_arrivals:
  "tunnel_step te st = Some st' \<Longrightarrow> arrivals (st_metrics st') = arrivals (st_metrics st)"
  by (auto simp: tunnel_step_def stream_opened_def stream_finished_def Let_def
      split: tunnel_event.splits if_splits sum.splits prod.splits option.splits)

lemma server_conn_step_arrivals:
  assumes "server_conn_step env e m c = Some (m', c')"
  shows "arrivals m' = arrivals m"
proof (cases e)
  case (StreamEv te)
  with assms obtain st where "tunnel_step te ((sc_stream c)\<lparr>st_metrics := m\<rparr>) = Some st" "m' = st_metrics st"
    by (auto simp: server_conn_step_def split: if_splits)
  with tunnel_step_arrivals [OF this(1)] show ?thesis by simp
next
  case (DatagramRead r)
  with assms obtain c1 where "datagram_accept_loop env r (c\<lparr>sc_datagram := (sc_datagram c)\<lparr>dt_metrics := m\<rparr>\<rparr>) = Some c1"
    "m' = dt_metrics (sc_datagram c1)"
    by (auto simp: server_conn_step_def)
  with datagram_accept_loop_streams [OF this(1)] show ?thesis by simp
next
  case (DatagramTask de)
  with assms obtain t where "datagram_step env de ((sc_datagram c)\<lparr>dt_metrics := m\<rparr>) = Some t" "m' = dt_metrics t"
    by (auto simp: server_conn_step_def split: datagram_event.splits)
  with datagram_step_streams [OF this(1)] show ?thesis by simp
next
  case LoopsReturn
  with assms show ?thesis by (auto simp: server_conn_step_def)
qed

lemma accept_loop_arrivals:
  "accept_loop e a = Some a' \<Longrightarrow>
   arrivals (acc_metrics a') = arrivals (acc_metrics a) + (case e of Incoming (Inr _) \<Rightarrow> 1 | _ \<Rightarrow> 0)"
  by (auto simp: accept_loop_def handle_incoming_connection_def process_connection_end_def Let_def
      split: acceptor_event.splits if_splits sum.splits)

lemma server_step_arrivals:
  assumes "server_step env e s = Some s'"
  shows "sv_next s' = sv_next s + (if e = Arrive (Inr ()) then 1 else 0)"
    and "arrivals (sv_metrics s') = arrivals (sv_metrics s) + (if e = Arrive (Inr ()) then 1 else 0)"
proof -
  have "sv_next s' = sv_next s + (if e = Arrive (Inr ()) then 1 else 0) \<and>
    arrivals (sv_metrics s') = arrivals (sv_metrics s) + (if e = Arrive (Inr ()) then 1 else 0)"
  proof (cases e)
    case (ConnEv i ce)
    with assms have "connection_event env i ce s = Some s'" by (simp add: server_step_def)
    then obtain c m c' a where c: "server_conn_step (se_datagram env) ce (sv_metrics s) c = Some (m, c')"
      "release_if_returned i ce ((sv_acceptor s)\<lparr>acc_metrics := m\<rparr>) = Some a"
      and s': "s' = s\<lparr>sv_acceptor := a, sv_conns := (sv_conns s)(i \<mapsto> c')\<rparr>"
      by (rule connection_event_cases)
    from c(2) accept_loop_arrivals [of "Finished i (Inr ())" _ a] have "arrivals (acc_metrics a) = arrivals m"
      by (auto simp: release_if_returned_def split: if_splits)
    with server_conn_step_arrivals [OF c(1)] ConnEv show ?thesis by (simp add: s')
  next
    case (Arrive r)
    with assms accept_loop_arrivals [of _ "sv_acceptor s"] show ?thesis
      by (cases r) (auto simp: server_step_def)
  qed (use assms accept_loop_arrivals [of _ "sv_acceptor s"] in
      \<open>auto simp: server_step_def process_handshake_def split: if_splits sum.splits\<close>)
  then show "sv_next s' = sv_next s + (if e = Arrive (Inr ()) then 1 else 0)"
    and "arrivals (sv_metrics s') = arrivals (sv_metrics s) + (if e = Arrive (Inr ()) then 1 else 0)" by blast+
qed

lemma server_new_counts [simp]: "total_active (server_new n) = 0" "sv_metrics (server_new n) = metrics_new"
  by (simp_all add: total_active_def server_new_def acceptor_with_config_def)

abbreviation count_of :: "(server_event \<Rightarrow> nat) \<Rightarrow> server_event list \<Rightarrow> nat" where
  "count_of f es \<equiv> sum_list (map f es)"

lemma server_run_counts:
  "server_inv n s \<Longrightarrow> run_steps (server_step env) es s = Some s' \<Longrightarrow>
   streams_opened (sv_metrics s') = streams_opened (sv_metrics s) + of_nat (count_of opens es) \<and>
   streams_closed (sv_metrics s') = streams_closed (sv_metrics s) + of_nat (count_of closes es) \<and>
   total_active s' + count_of closes es = total_active s + count_of opens es"
proof (induction es arbitrary: s)
  case (Cons e es)
  then obtain s1 where s1: "server_step env e s = Some s1" "run_steps (server_step env) es s1 = Some s'"
    by (auto split: option.splits)
  with Cons.IH [OF server_step_inv [OF Cons.prems(1) s1(1)] s1(2)] server_step_counts [OF Cons.prems(1) s1(1)] show ?case
    by simp
qed simp

lemma count_opens_le: "count_of opens es \<le> length es"
  by (induction es) (auto simp: opens_def split: server_event.split conn_event.split tunnel_event.split)

lemma total_active_0_iff: "server_inv n s \<Longrightarrow> total_active s = 0 \<longleftrightarrow> (\<forall>i c. sv_conns s i = Some c \<longrightarrow> st_active (sc_stream c) = [])"
  by (auto simp: total_active_def active_in_def split: option.split dest: server_invD(3))

text \<open>
  C7. The counters of the server tell how many streams it handles: over all connections and under every interleaving of their
  tunnels, the streams opened minus the streams closed are the streams being handled, in each connection at most 4096, and a
  snapshot taken while nothing moves shows none exactly when there is none. At most \<open>n\<close> connections are processed at a time.
  When the loops of a connection have returned, its token is cancelled and it accepts no stream any more.
\<close>

theorem server_counts_streams:
  assumes "run_steps (server_step env) es (server_new n) = Some s" and "length es < 2 ^ 64"
  shows "streams_opened (sv_metrics s) - streams_closed (sv_metrics s) = of_nat (total_active s) \<and>
    unat (active_streams (snapshot (sv_metrics s))) = total_active s \<and>
    (active_streams (snapshot (sv_metrics s)) = 0 \<longleftrightarrow> (\<forall>i c. sv_conns s i = Some c \<longrightarrow> st_active (sc_stream c) = [])) \<and>
    length (running (sv_acceptor s)) \<le> n \<and>
    (\<forall>i c. sv_conns s i = Some c \<longrightarrow> length (st_active (sc_stream c)) \<le> 4096 \<and>
       (sc_returned c \<longrightarrow> sc_token c \<and> (\<forall>r. server_conn_step (se_datagram env) (StreamEv (AcceptStream r)) (sv_metrics s) c = None)))"
proof -
  have inv: "server_inv n s" using server_machine.run_inv [OF server_new_inv assms(1)] .
  let ?o = "count_of opens es" and ?c = "count_of closes es"
  from server_run_counts [OF server_new_inv assms(1)]
  have o: "streams_opened (sv_metrics s) = of_nat ?o" and c: "streams_closed (sv_metrics s) = of_nat ?c"
    and t: "total_active s + ?c = ?o" by simp_all
  have "?o < 2 ^ 64" using count_opens_le [of es] assms(2) by simp
  with t have u: "unat (streams_opened (sv_metrics s)) = ?o" "unat (streams_closed (sv_metrics s)) = ?c"
    unfolding o c by (simp_all add: unat_of_nat take_bit_nat_eq_self)
  have diff: "streams_opened (sv_metrics s) - streams_closed (sv_metrics s) = of_nat (total_active s)"
    unfolding o c t [symmetric] by simp
  have snap: "unat (active_streams (snapshot (sv_metrics s))) = total_active s"
    using u t by (simp add: active_streams_def snapshot_def snapshot_at_def word_le_nat_alt unat_sub)
  have zero: "active_streams (snapshot (sv_metrics s)) = 0 \<longleftrightarrow> (\<forall>i c. sv_conns s i = Some c \<longrightarrow> st_active (sc_stream c) = [])"
    using snap total_active_0_iff [OF inv] by (metis unat_eq_zero)
  have conns: "length (st_active (sc_stream c)) \<le> 4096 \<and>
      (sc_returned c \<longrightarrow> sc_token c \<and> (\<forall>r. server_conn_step (se_datagram env) (StreamEv (AcceptStream r)) (sv_metrics s) c = None))"
    if "sv_conns s i = Some c" for i c
    using server_invD(4,5) [OF inv that] by (auto simp: server_conn_step_def stream_event_allowed_def)
  have "length (running (sv_acceptor s)) \<le> n" using server_invD(1) [OF inv] by simp
  with diff snap zero conns show ?thesis by blast
qed

text \<open>A server with one connection on which a stream has been opened.\<close>

definition sample_server :: "('c, 'd) datagram_env \<Rightarrow> 'c \<Rightarrow> 'd \<Rightarrow> ('c, 'd) server_env" where
  "sample_server denv c d = \<lparr>se_secret = [2], se_timeout_secs = 10, se_datagram = denv, se_cache = c, se_dns = d\<rparr>"

definition one_stream :: "server_event list" where
  "one_stream =
     [Arrive (Inr ()), Handshake 0 (sample_input 1 [2]),
      ConnEv 0 (StreamEv (AcceptStream (Inr 1))), ConnEv 0 (StreamEv (AcceptStream (Inr 2))), ConnEv 0 (StreamEv (PermitAcquired 1))]"

lemma sample_handshake: "fst (handle_client (secret_verify [2]) (sample_input 1 [2]) 10) = Inr ()"
  by (simp add: handle_client_def perform_authentication_def read_hello_message_def verify_authentication_def secret_verify_def
      send_auth_ok_response_def sample_input_def PROTOCOL_VERSION_def)

lemma one_stream_run:
  "\<exists>s. run_steps (server_step (sample_server denv c d)) one_stream (server_new 1) = Some s \<and>
     sv_next s = 1 \<and> streams_opened (sv_metrics s) = 1 \<and> streams_closed (sv_metrics s) = 0 \<and> \<not> accept_ended (sv_acceptor s) \<and>
     (\<exists>k. sv_conns s 0 = Some k \<and> \<not> sc_token k \<and> st_active (sc_stream k) = [1] \<and> st_waiting (sc_stream k) = [2] \<and> st_permits (sc_stream k) = 4095)"
  by (simp add: one_stream_def server_step_def server_new_def accept_loop_def acceptor_with_config_def handle_incoming_connection_def
      process_handshake_def sample_handshake connection_event_def server_conn_step_def stream_event_allowed_def tunnel_step_def
      server_conn_new_def stream_tunnel_new_def release_if_returned_def stream_opened_def sample_server_def
      MAX_CONCURRENT_CONNECTIONS_def)

theorem server_counts_streams_witness:
  "\<exists>s. run_steps (server_step (sample_server sample_env Map.empty Map.empty)) one_stream (server_new 1) = Some s \<and>
     total_active s = 1 \<and> active_streams (snapshot (sv_metrics s)) \<noteq> 0"
proof -
  obtain s k where s: "run_steps (server_step (sample_server sample_env Map.empty Map.empty)) one_stream (server_new 1) = Some s" "sv_next s = 1"
    "sv_conns s 0 = Some k" "st_active (sc_stream k) = [1]"
    using one_stream_run [of sample_env Map.empty Map.empty] by blast
  have "length one_stream < 2 ^ 64" by (simp add: one_stream_def)
  moreover have "total_active s = 1" using s by (simp add: total_active_def active_in_def)
  ultimately show ?thesis using server_counts_streams [OF s(1)] s(1) by (metis one_neq_zero unat_0)
qed

section \<open>The end of a connection\<close>

text \<open>A connection whose loops run holds its place among those being processed.\<close>

definition running_inv :: "nat \<Rightarrow> ('c, 'd) server \<Rightarrow> bool" where
  "running_inv n s \<longleftrightarrow>
     server_inv n s \<and> distinct (running (sv_acceptor s)) \<and>
     (\<forall>i c. sv_conns s i = Some c \<longrightarrow> (sc_token c \<longleftrightarrow> sc_returned c) \<and> (\<not> sc_returned c \<longrightarrow> i \<in> set (running (sv_acceptor s))))"

lemma accept_loop_running:
  assumes "accept_loop e a = Some a'"
  shows "running a' = (case e of ShutdownSignal \<Rightarrow> running a
                       | Incoming r \<Rightarrow> (case r of Inl _ \<Rightarrow> running a | Inr i \<Rightarrow> if 0 < permits a then i # running a else running a)
                       | Finished i _ \<Rightarrow> remove1 i (running a))"
  using assms
  by (auto simp: accept_loop_def handle_incoming_connection_def process_connection_end_def Let_def
      split: acceptor_event.splits if_splits sum.splits)

lemma server_conn_step_token:
  assumes "server_conn_step env e m c = Some (m', c')" and "sc_token c \<longleftrightarrow> sc_returned c"
  shows "(sc_token c' \<longleftrightarrow> sc_returned c') \<and> (sc_returned c' \<longleftrightarrow> sc_returned c \<or> e = LoopsReturn)"
proof (cases e)
  case (DatagramRead r)
  with assms obtain c1 where "datagram_accept_loop env r (c\<lparr>sc_datagram := (sc_datagram c)\<lparr>dt_metrics := m\<rparr>\<rparr>) = Some c1" "c' = c1"
    by (auto simp: server_conn_step_def)
  with datagram_accept_loop_streams [OF this(1)] assms(2) DatagramRead show ?thesis by simp
qed (use assms in \<open>auto simp: server_conn_step_def run_tunnel_loops_def split: if_splits datagram_event.splits\<close>)

lemma running_inv_new: "running_inv n (server_new n)"
  using server_new_inv [of n] by (simp add: running_inv_def) (simp add: server_new_def acceptor_with_config_def)

lemma running_step_inv:
  assumes inv: "running_inv n s" and st: "server_step env e s = Some s'"
  shows "running_inv n s'"
proof -
  have base: "server_inv n s" and d: "distinct (running (sv_acceptor s))"
    and conns: "\<And>i c. sv_conns s i = Some c \<Longrightarrow> (sc_token c \<longleftrightarrow> sc_returned c) \<and> (\<not> sc_returned c \<longrightarrow> i \<in> set (running (sv_acceptor s)))"
    using inv by (auto simp: running_inv_def)
  have "distinct (running (sv_acceptor s')) \<and>
    (\<forall>i c. sv_conns s' i = Some c \<longrightarrow> (sc_token c \<longleftrightarrow> sc_returned c) \<and> (\<not> sc_returned c \<longrightarrow> i \<in> set (running (sv_acceptor s'))))"
  proof (cases e)
    case ServerShutdown
    with st d conns accept_loop_running [of ShutdownSignal "sv_acceptor s"] show ?thesis by (auto simp: server_step_def)
  next
    case (Arrive r)
    have "sv_next s \<notin> set (running (sv_acceptor s))" using server_invD(2) [OF base] by blast
    with Arrive st d conns accept_loop_running [of _ "sv_acceptor s"] show ?thesis by (cases r) (auto simp: server_step_def)
  next
    case (Handshake i inp)
    then have h: "i \<in> set (running (sv_acceptor s))" "sv_conns s i = None" "process_handshake env i inp s = Some s'"
      using st by (auto simp: server_step_def process_handshake_def split: if_splits)
    then show ?thesis
      using d conns accept_loop_running [of _ "sv_acceptor s"]
      by (auto simp: process_handshake_def server_conn_new_def split: if_splits sum.splits)
  next
    case (ConnEv i ce)
    with st have "connection_event env i ce s = Some s'" by (simp add: server_step_def)
    then obtain c m c' a where c: "sv_conns s i = Some c" "server_conn_step (se_datagram env) ce (sv_metrics s) c = Some (m, c')"
      "release_if_returned i ce ((sv_acceptor s)\<lparr>acc_metrics := m\<rparr>) = Some a"
      and s': "s' = s\<lparr>sv_acceptor := a, sv_conns := (sv_conns s)(i \<mapsto> c')\<rparr>"
      by (rule connection_event_cases)
    have a: "running a = (if ce = LoopsReturn then remove1 i (running (sv_acceptor s)) else running (sv_acceptor s))"
      using c(3) accept_loop_running [of "Finished i (Inr ())" "(sv_acceptor s)\<lparr>acc_metrics := m\<rparr>" a]
      by (auto simp: release_if_returned_def split: if_splits)
    with d conns server_conn_step_token [OF c(2)] c(1) show ?thesis by (auto simp: s' set_remove1_eq)
  qed
  with server_step_inv [OF base st] show ?thesis by (simp add: running_inv_def)
qed

interpretation running_machine: invariant_machine "server_step env" "running_inv n" for env n
  by unfold_locales (rule running_step_inv)

lemma loops_return_step:
  assumes inv: "running_inv n s" and c: "sv_conns s i = Some c" "\<not> sc_returned c"
    and r: "st_returned (sc_stream c) \<noteq> None \<or> sc_datagram_returned c \<noteq> None"
  shows "\<exists>t k. server_step env (ConnEv i LoopsReturn) s = Some t \<and> running (sv_acceptor t) = remove1 i (running (sv_acceptor s)) \<and>
    permits (sv_acceptor t) = permits (sv_acceptor s) + 1 \<and> sv_conns t i = Some k \<and> sc_token k \<and> sc_returned k"
proof -
  have "i \<in> set (running (sv_acceptor s))" using inv c by (auto simp: running_inv_def)
  with c r show ?thesis
    by (auto simp: server_step_def connection_event_def server_conn_step_def run_tunnel_loops_def release_if_returned_def accept_loop_def
        process_connection_end_def Let_def)
qed

text \<open>
  C11. A connection that has ended is released. Whatever error \<open>accept_bidirectional\<close> fails with, the loop of the streams returns
  and with it the processing of the connection, in at most two steps: its place is free for another one, exactly one permit
  is given back, and its token is cancelled for its other tasks. The loop of the datagrams alone does not see an end by
  timeout: it goes on in the same state.
\<close>

theorem dead_connection_released:
  assumes "run_steps (server_step env) es (server_new n) = Some s" and "sv_conns s i = Some c" and "\<not> sc_returned c"
  shows "(\<exists>fs t k. fs \<in> {[ConnEv i LoopsReturn], [ConnEv i (StreamEv (AcceptStream (Inl err))), ConnEv i LoopsReturn]} \<and>
      run_steps (server_step env) fs s = Some t \<and> i \<in> set (running (sv_acceptor s)) \<and> i \<notin> set (running (sv_acceptor t)) \<and>
      permits (sv_acceptor t) = permits (sv_acceptor s) + 1 \<and> sv_conns t i = Some k \<and> sc_token k) \<and>
    (\<forall>denv. err_kind err = KTimedOut \<longrightarrow> sc_datagram_returned c = None \<longrightarrow> datagram_accept_loop denv (Some (Inl err)) c = Some c)"
proof -
  let ?step = "server_step env"
  have inv: "running_inv n s" by (rule running_machine.run_inv [OF running_inv_new assms(1)])
  have mem: "i \<in> set (running (sv_acceptor s))" and d: "distinct (running (sv_acceptor s))" and tok: "\<not> sc_token c"
    using inv assms(2,3) by (auto simp: running_inv_def)
  have "\<exists>fs t k. fs \<in> {[ConnEv i LoopsReturn], [ConnEv i (StreamEv (AcceptStream (Inl err))), ConnEv i LoopsReturn]} \<and>
      run_steps ?step fs s = Some t \<and> i \<in> set (running (sv_acceptor s)) \<and> i \<notin> set (running (sv_acceptor t)) \<and>
      permits (sv_acceptor t) = permits (sv_acceptor s) + 1 \<and> sv_conns t i = Some k \<and> sc_token k"
  proof (cases "st_returned (sc_stream c) \<noteq> None")
    case True
    then obtain t k where t: "?step (ConnEv i LoopsReturn) s = Some t" "running (sv_acceptor t) = remove1 i (running (sv_acceptor s))"
      "permits (sv_acceptor t) = permits (sv_acceptor s) + 1" "sv_conns t i = Some k" "sc_token k"
      using loops_return_step [OF inv assms(2,3)] by blast
    with mem d show ?thesis by (intro exI [of _ "[ConnEv i LoopsReturn]"]) auto
  next
    case False
    then obtain u c' where u: "?step (ConnEv i (StreamEv (AcceptStream (Inl err)))) s = Some u" "sv_conns u i = Some c'"
      "\<not> sc_returned c'" "st_returned (sc_stream c') \<noteq> None" "permits (sv_acceptor u) = permits (sv_acceptor s)"
      "running (sv_acceptor u) = running (sv_acceptor s)"
      using assms(2,3) tok
      by (simp add: server_step_def connection_event_def server_conn_step_def stream_event_allowed_def tunnel_step_def release_if_returned_def)
    then obtain t k where t: "?step (ConnEv i LoopsReturn) u = Some t" "running (sv_acceptor t) = remove1 i (running (sv_acceptor s))"
      "permits (sv_acceptor t) = permits (sv_acceptor s) + 1" "sv_conns t i = Some k" "sc_token k"
      using loops_return_step [OF running_step_inv [OF inv u(1)] u(2,3), of env] by auto
    with mem d u(1) show ?thesis
      by (intro exI [of _ "[ConnEv i (StreamEv (AcceptStream (Inl err))), ConnEv i LoopsReturn]"]) auto
  qed
  then show ?thesis by (simp add: datagram_accept_loop_def)
qed

theorem dead_connection_released_witness:
  "\<exists>s t fs. run_steps (server_step (sample_server sample_env Map.empty Map.empty)) one_stream (server_new 1) = Some s \<and>
     run_steps (server_step (sample_server sample_env Map.empty Map.empty)) fs s = Some t \<and>
     0 \<in> set (running (sv_acceptor s)) \<and> 0 \<notin> set (running (sv_acceptor t))"
proof -
  obtain s k where s: "run_steps (server_step (sample_server sample_env Map.empty Map.empty)) one_stream (server_new 1) = Some s" "sv_conns s 0 = Some k"
    "\<not> sc_token k"
    using one_stream_run [of sample_env Map.empty Map.empty] by blast
  have "running_inv 1 s" by (rule running_machine.run_inv [OF running_inv_new s(1)])
  with s(2,3) have "\<not> sc_returned k" by (simp add: running_inv_def)
  from dead_connection_released [OF s(1,2) this, of "io_err KTimedOut []"] s(1) show ?thesis by blast
qed

section \<open>A snapshot while streams move\<close>

text \<open>
  Draining can miss a stream. The drain loop takes a snapshot whose counters are loaded one after the other: when a second
  stream is opened and closed between the load of the opened and that of the closed streams, which the connections go on
  doing after the shutdown signal, the two are equal, and \<open>shutdown_with_drain\<close> returns \<open>true\<close> at its first tick although
  the first stream was handled all the time.
\<close>

theorem drain_misses_stream:
  "\<exists>es fs s s' k k'. run_steps (server_step (sample_server denv c d)) es (server_new 1) = Some s \<and> ServerShutdown \<in> set es \<and>
     run_steps (server_step (sample_server denv c d)) fs s = Some s' \<and> (\<forall>inp. ConnEv 0 (StreamEv (HandlerDone 1 inp)) \<notin> set fs) \<and>
     sv_conns s 0 = Some k \<and> 1 \<in> set (st_active (sc_stream k)) \<and>
     sv_conns s' 0 = Some k' \<and> 1 \<in> set (st_active (sc_stream k')) \<and>
     shutdown_with_drain start drain_timeout
       [(now, snapshot_at (\<lambda>load. if load < 4 then sv_metrics s else sv_metrics s'))] = Some True"
proof -
  let ?step = "server_step (sample_server denv c d)"
  let ?fs = "[ConnEv 0 (StreamEv (PermitAcquired 2)), ConnEv 0 (StreamEv (HandlerDone 2 (sample_stream None)))]"
  obtain s0 k0 where s0: "run_steps ?step one_stream (server_new 1) = Some s0" "sv_conns s0 0 = Some k0" "st_active (sc_stream k0) = [1]"
    "st_waiting (sc_stream k0) = [2]" "st_permits (sc_stream k0) = 4095" "streams_opened (sv_metrics s0) = 1" "streams_closed (sv_metrics s0) = 0"
    and open_acceptor: "\<not> accept_ended (sv_acceptor s0)" and live: "\<not> sc_token k0"
    using one_stream_run [of denv c d] by blast
  obtain r g effs where handler: "handle_stream_connect (sample_stream None) stream_guard_default = (r, g, effs)"
    by (metis prod_cases3)
  have runs_on: "\<not> si_shutdown (sample_stream None)" by (simp add: sample_stream_def)
  obtain s where s: "?step ServerShutdown s0 = Some s" "sv_conns s = sv_conns s0" "sv_metrics s = sv_metrics s0"
    using open_acceptor by (simp add: server_step_def accept_loop_def)
  obtain s' k' where s': "run_steps ?step ?fs s = Some s'" "sv_conns s' 0 = Some k'" "st_active (sc_stream k') = [1]"
    "streams_closed (sv_metrics s') = 1"
    using s(2,3) s0(2-7) live
    by (simp add: server_step_def connection_event_def server_conn_step_def stream_event_allowed_def tunnel_step_def stream_opened_def
        release_if_returned_def runs_on Let_def split_def handler stream_finished_closed)
  have "run_steps ?step (one_stream @ [ServerShutdown]) (server_new 1) = Some s"
    unfolding run_steps_append using s0(1) s(1) by simp
  moreover have "shutdown_with_drain start drain_timeout
      [(now, snapshot_at (\<lambda>load. if load < 4 then sv_metrics s else sv_metrics s'))] = Some True"
    using s0(6) s(3) s'(4) by (simp add: shutdown_with_drain_def active_streams_def snapshot_at_def)
  ultimately show ?thesis using s0(2,3) s(2) s' by (intro exI conjI) (assumption | simp)+
qed

end
