(* ===== verification/Server_Service.thy ===== *)
theory Server_Service
  imports Server_Connections Quic_Endpoint
begin

text \<open>
  The server as a service, \<open>OmbracServer\<close> of \<open>crates/ombrac-server/src/service.rs\<close>: the QUIC endpoint, the acceptor with all its
  connections, and the two ways to shut them down. The service keeps the acceptor, and with it the \<open>Server\<close> of the transport,
  alive until a shutdown returns; that drops it, and then the transport closes its endpoint.
\<close>

section \<open>The service\<close>

text \<open>
  Where the caller is: nothing called; waiting for the next tick of the drain loop; in a tick, after the opened streams were
  loaded; waiting for the task of the accept loop, with what the call will return; returned. \<open>shutdown\<close> returns nothing.
\<close>

datatype service_call =
    Serving
  | DrainWait duration
  | DrainLoaded duration u64
  | JoinHandle "bool option"
  | CallReturned "bool option"

record ('c, 'd) server_service =
  ss_quic :: quic_server
  ss_server :: "('c, 'd) server"
  ss_signal :: bool
  ss_call :: service_call

definition server_service_new :: "nat \<Rightarrow> quic_server \<Rightarrow> ('c, 'd) server_service" where
  "server_service_new max_conns quic =
     \<lparr>ss_quic = quic, ss_server = server_new max_conns, ss_signal = False, ss_call = Serving\<rparr>"

text \<open>\<open>OmbracServer::build\<close>, with the hash that makes the secret.\<close>

definition server_build ::
    "('e, 'k, 'u, 'n) quinn_env \<Rightarrow> (u64 \<Rightarrow> quic_error option) \<Rightarrow> (bytes \<Rightarrow> secret) \<Rightarrow> server_config \<Rightarrow>
     service_error + (secret \<times> ('c, 'd) server_service)" where
  "server_build env varint hash config =
     and_then (quic_server_from_config varint config) (\<lambda>quic_config.
     and_then (case qe_bind env (scfg_listen config) of Inl e \<Rightarrow> Inl (SIo e) | Inr socket \<Rightarrow> Inr socket) (\<lambda>socket.
     and_then (as_quic (quic_server_new env socket quic_config)) (\<lambda>(endpoint, tls, quic).
       Inr (hash (ascii (scfg_secret config)), server_service_new (get_max_connections (scfg_connection config)) quic))))"

section \<open>Its steps\<close>

datatype service_event =
    QuicTask quic_event
  | TakeConnection
  | SeeSignal
  | ServerTask server_event
  | CallShutdown
  | CallDrain duration duration
  | DrainTick
  | DrainRest duration
  | Join

text \<open>
  The accept loop takes what \<open>Acceptor::accept\<close> gives, or sees the signal. The other tasks of the transport and of the
  connections run on their own.
\<close>

definition take_connection :: "('c, 'd) server_env \<Rightarrow> ('c, 'd) server_service \<Rightarrow> ('c, 'd) server_service option" where
  "take_connection env s =
     (case quic_accept (ss_quic s) of
        None \<Rightarrow> None
      | Some (r, q) \<Rightarrow>
          map_option (\<lambda>sv. s\<lparr>ss_quic := q, ss_server := sv\<rparr>)
            (server_step env (Arrive (case r of Inl e \<Rightarrow> Inl e | Inr _ \<Rightarrow> Inr ())) (ss_server s)))"

definition own_quic_task :: "quic_event \<Rightarrow> bool" where
  "own_quic_task e = (case e of QuicAccept \<Rightarrow> False | ServerDropped \<Rightarrow> False | _ \<Rightarrow> True)"

definition own_server_task :: "server_event \<Rightarrow> bool" where
  "own_server_task e = (case e of Handshake _ _ \<Rightarrow> True | ConnEv _ _ \<Rightarrow> True | _ \<Rightarrow> False)"

text \<open>\<open>shutdown\<close> and \<open>shutdown_with_drain\<close>: both send the signal.\<close>

definition call_shutdown :: "('c, 'd) server_service \<Rightarrow> ('c, 'd) server_service option" where
  "call_shutdown s = (if ss_call s = Serving then Some (s\<lparr>ss_signal := True, ss_call := JoinHandle None\<rparr>) else None)"

definition call_drain :: "duration \<Rightarrow> duration \<Rightarrow> ('c, 'd) server_service \<Rightarrow> ('c, 'd) server_service option" where
  "call_drain start drain_timeout s =
     (if ss_call s = Serving then Some (s\<lparr>ss_signal := True, ss_call := DrainWait (start + drain_timeout)\<rparr>) else None)"

text \<open>One tick of the drain loop: the snapshot loads the opened streams before the closed ones, and then the loop decides.\<close>

definition drain_decide :: "duration \<Rightarrow> duration \<Rightarrow> metrics_snapshot \<Rightarrow> bool option" where
  "drain_decide deadline now snap = drain_loop deadline [(now, snap)]"

definition drain_tick :: "('c, 'd) server_service \<Rightarrow> ('c, 'd) server_service option" where
  "drain_tick s =
     (case ss_call s of
        DrainWait deadline \<Rightarrow> Some (s\<lparr>ss_call := DrainLoaded deadline (streams_opened (sv_metrics (ss_server s)))\<rparr>)
      | _ \<Rightarrow> None)"

definition drain_rest :: "duration \<Rightarrow> ('c, 'd) server_service \<Rightarrow> ('c, 'd) server_service option" where
  "drain_rest now s =
     (case ss_call s of
        DrainLoaded deadline loaded \<Rightarrow>
          let snap = (snapshot (sv_metrics (ss_server s)))\<lparr>snap_streams_opened := loaded\<rparr>
          in Some (s\<lparr>ss_call := (case drain_decide deadline now snap of
                                  Some drained \<Rightarrow> JoinHandle (Some drained)
                                | None \<Rightarrow> DrainWait deadline)\<rparr>)
      | _ \<Rightarrow> None)"

text \<open>
  Both end by waiting for the task of the accept loop, which has dropped its reference to the acceptor when it ended. When the
  call returns, the service is dropped and the last reference with it.
\<close>

definition call_join :: "('c, 'd) server_service \<Rightarrow> ('c, 'd) server_service option" where
  "call_join s =
     (case ss_call s of
        JoinHandle r \<Rightarrow>
          if accept_ended (sv_acceptor (ss_server s))
          then map_option (\<lambda>q. s\<lparr>ss_call := CallReturned r, ss_quic := q\<rparr>) (server_drop (ss_quic s)) else None
      | _ \<Rightarrow> None)"

definition service_step :: "('c, 'd) server_env \<Rightarrow> service_event \<Rightarrow> ('c, 'd) server_service \<Rightarrow> ('c, 'd) server_service option" where
  "service_step env e s =
     (case e of
        QuicTask qe \<Rightarrow>
          if own_quic_task qe then map_option (\<lambda>q. s\<lparr>ss_quic := q\<rparr>) (quic_server_step qe (ss_quic s)) else None
      | TakeConnection \<Rightarrow> take_connection env s
      | SeeSignal \<Rightarrow>
          if ss_signal s then map_option (\<lambda>sv. s\<lparr>ss_server := sv\<rparr>) (server_step env ServerShutdown (ss_server s)) else None
      | ServerTask se \<Rightarrow>
          if own_server_task se then map_option (\<lambda>sv. s\<lparr>ss_server := sv\<rparr>) (server_step env se (ss_server s)) else None
      | CallShutdown \<Rightarrow> call_shutdown s
      | CallDrain start drain_timeout \<Rightarrow> call_drain start drain_timeout s
      | DrainTick \<Rightarrow> drain_tick s
      | DrainRest now \<Rightarrow> drain_rest now s
      | Join \<Rightarrow> call_join s)"

lemma drain_loop_decides:
  "drain_loop deadline ((now, snap) # ticks) =
   (case drain_decide deadline now snap of Some r \<Rightarrow> Some r | None \<Rightarrow> drain_loop deadline ticks)"
  by (simp add: drain_decide_def)

section \<open>What the service keeps\<close>

lemma quic_step_keeps: "\<exists>qs. quic_inv (qs, q) \<Longrightarrow> quic_server_step e q = Some q' \<Longrightarrow> \<exists>qs. quic_inv (qs, q')"
  using quic_step_inv [of "(_, q)" e "(_ @ [e], q')"] by (auto simp: logged_def)

lemma own_quic_task_frame:
  assumes "quic_server_step e q = Some q'" and "own_quic_task e"
  shows "qv_alive q' = qv_alive q" and "qv_taken q' = qv_taken q" and "qv_dropped q = [] \<Longrightarrow> qv_alive q \<Longrightarrow> qv_dropped q' = []"
  using assms
  by (auto simp: quic_server_step_def own_quic_task_def quic_accept_loop_def handshake_done_def send_done_def Let_def
      split: quic_event.splits if_splits)

lemma server_step_accept_ended:
  assumes "server_step env e s = Some s'"
  shows "accept_ended (sv_acceptor s') \<longleftrightarrow> accept_ended (sv_acceptor s) \<or> e = ServerShutdown"
proof -
  have acc: "accept_ended a' \<longleftrightarrow> accept_ended a \<or> ev = ShutdownSignal" if "accept_loop ev a = Some a'" for ev a a'
    using that
    by (auto simp: accept_loop_def handle_incoming_connection_def process_connection_end_def Let_def
        split: acceptor_event.splits if_splits sum.splits)
  show ?thesis
    using assms acc
    by (fastforce simp: server_step_def process_handshake_def connection_event_def release_if_returned_def
        split: server_event.splits sum.splits if_splits option.splits)
qed

definition service_inv :: "nat \<Rightarrow> ('c, 'd) server_service \<Rightarrow> bool" where
  "service_inv n s \<longleftrightarrow>
     (\<exists>qs. quic_inv (qs, ss_quic s)) \<and> server_inv n (ss_server s) \<and>
     sv_next (ss_server s) = length (qv_taken (ss_quic s)) \<and>
     arrivals (sv_metrics (ss_server s)) = of_nat (length (qv_taken (ss_quic s))) \<and>
     (ss_signal s \<longleftrightarrow> ss_call s \<noteq> Serving) \<and> (accept_ended (sv_acceptor (ss_server s)) \<longrightarrow> ss_signal s) \<and>
     (qv_alive (ss_quic s) \<longleftrightarrow> (\<forall>r. ss_call s \<noteq> CallReturned r)) \<and>
     (\<forall>r. ss_call s = CallReturned r \<longrightarrow> accept_ended (sv_acceptor (ss_server s)))"

lemma service_inv_new: "service_inv n (server_service_new n quic_server_initial)"
  using quic_inv_initial server_new_inv [of n]
  by (auto simp: service_inv_def server_service_new_def quic_server_initial_def)
    (auto simp: server_new_def acceptor_with_config_def)

text \<open>A step of the server's own tasks, and one of the caller.\<close>

lemma service_inv_server_task:
  assumes "service_inv n s" and "server_step env e (ss_server s) = Some sv" and "e \<noteq> Arrive (Inr ())"
    and "e = ServerShutdown \<longrightarrow> ss_signal s"
  shows "service_inv n (s\<lparr>ss_server := sv\<rparr>)"
  using assms server_step_inv [of n "ss_server s" env e sv] server_step_arrivals [OF assms(2)] server_step_accept_ended [OF assms(2)]
  by (simp add: service_inv_def) blast

lemma service_step_inv:
  assumes inv: "service_inv n s" and st: "service_step env e s = Some s'"
  shows "service_inv n s'"
proof (cases e)
  case (QuicTask qe)
  with st obtain q where q: "quic_server_step qe (ss_quic s) = Some q" "own_quic_task qe" "s' = s\<lparr>ss_quic := q\<rparr>"
    by (auto simp: service_step_def split: if_splits)
  with inv quic_step_keeps [OF _ q(1)] own_quic_task_frame [OF q(1,2)] show ?thesis by (simp add: service_inv_def) blast
next
  case TakeConnection
  with st obtain r q sv where q: "quic_accept (ss_quic s) = Some (r, q)"
    and sv: "server_step env (Arrive (case r of Inl e \<Rightarrow> Inl e | Inr _ \<Rightarrow> Inr ())) (ss_server s) = Some sv"
    and s': "s' = s\<lparr>ss_quic := q, ss_server := sv\<rparr>"
    by (auto simp: service_step_def take_connection_def split: option.splits prod.splits)
  have "quic_server_step QuicAccept (ss_quic s) = Some q" using q by (simp add: quic_server_step_def)
  with inv have "\<exists>qs. quic_inv (qs, q)" by (auto simp: service_inv_def intro: quic_step_keeps)
  moreover have "qv_alive q = qv_alive (ss_quic s)" "length (qv_taken q) = length (qv_taken (ss_quic s)) + (case r of Inl _ \<Rightarrow> 0 | Inr _ \<Rightarrow> 1)"
    using q by (auto simp: quic_accept_def split: if_splits list.splits)
  ultimately show ?thesis
    using inv server_step_inv [OF _ sv] server_step_arrivals [OF sv] server_step_accept_ended [OF sv]
    by (cases r) (simp_all add: service_inv_def s', blast+)
next
  case SeeSignal
  with st obtain sv where "server_step env ServerShutdown (ss_server s) = Some sv" "ss_signal s" "s' = s\<lparr>ss_server := sv\<rparr>"
    by (auto simp: service_step_def split: if_splits)
  with service_inv_server_task [OF inv, of env ServerShutdown sv] show ?thesis by simp
next
  case (ServerTask se)
  with st obtain sv where "server_step env se (ss_server s) = Some sv" "own_server_task se" "s' = s\<lparr>ss_server := sv\<rparr>"
    by (auto simp: service_step_def split: if_splits)
  with service_inv_server_task [OF inv, of env se sv] show ?thesis by (auto simp: own_server_task_def split: server_event.splits)
next
  case CallShutdown
  with st inv show ?thesis by (auto simp: service_step_def call_shutdown_def service_inv_def split: if_splits)
next
  case (CallDrain a b)
  with st inv show ?thesis by (auto simp: service_step_def call_drain_def service_inv_def split: if_splits)
next
  case DrainTick
  with st inv show ?thesis by (auto simp: service_step_def drain_tick_def service_inv_def split: service_call.splits)
next
  case (DrainRest now)
  with st inv show ?thesis
    by (auto simp: service_step_def drain_rest_def service_inv_def Let_def split: service_call.splits option.splits)
next
  case Join
  with st obtain r q where q: "server_drop (ss_quic s) = Some q" "s' = s\<lparr>ss_call := CallReturned r, ss_quic := q\<rparr>"
    and r: "ss_call s = JoinHandle r" "accept_ended (sv_acceptor (ss_server s))"
    by (auto simp: service_step_def call_join_def split: service_call.splits if_splits)
  have "quic_server_step ServerDropped (ss_quic s) = Some q" using q by (simp add: quic_server_step_def)
  with inv have "\<exists>qs. quic_inv (qs, q)" by (auto simp: service_inv_def intro: quic_step_keeps)
  moreover have "\<not> qv_alive q" "qv_taken q = qv_taken (ss_quic s)" using q(1) by (auto simp: server_drop_def split: if_splits)
  ultimately show ?thesis using inv r by (simp add: service_inv_def q(2))
qed

interpretation service_machine: invariant_machine "service_step env" "service_inv n" for env n
  by unfold_locales (rule service_step_inv)

section \<open>A shutdown returns\<close>

lemma join_reaches:
  assumes inv: "service_inv n s" and r: "ss_call s = JoinHandle r"
  shows "\<exists>t. reaches (service_step env) 2 s t \<and> ss_call t = CallReturned r"
proof -
  note step = reaches_step [where step = "service_step env"]
  have joins: "\<exists>t. reaches (service_step env) (Suc 0) u t \<and> ss_call t = CallReturned r"
    if "service_inv n u" "ss_call u = JoinHandle r" "accept_ended (sv_acceptor (ss_server u))" for u
  proof -
    have "qv_alive (ss_quic u)" using that(1,2) by (simp add: service_inv_def)
    with that obtain t where "service_step env Join u = Some t" "ss_call t = CallReturned r"
      by (simp add: service_step_def call_join_def server_drop_def)
    then show ?thesis using reaches_one [of "service_step env" Join u t] by blast
  qed
  show ?thesis
  proof (cases "accept_ended (sv_acceptor (ss_server s))")
    case True
    from joins [OF inv r this] obtain t where "reaches (service_step env) (Suc 0) s t" "ss_call t = CallReturned r" by blast
    with reaches_mono [of "service_step env" "Suc 0" s t 2] show ?thesis by auto
  next
    case False
    have signal: "ss_signal s" using inv r by (simp add: service_inv_def)
    obtain u where u: "service_step env SeeSignal s = Some u" "ss_call u = JoinHandle r" "accept_ended (sv_acceptor (ss_server u))"
      using False signal r by (simp add: service_step_def server_step_def accept_loop_def)
    from joins [OF service_step_inv [OF inv u(1)] u(2,3)] obtain t where "reaches (service_step env) (Suc 0) u t" "ss_call t = CallReturned r"
      by blast
    with step [OF u(1), of "Suc 0" t] show ?thesis by (auto simp: numeral_2_eq_2)
  qed
qed

lemma drain_rest_reaches:
  assumes inv: "service_inv n s" and d: "ss_call s = DrainLoaded deadline loaded"
  shows "\<exists>t r. reaches (service_step env) 3 s t \<and> ss_call t = CallReturned r"
proof -
  have "\<exists>u b. service_step env (DrainRest deadline) s = Some u \<and> ss_call u = JoinHandle (Some b)"
    using d by (auto simp: service_step_def drain_rest_def drain_decide_def Let_def)
  then obtain u b where u: "service_step env (DrainRest deadline) s = Some u" "ss_call u = JoinHandle (Some b)" by blast
  from join_reaches [OF service_step_inv [OF inv u(1)] u(2)] obtain t where "reaches (service_step env) 2 u t" "ss_call t = CallReturned (Some b)"
    by blast
  with reaches_step [where step = "service_step env", OF u(1), of 2 t] show ?thesis by (auto simp: numeral_2_eq_2 numeral_3_eq_3)
qed

lemma shutdown_reaches:
  assumes inv: "service_inv n s" and c: "ss_call s \<noteq> Serving"
  shows "\<exists>t r. reaches (service_step env) 4 s t \<and> ss_call t = CallReturned r"
proof (cases "ss_call s")
  case (DrainWait deadline)
  then obtain u d where u: "service_step env DrainTick s = Some u" "ss_call u = DrainLoaded deadline d"
    by (simp add: service_step_def drain_tick_def)
  from drain_rest_reaches [OF service_step_inv [OF inv u(1)] u(2)] obtain t r where "reaches (service_step env) 3 u t" "ss_call t = CallReturned r"
    by blast
  with reaches_step [where step = "service_step env", OF u(1), of 3 t] show ?thesis by (auto simp: eval_nat_numeral)
next
  case (DrainLoaded deadline d)
  from drain_rest_reaches [OF inv this] obtain t r where "reaches (service_step env) 3 s t" "ss_call t = CallReturned r" by blast
  with reaches_mono [of "service_step env" 3 s t 4] show ?thesis by auto
next
  case (JoinHandle r)
  from join_reaches [OF inv this] obtain t where "reaches (service_step env) 2 s t" "ss_call t = CallReturned r" by blast
  with reaches_mono [of "service_step env" 2 s t 4] show ?thesis by auto
next
  case (CallReturned r)
  then show ?thesis using reaches_refl [of "service_step env" 4 s] by blast
qed (use c in simp)

text \<open>
  C8. The life of the service. While no shutdown has returned, the \<open>Server\<close> of the transport exists and its endpoint is open, so
  draining lets streams go on; a call returns only when the accept loop has ended, and then the transport closes the
  endpoint. From every state after the call it can return within four steps, if time passes and the tasks run. Every
  connection that was taken from the transport is counted as accepted or rejected, and at most \<open>n\<close> are processed.
\<close>

theorem server_service_lifetime:
  assumes "run_steps (service_step env) es (server_service_new n quic_server_initial) = Some s"
  shows "((\<forall>r. ss_call s \<noteq> CallReturned r) \<longrightarrow> qv_alive (ss_quic s) \<and> \<not> qv_closed (ss_quic s) \<and> qv_dropped (ss_quic s) = []) \<and>
    (\<forall>r. ss_call s = CallReturned r \<longrightarrow> accept_ended (sv_acceptor (ss_server s)) \<and>
       (qv_closed (ss_quic s) \<or>
        (\<exists>t. service_step env (QuicTask QuicSignal) s = Some t \<and> qv_closed (ss_quic t) \<and> ss_server t = ss_server s))) \<and>
    (ss_call s \<noteq> Serving \<longrightarrow> (\<exists>t r. reaches (service_step env) 4 s t \<and> ss_call t = CallReturned r)) \<and>
    connections_accepted (sv_metrics (ss_server s)) + connections_rejected (sv_metrics (ss_server s)) =
      of_nat (length (qv_taken (ss_quic s))) \<and>
    length (running (sv_acceptor (ss_server s))) \<le> n"
proof -
  have inv: "service_inv n s" by (rule service_machine.run_inv [OF service_inv_new assms])
  then obtain qs where q: "quic_inv (qs, ss_quic s)" by (auto simp: service_inv_def)
  have closes: "qv_closed (ss_quic s) \<or>
      (\<exists>t. service_step env (QuicTask QuicSignal) s = Some t \<and> qv_closed (ss_quic t) \<and> ss_server t = ss_server s)"
    if "ss_call s = CallReturned r" for r
  proof -
    have "\<not> qv_alive (ss_quic s)" using inv that by (auto simp: service_inv_def)
    with q show ?thesis
      by (auto simp: quic_inv_def channel_inv_def service_step_def own_quic_task_def quic_server_step_def quic_accept_loop_def)
  qed
  have alive: "qv_alive (ss_quic s) \<and> \<not> qv_closed (ss_quic s) \<and> qv_dropped (ss_quic s) = []" if "\<forall>r. ss_call s \<noteq> CallReturned r"
    using inv q that by (auto simp: service_inv_def quic_inv_def channel_inv_def)
  have "length (running (sv_acceptor (ss_server s))) \<le> n"
    using inv server_invD(1) [of n "ss_server s"] by (simp add: service_inv_def)
  moreover have "ss_call s = CallReturned r \<longrightarrow> accept_ended (sv_acceptor (ss_server s))"
    "arrivals (sv_metrics (ss_server s)) = of_nat (length (qv_taken (ss_quic s)))" for r
    using inv by (simp_all add: service_inv_def)
  ultimately show ?thesis using alive closes shutdown_reaches [OF inv] by blast
qed

text \<open>A service with one connection that handles a stream, and another stream waiting.\<close>

definition busy_service :: "service_event list" where
  "busy_service =
     [QuicTask QuicIncoming, QuicTask (HandshakeDone 0 True), QuicTask (SendDone 0), TakeConnection,
      ServerTask (Handshake 0 (sample_input 1 [2])),
      ServerTask (ConnEv 0 (StreamEv (AcceptStream (Inr 1)))), ServerTask (ConnEv 0 (StreamEv (AcceptStream (Inr 2)))),
      ServerTask (ConnEv 0 (StreamEv (PermitAcquired 1)))]"

lemma busy_service_run:
  "\<exists>s. run_steps (service_step (sample_server denv c d)) busy_service (server_service_new 1 quic_server_initial) = Some s \<and>
     ss_call s = Serving \<and> \<not> accept_ended (sv_acceptor (ss_server s)) \<and> qv_alive (ss_quic s) \<and> \<not> qv_loop_ended (ss_quic s) \<and>
     streams_opened (sv_metrics (ss_server s)) = 1 \<and> streams_closed (sv_metrics (ss_server s)) = 0 \<and>
     (\<exists>k. sv_conns (ss_server s) 0 = Some k \<and> \<not> sc_token k \<and> st_active (sc_stream k) = [1] \<and> st_waiting (sc_stream k) = [2] \<and>
        st_permits (sc_stream k) = 4095)"
  by (simp add: busy_service_def server_service_new_def quic_server_initial_def service_step_def own_quic_task_def own_server_task_def
      quic_server_step_def quic_accept_loop_def handshake_done_def send_done_def CHANNEL_BOUND_def take_connection_def quic_accept_def
      server_step_def server_new_def accept_loop_def acceptor_with_config_def handle_incoming_connection_def
      process_handshake_def sample_handshake connection_event_def server_conn_step_def stream_event_allowed_def tunnel_step_def
      server_conn_new_def stream_tunnel_new_def release_if_returned_def stream_opened_def sample_server_def
      MAX_CONCURRENT_CONNECTIONS_def)

theorem server_service_lifetime_witness:
  "\<exists>s. run_steps (service_step (sample_server sample_env Map.empty Map.empty)) busy_service (server_service_new 1 quic_server_initial) = Some s \<and>
     qv_alive (ss_quic s) \<and> \<not> qv_closed (ss_quic s) \<and> length (running (sv_acceptor (ss_server s))) \<le> 1"
proof -
  obtain s where s: "run_steps (service_step (sample_server sample_env Map.empty Map.empty)) busy_service (server_service_new 1 quic_server_initial) = Some s"
    "ss_call s = Serving"
    using busy_service_run [of sample_env Map.empty Map.empty] by blast
  from server_service_lifetime [OF s(1)] s show ?thesis by (simp del: not_None_eq)
qed

section \<open>What a shutdown does to streams\<close>

definition closing :: "service_event list" where
  "closing = [SeeSignal, Join, QuicTask QuicSignal]"

lemma closing_run:
  assumes "ss_call s = JoinHandle r" and "ss_signal s" and "\<not> accept_ended (sv_acceptor (ss_server s))"
    and "qv_alive (ss_quic s)" and "\<not> qv_loop_ended (ss_quic s)"
  shows "\<exists>t. run_steps (service_step env) closing s = Some t \<and> ss_call t = CallReturned r \<and> qv_closed (ss_quic t) \<and>
    sv_conns (ss_server t) = sv_conns (ss_server s)"
  using assms
  by (simp add: closing_def service_step_def server_step_def accept_loop_def call_join_def server_drop_def own_quic_task_def
      quic_server_step_def quic_accept_loop_def)

definition shutdown_calls :: "bool option \<Rightarrow> service_event list" where
  "shutdown_calls r =
     (case r of
        None \<Rightarrow> [CallShutdown]
      | Some False \<Rightarrow> [CallDrain 0 0, DrainTick, DrainRest 0]
      | Some True \<Rightarrow>
          [CallDrain 0 0, DrainTick, ServerTask (ConnEv 0 (StreamEv (PermitAcquired 2))),
           ServerTask (ConnEv 0 (StreamEv (HandlerDone 2 (sample_stream None)))), DrainRest 0])"

lemma shutdown_calls_run:
  assumes "ss_call s = Serving" and "\<not> accept_ended (sv_acceptor (ss_server s))" and "qv_alive (ss_quic s)" and "\<not> qv_loop_ended (ss_quic s)"
    and "streams_opened (sv_metrics (ss_server s)) = 1" and "streams_closed (sv_metrics (ss_server s)) = 0"
    and "sv_conns (ss_server s) 0 = Some k" and "\<not> sc_token k" and "st_active (sc_stream k) = [1]" and "st_waiting (sc_stream k) = [2]"
    and "st_permits (sc_stream k) = 4095"
  shows "\<exists>t k'. run_steps (service_step env) (shutdown_calls r) s = Some t \<and> ss_call t = JoinHandle r \<and> ss_signal t \<and>
    \<not> accept_ended (sv_acceptor (ss_server t)) \<and> qv_alive (ss_quic t) \<and> \<not> qv_loop_ended (ss_quic t) \<and>
    sv_conns (ss_server t) 0 = Some k' \<and> st_active (sc_stream k') = [1]"
proof -
  note steps = service_step_def call_shutdown_def call_drain_def drain_tick_def drain_rest_def drain_decide_def active_streams_def
    snapshot_def snapshot_at_def
  consider "r = None" | "r = Some False" | "r = Some True" by (cases r) auto
  then show ?thesis
  proof cases
    case 3
    obtain res g effs where handler: "handle_stream_connect (sample_stream None) stream_guard_default = (res, g, effs)"
      by (metis prod_cases3)
    have runs_on: "\<not> si_shutdown (sample_stream None)" by (simp add: sample_stream_def)
    show ?thesis
      using assms 3
      by (simp add: shutdown_calls_def steps own_server_task_def server_step_def connection_event_def server_conn_step_def
          stream_event_allowed_def tunnel_step_def stream_opened_def release_if_returned_def runs_on Let_def split_def handler
          stream_finished_closed)
  qed (use assms in \<open>simp_all add: shutdown_calls_def steps Let_def\<close>)
qed

text \<open>
  C9. A shutdown cuts streams. \<open>shutdown\<close> does not wait for the connections. \<open>shutdown_with_drain\<close> can return \<open>false\<close>, and it can
  return \<open>true\<close>, while a stream is handled: the loads of one snapshot are apart, and a second stream that is opened and closed
  between them hides the first. In each case the call has returned, and the endpoint of the transport, with every connection
  on it, is closed at once, the stream still being handled.
\<close>

theorem shutdown_cuts_streams:
  "\<exists>es t k. run_steps (service_step (sample_server denv c d)) es (server_service_new 1 quic_server_initial) = Some t \<and>
     (\<forall>inp. ServerTask (ConnEv 0 (StreamEv (HandlerDone 1 inp))) \<notin> set es) \<and> ss_call t = CallReturned r \<and>
     qv_closed (ss_quic t) \<and> sv_conns (ss_server t) 0 = Some k \<and> st_active (sc_stream k) = [1]"
proof -
  let ?step = "service_step (sample_server denv c d)"
  obtain s k where s: "run_steps ?step busy_service (server_service_new 1 quic_server_initial) = Some s"
    "ss_call s = Serving" "\<not> accept_ended (sv_acceptor (ss_server s))" "qv_alive (ss_quic s)" "\<not> qv_loop_ended (ss_quic s)"
    "streams_opened (sv_metrics (ss_server s)) = 1" "streams_closed (sv_metrics (ss_server s)) = 0"
    "sv_conns (ss_server s) 0 = Some k" "\<not> sc_token k" "st_active (sc_stream k) = [1]" "st_waiting (sc_stream k) = [2]"
    "st_permits (sc_stream k) = 4095"
    using busy_service_run [of denv c d] by blast
  obtain u k' where u: "run_steps ?step (shutdown_calls r) s = Some u" "ss_call u = JoinHandle r" "ss_signal u"
    "\<not> accept_ended (sv_acceptor (ss_server u))" "qv_alive (ss_quic u)" "\<not> qv_loop_ended (ss_quic u)"
    "sv_conns (ss_server u) 0 = Some k'" "st_active (sc_stream k') = [1]"
    using shutdown_calls_run [OF s(2-), of "sample_server denv c d" r] by blast
  obtain t where t: "run_steps ?step closing u = Some t" "ss_call t = CallReturned r" "qv_closed (ss_quic t)"
    "sv_conns (ss_server t) = sv_conns (ss_server u)"
    using closing_run [OF u(2-6), of "sample_server denv c d"] by blast
  have "run_steps ?step (busy_service @ shutdown_calls r @ closing) (server_service_new 1 quic_server_initial) = Some t"
    unfolding run_steps_append using s(1) u(1) t(1) by simp
  moreover have "\<forall>inp. ServerTask (ConnEv 0 (StreamEv (HandlerDone 1 inp))) \<notin> set (busy_service @ shutdown_calls r @ closing)"
    by (auto simp: busy_service_def shutdown_calls_def closing_def split: option.splits bool.splits)
  ultimately show ?thesis using t(2-4) u(7,8) by (intro exI conjI) (assumption | simp)+
qed

end
