(* ===== verification/Command_Line.thy ===== *)
theory Command_Line
  imports Services
begin

text \<open>
  The two programs: their command lines (\<open>config/cli.rs\<close> of either side, as \<open>clap\<close> has parsed them), how \<open>config::load\<close> uses
  them, and \<open>bin/main.rs\<close>. Parsing the arguments, the JSON file, building the service and waiting for a signal are arguments.
\<close>

section \<open>The client's command line\<close>

record cli_tun_args =
  cta_fd :: "32 word option"
  cta_ipv4 :: "string option"
  cta_ipv6 :: "string option"
  cta_mtu :: "u16 option"
  cta_fake_dns :: "string option"
  cta_disable_udp_443 :: "bool option"

definition into_tun_config :: "cli_tun_args \<Rightarrow> client_tun_config" where
  "into_tun_config a =
     \<lparr>tun_fd = cta_fd a, tun_ipv4 = cta_ipv4 a, tun_ipv6 = cta_ipv6 a, tun_mtu = cta_mtu a, fake_dns = cta_fake_dns a,
      ctun_disable_udp_443 = cta_disable_udp_443 a\<rparr>"

record cli_endpoint_args =
  cea_http :: "socket_addr option"
  cea_socks :: "socket_addr option"
  cea_tun :: "cli_tun_args option"

definition into_endpoint_config :: "cli_endpoint_args \<Rightarrow> endpoint_config" where
  "into_endpoint_config a = \<lparr>ep_http = cea_http a, ep_socks = cea_socks a, ep_tun = map_option into_tun_config (cea_tun a)\<rparr>"

record client_transport_args =
  cca_bind :: "socket_addr option"
  cca_server_name :: "bytes option"
  cca_tls_mode :: "tls_mode option"
  cca_ca_cert :: "string option"
  cca_client_cert :: "string option"
  cca_client_key :: "string option"
  cca_zero_rtt :: "bool option"
  cca_alpn_protocols :: "bytes list option"
  cca_congestion :: "congestion option"
  cca_cwnd_init :: "u64 option"
  cca_idle_timeout :: "u64 option"
  cca_keep_alive :: "u64 option"
  cca_max_streams :: "u64 option"

definition into_client_transport :: "client_transport_args \<Rightarrow> client_transport_config" where
  "into_client_transport a =
     \<lparr>ct_bind = cca_bind a, ct_server_name = cca_server_name a, ct_tls_mode = cca_tls_mode a, ct_ca_cert = cca_ca_cert a,
      ct_client_cert = cca_client_cert a, ct_client_key = cca_client_key a, ct_zero_rtt = cca_zero_rtt a,
      ct_alpn_protocols = cca_alpn_protocols a, ct_congestion = cca_congestion a, ct_cwnd_init = cca_cwnd_init a,
      ct_idle_timeout = cca_idle_timeout a, ct_keep_alive = cca_keep_alive a, ct_max_streams = cca_max_streams a\<rparr>"

record logging_args =
  la_log_level :: "string option"

definition into_logging_config :: "logging_args \<Rightarrow> logging_config" where
  "into_logging_config a = \<lparr>log_level = la_log_level a\<rparr>"

record client_args =
  ca_config :: "string option"
  ca_secret :: "string option"
  ca_server :: "bytes option"
  ca_auth_option :: "string option"
  ca_endpoint :: cli_endpoint_args
  ca_transport :: client_transport_args
  ca_logging :: logging_args

text \<open>\<open>required_unless_present = "config"\<close>: otherwise parsing fails and the program exits.\<close>

definition client_args_accepted :: "client_args \<Rightarrow> bool" where
  "client_args_accepted a \<longleftrightarrow> ca_config a \<noteq> None \<or> ca_secret a \<noteq> None \<and> ca_server a \<noteq> None"

definition client_parse_to_config :: "client_args \<Rightarrow> client_cli_config" where
  "client_parse_to_config a =
     \<lparr>cli_secret = ca_secret a, cli_server = ca_server a, cli_auth_option = ca_auth_option a,
      cli_endpoint = into_endpoint_config (ca_endpoint a), cli_transport = into_client_transport (ca_transport a),
      cli_logging = into_logging_config (ca_logging a)\<rparr>"

definition client_load_args :: "(string \<Rightarrow> string + client_json_config) \<Rightarrow> client_args \<Rightarrow> string + client_config" where
  "client_load_args from_file a = client_load from_file (ca_config a) (client_parse_to_config a)"

section \<open>The server's command line\<close>

record server_transport_args =
  sta_tls_mode :: "tls_mode option"
  sta_ca_cert :: "string option"
  sta_tls_cert :: "string option"
  sta_tls_key :: "string option"
  sta_zero_rtt :: "bool option"
  sta_alpn_protocols :: "bytes list option"
  sta_congestion :: "congestion option"
  sta_cwnd_init :: "u64 option"
  sta_idle_timeout :: "u64 option"
  sta_keep_alive :: "u64 option"
  sta_max_streams :: "u64 option"

definition into_server_transport :: "server_transport_args \<Rightarrow> server_transport_config" where
  "into_server_transport a =
     \<lparr>st_tls_mode = sta_tls_mode a, st_ca_cert = sta_ca_cert a, st_tls_cert = sta_tls_cert a, st_tls_key = sta_tls_key a,
      st_zero_rtt = sta_zero_rtt a, st_alpn_protocols = sta_alpn_protocols a, st_congestion = sta_congestion a,
      st_cwnd_init = sta_cwnd_init a, st_idle_timeout = sta_idle_timeout a, st_keep_alive = sta_keep_alive a,
      st_max_streams = sta_max_streams a\<rparr>"

record server_args =
  sa_config :: "string option"
  sa_secret :: "string option"
  sa_listen :: "socket_addr option"
  sa_transport :: server_transport_args
  sa_logging :: logging_args

definition server_args_accepted :: "server_args \<Rightarrow> bool" where
  "server_args_accepted a \<longleftrightarrow> sa_config a \<noteq> None \<or> sa_secret a \<noteq> None \<and> sa_listen a \<noteq> None"

definition server_parse_to_config :: "server_args \<Rightarrow> server_cli_config" where
  "server_parse_to_config a =
     \<lparr>scli_secret = sa_secret a, scli_listen = sa_listen a, scli_transport = into_server_transport (sa_transport a),
      scli_logging = into_logging_config (sa_logging a)\<rparr>"

definition server_load_args :: "(string \<Rightarrow> string + server_json_config) \<Rightarrow> server_args \<Rightarrow> string + server_config" where
  "server_load_args from_file a = server_load from_file (sa_config a) (server_parse_to_config a)"

section \<open>The programs\<close>

text \<open>
  \<open>main\<close> of either side: exits with 1 if loading, building or waiting for the signal fails, and after the signal shuts down and
  exits with 0. \<open>display\<close> is the text of the error that building gives.
\<close>

datatype ('e, 's) program_effect = PrintedError string | Built 's | WaitedForSignal | ShutDown 's

definition run_from_cli ::
    "('e \<Rightarrow> string) \<Rightarrow> ('cfg \<Rightarrow> 'e + 's) \<Rightarrow> unit io_result \<Rightarrow> 'cfg \<Rightarrow> unit io_result \<times> ('e, 's) program_effect list" where
  "run_from_cli display build signal config =
     (case build config of
        Inl e \<Rightarrow> (Inl (io_err KOther (display e)), [])
      | Inr service \<Rightarrow>
          (case signal of
             Inl e \<Rightarrow> (Inl e, [Built service])
           | Inr _ \<Rightarrow> (Inr (), [Built service, WaitedForSignal, ShutDown service])))"

definition program_main ::
    "('e \<Rightarrow> string) \<Rightarrow> (string + 'cfg) \<Rightarrow> ('cfg \<Rightarrow> 'e + 's) \<Rightarrow> unit io_result \<Rightarrow> nat \<times> ('e, 's) program_effect list" where
  "program_main display loaded build signal =
     (case loaded of
        Inl e \<Rightarrow> (1, [PrintedError (''failed to load configuration: '' @ e)])
      | Inr config \<Rightarrow>
          (case run_from_cli display build signal config of
             (Inl e, effects) \<Rightarrow> (1, effects @ [PrintedError (''fatal error occurred during runtime: '' @ err_msg e)])
           | (Inr _, effects) \<Rightarrow> (0, effects)))"

section \<open>Properties\<close>

lemma run_from_cli_Inr:
  "fst (run_from_cli display build signal config) = Inr () \<longleftrightarrow> (\<exists>service. build config = Inr service \<and> signal = Inr ())"
  by (auto simp: run_from_cli_def split: sum.splits)

lemma program_main_exit_0:
  "fst (program_main display loaded build signal) = 0 \<longleftrightarrow>
   (\<exists>config service. loaded = Inr config \<and> build config = Inr service \<and> signal = Inr () \<and>
      snd (program_main display loaded build signal) = [Built service, WaitedForSignal, ShutDown service])"
  by (auto simp: program_main_def run_from_cli_def split: sum.splits)

text \<open>A flag wins over the default; without one the default stays.\<close>

lemma client_load_args_no_file:
  assumes "ca_config a = None" and "client_args_accepted a"
  shows "\<exists>cfg. client_load_args from_file a = Inr cfg \<and> Some (cfg_secret cfg) = ca_secret a \<and> Some (cfg_server cfg) = ca_server a \<and>
    cfg_auth_option cfg = ca_auth_option a \<and>
    cfg_transport cfg = client_merge_transport client_transport_default (into_client_transport (ca_transport a)) \<and>
    cfg_endpoint cfg = into_endpoint_config (ca_endpoint a) \<and>
    log_level (cfg_logging cfg) = option_or (la_log_level (ca_logging a)) (Some ''INFO'')"
proof -
  obtain secret server where s: "ca_secret a = Some secret" "ca_server a = Some server"
    using assms by (auto simp: client_args_accepted_def)
  have "merge_endpoint endpoint_default e = e" for e
    by (cases "ep_tun e") (simp_all add: merge_endpoint_def endpoint_default_def option_or_simps)
  with s assms(1) show ?thesis
    by (auto simp: client_load_args_def client_load_def client_parse_to_config_def client_merge_cli_def client_builder_new_def
        client_config_build_def merge_logging_def logging_default_def into_logging_config_def ok_or_def option_or_simps
        split: option.splits)
qed

end
