(* ===== verification/C_Interface.thy ===== *)
theory C_Interface
  imports Machine Std_Text "HOL-Library.Multiset"
begin

text \<open>
  The C interface of both sides: \<open>crates/ombrac-client/src/ffi.rs\<close> and \<open>crates/ombrac-server/src/ffi.rs\<close>, which differ only in
  \<open>rebind\<close>. One handle behind a mutex holds the running service. Any number of threads may call the functions: a startup
  builds its service before it takes the lock, so these are two steps; rebind and shutdown hold the lock all the
  time. A pointer is \<open>None\<close> when null and otherwise the bytes that can be read there. What loading, building and stopping give, a panic
  included, comes with the event.
\<close>

section \<open>Strings and panics\<close>

definition c_str_to_string :: "bytes option \<Rightarrow> bytes" where
  "c_str_to_string p =
     (case p of
        None \<Rightarrow> []
      | Some mem \<Rightarrow> let s = takeWhile (\<lambda>b. b \<noteq> 0) mem in if utf8_valid s then s else [])"

definition get_version :: "bytes \<Rightarrow> bytes" where
  "get_version cargo_pkg_version = cargo_pkg_version @ [0]"

datatype 'a outcome = Returns 'a | Panics

definition catch_unwind :: "'a \<Rightarrow> 'a outcome \<Rightarrow> 'a" where
  "catch_unwind d r = (case r of Returns x \<Rightarrow> x | Panics \<Rightarrow> d)"

section \<open>The handle\<close>

text \<open>Services are numbered as they are built, and the runtime of each has its number.\<close>

record service_handle =
  handle_service :: "nat option"
  handle_runtime :: nat

text \<open>
  \<open>pending\<close>: threads whose startup has built a service and waits for the lock. The rest is history: which services were
  told to shut down, which were dropped because another one was running, whose runtimes have ended, and which had
  their transport rebound.
\<close>

record ffi_state =
  SERVICE_HANDLE :: "service_handle option"
  poisoned :: bool
  built :: nat
  pending :: "nat \<Rightarrow> nat option"
  stopped :: "nat list"
  discarded :: "nat list"
  runtimes_down :: "nat list"
  rebound :: "nat list"

definition ffi_init :: ffi_state where
  "ffi_init = \<lparr>SERVICE_HANDLE = None, poisoned = False, built = 0, pending = (\<lambda>_. None), stopped = [], discarded = [],
     runtimes_down = [], rebound = []\<rparr>"

text \<open>A lock that was poisoned gives its guard all the same, inside the error, and all functions take it from there.\<close>

definition mutex_lock :: "ffi_state \<Rightarrow> service_handle option + service_handle option" where
  "mutex_lock s = (if poisoned s then Inl (SERVICE_HANDLE s) else Inr (SERVICE_HANDLE s))"

definition lock_handle :: "ffi_state \<Rightarrow> service_handle option" where
  "lock_handle s = (case mutex_lock s of Inr guard \<Rightarrow> guard | Inl e \<Rightarrow> e)"

section \<open>Startup\<close>

record 'c startup_env =
  load_from_json :: "bytes \<Rightarrow> (string + 'c) outcome"
  runtime_new :: "unit io_result outcome"
  build_service :: "'c \<Rightarrow> (string + unit) outcome"

text \<open>Everything before the lock: a return code, or a service.\<close>

definition startup_prepare :: "'c startup_env \<Rightarrow> bytes option \<Rightarrow> (32 word + unit) outcome" where
  "startup_prepare env config_json =
     (case load_from_json env (c_str_to_string config_json) of
        Panics \<Rightarrow> Panics
      | Returns (Inl e) \<Rightarrow> Returns (Inl (- 1))
      | Returns (Inr service_config) \<Rightarrow>
          (case runtime_new env of
             Panics \<Rightarrow> Panics
           | Returns (Inl e) \<Rightarrow> Returns (Inl (- 1))
           | Returns (Inr _) \<Rightarrow>
               (case build_service env service_config of
                  Panics \<Rightarrow> Panics
                | Returns (Inl e) \<Rightarrow> Returns (Inl (- 1))
                | Returns (Inr _) \<Rightarrow> Returns (Inr ()))))"

definition startup_begin :: "nat \<Rightarrow> 'c startup_env \<Rightarrow> bytes option \<Rightarrow> ffi_state \<Rightarrow> 32 word option \<times> ffi_state" where
  "startup_begin i env config_json s =
     (case startup_prepare env config_json of
        Panics \<Rightarrow> (Some (- 1), s)
      | Returns (Inl code) \<Rightarrow> (Some code, s)
      | Returns (Inr _) \<Rightarrow> (None, s\<lparr>built := Suc (built s), pending := (pending s)(i \<mapsto> built s)\<rparr>))"

text \<open>With the lock: install the service, or drop it and its runtime.\<close>

definition startup_install :: "nat \<Rightarrow> nat \<Rightarrow> ffi_state \<Rightarrow> 32 word \<times> ffi_state" where
  "startup_install i n s =
     (if lock_handle s \<noteq> None
      then (- 1, s\<lparr>pending := (pending s)(i := None), discarded := discarded s @ [n], runtimes_down := runtimes_down s @ [n]\<rparr>)
      else (0, s\<lparr>pending := (pending s)(i := None), SERVICE_HANDLE := Some \<lparr>handle_service = Some n, handle_runtime = n\<rparr>\<rparr>))"

section \<open>Rebind and shutdown\<close>

text \<open>A panic while the lock is held poisons it.\<close>

definition service_rebind :: "unit io_result outcome \<Rightarrow> ffi_state \<Rightarrow> 32 word \<times> ffi_state" where
  "service_rebind result s =
     (case lock_handle s of
        None \<Rightarrow> (- 1, s)
      | Some handle \<Rightarrow>
          (case handle_service handle of
             None \<Rightarrow> (- 1, s)
           | Some service \<Rightarrow>
               (let s' = s\<lparr>rebound := rebound s @ [service]\<rparr>
                in case result of
                     Panics \<Rightarrow> (catch_unwind (- 1) Panics, s'\<lparr>poisoned := True\<rparr>)
                   | Returns (Inl e) \<Rightarrow> (catch_unwind (- 1) (Returns (- 1)), s')
                   | Returns (Inr _) \<Rightarrow> (catch_unwind (- 1) (Returns 0), s'))))"

text \<open>A panic of the service's own shutdown is caught inside, so the runtime is stopped in any case and the lock stays clean.\<close>

definition service_shutdown :: "unit outcome \<Rightarrow> ffi_state \<Rightarrow> 32 word \<times> ffi_state" where
  "service_shutdown result s =
     (case lock_handle s of
        None \<Rightarrow> (0, s)
      | Some handle \<Rightarrow>
          (let s1 = s\<lparr>SERVICE_HANDLE := None\<rparr>;
               s2 = (case handle_service handle of
                       None \<Rightarrow> s1
                     | Some service \<Rightarrow> catch_unwind (s1\<lparr>stopped := stopped s1 @ [service]\<rparr>)
                         (case result of Returns _ \<Rightarrow> Returns (s1\<lparr>stopped := stopped s1 @ [service]\<rparr>) | Panics \<Rightarrow> Panics))
           in (0, s2\<lparr>runtimes_down := runtimes_down s2 @ [handle_runtime handle]\<rparr>)))"

section \<open>All calls\<close>

datatype 'c ffi_event =
    StartupBegin nat "'c startup_env" "bytes option"
  | StartupInstall nat
  | Rebind "unit io_result outcome"
  | Shutdown "unit outcome"

text \<open>The return code of the call that the event ends, if it ends one, and the state after it.\<close>

definition ffi_call :: "'c ffi_event \<Rightarrow> ffi_state \<Rightarrow> (32 word option \<times> ffi_state) option" where
  "ffi_call e s =
     (case e of
        StartupBegin i env config_json \<Rightarrow>
          (if pending s i = None then Some (startup_begin i env config_json s) else None)
      | StartupInstall i \<Rightarrow>
          (case pending s i of None \<Rightarrow> None | Some n \<Rightarrow> Some (apfst Some (startup_install i n s)))
      | Rebind r \<Rightarrow> Some (apfst Some (service_rebind r s))
      | Shutdown r \<Rightarrow> Some (apfst Some (service_shutdown r s)))"

definition ffi_step :: "'c ffi_event \<Rightarrow> ffi_state \<Rightarrow> ffi_state option" where
  "ffi_step e s = map_option snd (ffi_call e s)"

section \<open>What the functions promise\<close>

definition running :: "ffi_state \<Rightarrow> nat list" where
  "running s = (case SERVICE_HANDLE s of None \<Rightarrow> [] | Some h \<Rightarrow> (case handle_service h of None \<Rightarrow> [] | Some n \<Rightarrow> [n]))"

lemma lock_handle [simp]: "lock_handle s = SERVICE_HANDLE s"
  by (simp add: lock_handle_def mutex_lock_def)

text \<open>Each number below \<open>n\<close> is in one place: waiting at one thread, or once in the list.\<close>

definition placed :: "(nat \<Rightarrow> nat option) \<Rightarrow> nat list \<Rightarrow> nat \<Rightarrow> bool" where
  "placed m xs n \<longleftrightarrow> distinct xs \<and> inj_on m (dom m) \<and> ran m \<inter> set xs = {} \<and> ran m \<union> set xs = {..<n}"

lemma placed_perm: "placed m xs n \<Longrightarrow> mset ys = mset xs \<Longrightarrow> placed m ys n"
  using mset_eq_setD [of ys xs] mset_eq_imp_distinct_iff [of ys xs] by (simp add: placed_def)

lemma placed_new:
  assumes "placed m xs n" and "m i = None"
  shows "placed (m(i \<mapsto> n)) xs (Suc n)"
proof -
  have "n \<notin> ran m" "n \<notin> set xs" using assms(1) by (auto simp: placed_def)
  moreover from this have "inj_on (m(i \<mapsto> n)) (dom (m(i \<mapsto> n)))"
    using assms by (auto simp: placed_def inj_on_def ran_def)
  ultimately show ?thesis using assms by (simp add: placed_def lessThan_Suc)
qed

lemma placed_leave:
  assumes "placed m xs n" and "m i = Some k" and "mset ys = mset (k # xs)"
  shows "placed (m(i := None)) ys n"
proof -
  have "inj_on m (dom m)" using assms(1) by (simp add: placed_def)
  then have only: "a = i" if "m a = Some k" for a
    using that assms(2) by (auto simp: inj_on_def dom_def)
  have "ran (m(i := None)) = ran m - {k}"
  proof (intro set_eqI iffI)
    fix v
    assume "v \<in> ran m - {k}"
    then obtain a where "m a = Some v" "v \<noteq> k" by (auto simp: ran_def)
    then have "m a = Some v" "a \<noteq> i" using assms(2) by auto
    then show "v \<in> ran (m(i := None))" by (auto simp: ran_def)
  next
    fix v
    assume "v \<in> ran (m(i := None))"
    then obtain a where "m a = Some v" "a \<noteq> i" by (auto simp: ran_def split: if_splits)
    then show "v \<in> ran m - {k}" using only by (auto simp: ran_def)
  qed
  moreover have "k \<in> ran m" using assms(2) by (rule ranI)
  ultimately have "placed (m(i := None)) (k # xs) n"
    using assms(1) by (auto simp: placed_def inj_on_def)
  then show ?thesis using assms(3) by (rule placed_perm)
qed

text \<open>Every service built so far is waiting, running, stopped or discarded, and only one of these.\<close>

definition ffi_ok :: "ffi_state \<Rightarrow> bool" where
  "ffi_ok s \<longleftrightarrow>
     (\<forall>h. SERVICE_HANDLE s = Some h \<longrightarrow> handle_service h = Some (handle_runtime h)) \<and>
     placed (pending s) (running s @ stopped s @ discarded s) (built s) \<and>
     mset (runtimes_down s) = mset (stopped s) + mset (discarded s)"

lemma startup_begin_ok: "ffi_ok s \<Longrightarrow> pending s i = None \<Longrightarrow> ffi_ok (snd (startup_begin i env p s))"
  by (auto simp: startup_begin_def ffi_ok_def running_def placed_new split: outcome.split sum.split)

lemma startup_install_ok:
  assumes "ffi_ok s" and "pending s i = Some n"
  shows "ffi_ok (snd (startup_install i n s))"
proof -
  have "placed (pending s) (running s @ stopped s @ discarded s) (built s)" using assms(1) by (simp add: ffi_ok_def)
  from placed_leave [OF this assms(2)] show ?thesis
    using assms(1) by (auto simp: startup_install_def ffi_ok_def running_def)
qed

lemma service_rebind_ok: "ffi_ok s \<Longrightarrow> ffi_ok (snd (service_rebind r s))"
  by (auto simp: service_rebind_def ffi_ok_def running_def Let_def split: option.splits outcome.splits sum.splits)

lemma service_shutdown_ok: "ffi_ok s \<Longrightarrow> ffi_ok (snd (service_shutdown r s))"
  by (auto simp: service_shutdown_def ffi_ok_def running_def Let_def catch_unwind_def elim: placed_perm
      split: option.splits outcome.splits)

lemma ffi_step_ok:
  assumes "ffi_ok s" and "ffi_step e s = Some s'"
  shows "ffi_ok s'"
proof (cases e)
  case (StartupBegin i env p)
  with assms(2) have "pending s i = None" "s' = snd (startup_begin i env p s)"
    by (auto simp: ffi_step_def ffi_call_def split: if_splits)
  then show ?thesis using startup_begin_ok [OF assms(1)] by simp
next
  case (StartupInstall i)
  with assms(2) obtain n where "pending s i = Some n" "s' = snd (startup_install i n s)"
    by (cases "pending s i") (simp_all add: ffi_step_def ffi_call_def del: map_option_eq_Some)
  then show ?thesis using startup_install_ok [OF assms(1)] by simp
qed (use assms in \<open>auto simp: ffi_step_def ffi_call_def service_rebind_ok service_shutdown_ok
  split: option.splits\<close>)

interpretation ffi: invariant_machine "ffi_step :: 'c ffi_event \<Rightarrow> ffi_state \<Rightarrow> ffi_state option" ffi_ok
  by unfold_locales (rule ffi_step_ok)

lemma ffi_init_ok: "ffi_ok ffi_init"
  by (simp add: ffi_ok_def ffi_init_def running_def placed_def)

text \<open>
  C29. At most one service runs, and none is lost: after any calls by any threads, panics included, every service that was built
  waits at the lock, runs, was told to shut down or was discarded, and is in one of these places only; the
  runtimes that ended are those of the stopped and of the discarded ones. A startup gives 0 exactly when it installs its service, which
  it does when none runs, and otherwise -1, with the running one untouched; a rebind gives 0 exactly when there is a running service
  and it could rebind; a shutdown gives 0 always, and then nothing runs and what ran was told to stop.
\<close>

theorem service_lifecycle:
  assumes "run_steps ffi_step es ffi_init = Some s" and "ffi_call e s = Some (code, s')"
  shows "(distinct (running s @ stopped s @ discarded s) \<and>
      ran (pending s) \<inter> set (running s @ stopped s @ discarded s) = {} \<and>
      ran (pending s) \<union> set (running s @ stopped s @ discarded s) = {..<built s} \<and>
      mset (runtimes_down s) = mset (stopped s) + mset (discarded s)) \<and>
    (case e of
       StartupBegin i env p \<Rightarrow> running s' = running s \<and> code \<noteq> Some 0 \<and> (code = None \<longleftrightarrow> pending s' i = Some (built s))
     | StartupInstall i \<Rightarrow>
         (if running s = [] then code = Some 0 \<and> running s' = [the (pending s i)]
          else code = Some (- 1) \<and> running s' = running s \<and> discarded s' = discarded s @ [the (pending s i)])
     | Rebind r \<Rightarrow> running s' = running s \<and> rebound s' = rebound s @ running s \<and>
         code = Some (if running s \<noteq> [] \<and> r = Returns (Inr ()) then 0 else - 1)
     | Shutdown r \<Rightarrow> code = Some 0 \<and> running s' = [] \<and> stopped s' = stopped s @ running s)"
proof -
  have ok: "ffi_ok s" using ffi.run_inv [OF ffi_init_ok assms(1)] .
  then have none: "running s = [] \<longleftrightarrow> SERVICE_HANDLE s = None"
    by (auto simp: ffi_ok_def running_def split: option.split)
  have call: "case e of
       StartupBegin i env p \<Rightarrow> running s' = running s \<and> code \<noteq> Some 0 \<and> (code = None \<longleftrightarrow> pending s' i = Some (built s))
     | StartupInstall i \<Rightarrow>
         (if running s = [] then code = Some 0 \<and> running s' = [the (pending s i)]
          else code = Some (- 1) \<and> running s' = running s \<and> discarded s' = discarded s @ [the (pending s i)])
     | Rebind r \<Rightarrow> running s' = running s \<and> rebound s' = rebound s @ running s \<and>
         code = Some (if running s \<noteq> [] \<and> r = Returns (Inr ()) then 0 else - 1)
     | Shutdown r \<Rightarrow> code = Some 0 \<and> running s' = [] \<and> stopped s' = stopped s @ running s"
  proof (cases e)
    case (StartupBegin i env p)
    then show ?thesis using assms(2)
      by (auto simp: ffi_call_def startup_begin_def startup_prepare_def running_def split: if_splits outcome.splits sum.splits)
  next
    case (StartupInstall i)
    then show ?thesis using assms(2) none
      by (auto simp: ffi_call_def startup_install_def running_def split: option.splits if_splits)
  next
    case (Rebind r)
    then show ?thesis using assms(2) ok
      by (auto simp: ffi_call_def service_rebind_def running_def ffi_ok_def Let_def catch_unwind_def
          split: option.splits outcome.splits sum.splits)
  next
    case (Shutdown r)
    then show ?thesis using assms(2) ok
      by (auto simp: ffi_call_def service_shutdown_def running_def ffi_ok_def Let_def catch_unwind_def
          split: option.splits outcome.splits)
  qed
  from ok have "distinct (running s @ stopped s @ discarded s) \<and>
      ran (pending s) \<inter> set (running s @ stopped s @ discarded s) = {} \<and>
      ran (pending s) \<union> set (running s @ stopped s @ discarded s) = {..<built s} \<and>
      mset (runtimes_down s) = mset (stopped s) + mset (discarded s)"
    unfolding ffi_ok_def placed_def by blast
  with call show ?thesis by blast
qed

text \<open>Two threads start a service each, the second one is discarded; a rebind panics, and the shutdown still stops the first.\<close>

theorem service_lifecycle_witness:
  "\<exists>s s' (env :: unit startup_env). run_steps ffi_step [StartupBegin 1 env None, StartupBegin 2 env None, StartupInstall 2, StartupInstall 1, Rebind Panics]
       ffi_init = Some s \<and> ffi_call (Shutdown Panics :: unit ffi_event) s = Some (Some 0, s') \<and>
     built s = 2 \<and> poisoned s \<and> running s = [1] \<and> discarded s = [0] \<and> stopped s' = [1] \<and> running s' = []"
proof -
  let ?env = "\<lparr>load_from_json = \<lambda>_. Returns (Inr ()), runtime_new = Returns (Inr ()), build_service = \<lambda>_. Returns (Inr ())\<rparr>"
  let ?es = "[StartupBegin 1 ?env None, StartupBegin 2 ?env None, StartupInstall 2, StartupInstall 1, Rebind Panics]"
  obtain s where run: "run_steps ffi_step ?es ffi_init = Some s" and s: "built s = 2 \<and> poisoned s \<and> running s = [1] \<and> discarded s = [0]"
    and "stopped s = []"
    by (simp add: ffi_step_def ffi_call_def startup_begin_def startup_prepare_def startup_install_def service_rebind_def ffi_init_def
        running_def)
  obtain code s' where call: "ffi_call (Shutdown Panics :: unit ffi_event) s = Some (code, s')"
    by (simp add: ffi_call_def prod_eq_iff)
  from service_lifecycle [OF run call] \<open>stopped s = []\<close> s
  have "code = Some 0 \<and> stopped s' = [1] \<and> running s' = []" by simp
  with run call s show ?thesis by blast
qed

text \<open>The version reads back as it was written, when it is a C string at all.\<close>

lemma get_version_roundtrip: "utf8_valid v \<Longrightarrow> 0 \<notin> set v \<Longrightarrow> c_str_to_string (Some (get_version v)) = v"
  by (auto simp: c_str_to_string_def get_version_def Let_def takeWhile_append)

end
