(* ===== verification/Spec2Isabelle.thy ===== *)
theory Spec2Isabelle
  imports Reassembly_Roundtrip Socks_Endpoint Client_Stream Net_Inbound Net_Fifo Quic_Recovery Client_Service Server_Service
    Command_Line C_Interface
begin

text \<open>
  A verification development for ombrac, a tunnel for TCP and UDP over QUIC. A client offers local endpoints (HTTP,
  SOCKS5, a TUN device); what comes in there goes through one authenticated QUIC connection to the server, which opens the
  connections and sends the datagrams. Paths below are relative to \<open>crates/\<close>.

  \<^bold>\<open>Theories.\<close> \<open>Ombrac_Prelude\<close> has the types of the model (machine words, bytes, addresses, \<open>io_error\<close> and results as sums)
  and the lemmas shared by all. \<open>Machine\<close> has runs of event-driven machines and the locales \<open>invariant_machine\<close> and
  \<open>terminating_machine\<close>, which every machine below interprets. \<open>Std_Text\<close> and \<open>Tcp_Io\<close> model the parts of the
  standard library the sources use: printing and parsing of addresses, reading exactly so many bytes from a stream.
  \<^item> Wire: \<open>Protocol\<close> (\<open>ombrac/src/protocol.rs\<close>, \<open>codec.rs\<close>: messages, error kinds, \<open>split_packet\<close>), \<open>Address\<close>
    (parsing, printing and resolving addresses, same file), \<open>Reassembly\<close> and \<open>Reassembly_Roundtrip\<close> (\<open>reassembly.rs\<close>: the
    buffers on an explicit heap behind a cache that may evict; refinement of a map, round trip with \<open>split_packet\<close>),
    \<open>Metrics\<close> (\<open>metrics.rs\<close>, counters as 64-bit words).
  \<^item> Transport: \<open>Transport_Io\<close> (\<open>ombrac-transport/src/io.rs\<close>: the two relay directions, one event per completed
    read or write), \<open>Quic_Transport\<close> (\<open>quic/mod.rs\<close>, \<open>client.rs\<close>, \<open>server.rs\<close>, \<open>error.rs\<close>: errors, settings, TLS configurations), \<open>Quic_Endpoint\<close> (same files: creating the
    endpoints, connecting, the accept loop of the server with its tasks and its channel).
  \<^item> Client: \<open>Client_Connection\<close> (\<open>ombrac-client/src/connection/mod.rs\<close>: tasks in \<open>with_retry\<close> and \<open>reconnect\<close> with their
    program points), \<open>Quic_Recovery\<close> (which QUIC failures lead there), \<open>Byte_Stream\<close> and \<open>Client_Stream\<close>
    (\<open>connection/stream.rs\<close>), \<open>Client_Datagram\<close> (\<open>connection/datagram.rs\<close>: sessions, dispatcher), \<open>Socks_Protocol\<close>
    and \<open>Socks_Endpoint\<close> (\<open>endpoint/socks/\<close>), \<open>Http_Endpoint\<close> (\<open>endpoint/http.rs\<close>), \<open>Fake_Dns\<close>, \<open>Tun\<close>, \<open>Tun_Inbound\<close>
    and \<open>Tun_Tasks\<close> (\<open>endpoint/tun.rs\<close>: the name pool, target choice and flows, the loop on the packets of the stack, and the
    whole endpoint with its four tasks between the device and the stack, and where it hangs).
  \<^item> Network stack: \<open>Net_Tcp\<close> (\<open>ombrac-netstack/src/tcp.rs\<close>, streams and socket IO at the granularity of
    the loads and stores that can interleave), \<open>Net_Fifo\<close> (its refinement of two bounded channels), \<open>Net_Worker\<close> (the index of a
    packet, the rounds of a worker), \<open>Net_Dispatch\<close> (dispatcher, workers and the channel of
    streams as one machine), \<open>Net_Stack\<close> (\<open>stack.rs\<close>, \<open>udp.rs\<close>, \<open>buffer.rs\<close>, \<open>device.rs\<close>), \<open>Net_Inbound\<close> (the sink in front of the TCP side).
  \<^item> Server: \<open>Server_Auth\<close> (\<open>ombrac-server/src/connection/mod.rs\<close>: handshake, acceptor), \<open>Server_Stream\<close>
    (\<open>connection/stream.rs\<close>, \<open>dns.rs\<close>), \<open>Server_Datagram\<close> (\<open>connection/datagram.rs\<close>), \<open>Server_Connections\<close> (all
    connections of a server with their two tunnels each, on shared counters), \<open>Server_Service\<close> (\<open>service.rs\<close>: the QUIC endpoint,
    the acceptor and the connections as one machine, with the two shutdowns).
  \<^item> Configuration: \<open>Overlay\<close> (the locales of layered records), \<open>Client_Config\<close>, \<open>Server_Config\<close>
    (\<open>config/\<close> of either side), \<open>Services\<close> (\<open>service.rs\<close> of either side: from the configuration to the transport, draining),
    \<open>Client_Service\<close> (the client's service: its endpoints from start to shutdown, composed of the machines above), \<open>Command_Line\<close>
    (\<open>config/cli.rs\<close>, \<open>bin/main.rs\<close> of either side: from the parsed arguments to the exit code), \<open>C_Interface\<close>
    (\<open>ffi.rs\<close> of either side).

  \<^bold>\<open>Reading the model.\<close> A struct is a record, an enum a datatype, an integer a word of its width, and a fallible
  function returns a sum. A task that waits is a step function on the component's state: an event says what the await gave,
  and \<open>None\<close> that the event cannot happen there; a run is any sequence of accepted events, so a statement on runs
  holds for every interleaving. Histories (what was read, written, sent) are extra fields the code does not read.

  \<^bold>\<open>Groups of lemmas.\<close> Each component has introduction and elimination rules for its invariant, the steps that keep it, and the
  interpretation of the locale that carries it to runs; the properties \<open>C1\<close> to \<open>C40\<close> follow from these in a few
  lines, and each property with hypotheses has a witness, an instance whose hypotheses are all discharged.

  \<^bold>\<open>Parameters.\<close> Code that is not in the repository enters as arguments: the serialisation (bincode, serde, the DNS
  and packet codecs), the caches of moka (their operations, with hypotheses that say whether entries may be lost), sockets,
  resolver, files, \<open>smoltcp\<close>'s sockets and interface, \<open>quinn\<close> and \<open>rustls\<close>. Hypotheses state only documented behaviour.

  \<^bold>\<open>Bounds and termination.\<close> No definition uses fuel. \<open>io_send\<close> ends because the ring shrinks; the loops of the sources that
  wait forever are machines. \<open>relay_winds_down\<close> and \<open>drain_returns\<close> bound the number of
  steps. Where nothing wakes a task, its step is an event of its own (\<open>SendPoll\<close>), which statements that something ends leave out. The counters wrap as in the code;
  \<open>session_isolation\<close> assumes fewer than \<open>2^64 - 1\<close> events, since session identifiers wrap.

  \<^bold>\<open>Not modelled.\<close> The bodies that only build objects of libraries (\<open>create_interface\<close>), logging,
  what \<open>clap\<close> and \<open>serde_json\<close> parse, build scripts, tests and benches; and that a task panics on its own. Timers appear as events, so statements about how
  long something takes are made only where the code computes with times (reconnection, draining).
\<close>

section \<open>Properties across components\<close>

text \<open>
  C14. The reason of a failed connection survives the whole way: what the server's connect attempt fails
  with is sent in the response, becomes the client's error, is counted as a failed stream, and
  decides the SOCKS reply. The kinds "refused", "network unreachable", "host unreachable" and "timed
  out" arrive unchanged with their message and get their own reply codes; every other kind becomes
  "other" and the general failure code.
\<close>

theorem connect_error_end_to_end:
  assumes "op_stream env = Inr stream" and "op_encode env (Connect \<lparr>connect_address = dest\<rparr>) = Inr enc"
    and "op_send env enc = Inr ()" and "op_next env = Some (Inr payload)" and "op_write_buf env = []"
    and "op_decode env payload = Inr (ConnectResponse (connect_response (Inl e)))"
  shows "\<exists>e'. open_bidirectional env dest m = (Inl e', m\<lparr>streams_failed := streams_failed m + 1\<rparr>) \<and>
    err_msg e' = err_msg e \<and>
    err_kind e' = (if err_kind e \<in> {KConnectionRefused, KNetworkUnreachable, KHostUnreachable, KTimedOut}
                   then err_kind e else KOther) \<and>
    reply_as_u8 (from_connect_error e') =
      (case err_kind e of KConnectionRefused \<Rightarrow> 5 | KTimedOut \<Rightarrow> 6 | KHostUnreachable \<Rightarrow> 4
       | KNetworkUnreachable \<Rightarrow> 3 | _ \<Rightarrow> 1)"
  using assms
  by (cases "err_kind e")
    (simp_all add: open_bidirectional_def connect_response_def from_io_error_def from_connect_error_def)

theorem connect_error_end_to_end_witness:
  "\<exists>e'. open_bidirectional
      \<lparr>op_stream = Inr (), op_encode = (\<lambda>_. Inr [0]), op_send = (\<lambda>_. Inr ()), op_next = Some (Inr [0]),
       op_decode = (\<lambda>_. Inr (ConnectResponse (connect_response (Inl (io_err KTimedOut ''connection timeout''))))),
       op_write_buf = [], op_read_buf = []\<rparr> (Domain [97] 80) metrics_new =
      (Inl e', metrics_new\<lparr>streams_failed := 1\<rparr>) \<and> err_kind e' = KTimedOut \<and> reply_as_u8 (from_connect_error e') = 6"
proof -
  let ?env = "\<lparr>op_stream = Inr (), op_encode = (\<lambda>_. Inr [0]), op_send = (\<lambda>_. Inr ()), op_next = Some (Inr [0]),
       op_decode = (\<lambda>_. Inr (ConnectResponse (connect_response (Inl (io_err KTimedOut ''connection timeout''))))),
       op_write_buf = [], op_read_buf = []\<rparr>"
  show ?thesis
    using connect_error_end_to_end [of ?env "()" "Domain [97] 80" "[0]" "[0]" "io_err KTimedOut ''connection timeout''" metrics_new]
    by auto
qed

end
